(* ===== verification/Prelude.thy ===== *)
theory Prelude
  imports Main "HOL-Library.Word"
begin

text \<open>
  What every component shares: the machine integer types of the Rust sources, the result
  type with its panics, checked indexing, and generic lemmas on lists and maps.

  A Rust \<open>usize\<close> counts things held in memory here (instructions, variables, roles), so it
  is a \<open>nat\<close>; the fields of messages keep their width as words. A Rust \<open>String\<close> is its
  UTF-8 bytes, so \<open>length\<close> is Rust's \<open>len()\<close>. A \<open>Duration\<close> is a number of nanoseconds.
\<close>

type_synonym u8 = "8 word"
type_synonym u16 = "16 word"
type_synonym u32 = "32 word"
type_synonym duration = nat

abbreviation nanos_per_milli :: nat where "nanos_per_milli \<equiv> 1000000"
abbreviation nanos_per_sec :: nat where "nanos_per_sec \<equiv> 1000000000"

section \<open>Results\<close>

text \<open>
  The value of a fallible Rust function: \<open>Ok\<close> and \<open>Err\<close> are Rust's, \<open>Panic\<close> is a run
  that ended in a panic (\<open>expect\<close> on \<open>None\<close>, an index out of range, a failed assertion).
\<close>

datatype ('e, 'a) outcome = Ok 'a | Err 'e | Panic

text \<open>The question mark operator: go on with the value, or return the failure.\<close>

fun andThen :: "('e, 'a) outcome \<Rightarrow> ('a \<Rightarrow> ('e, 'b) outcome) \<Rightarrow> ('e, 'b) outcome" where
  "andThen (Ok x) f = f x"
| "andThen (Err e) f = Err e"
| "andThen Panic f = Panic"

fun map_err :: "('e \<Rightarrow> 'f) \<Rightarrow> ('e, 'a) outcome \<Rightarrow> ('f, 'a) outcome" where
  "map_err g (Ok x) = Ok x"
| "map_err g (Err e) = Err (g e)"
| "map_err g Panic = Panic"

fun is_ok :: "('e, 'a) outcome \<Rightarrow> bool" where
  "is_ok (Ok _) = True"
| "is_ok _ = False"

lemma andThen_eq_Ok [simp]: "andThen r f = Ok y \<longleftrightarrow> (\<exists>x. r = Ok x \<and> f x = Ok y)"
  by (cases r) auto

lemma andThen_eq_Err [simp]:
  "andThen r f = Err e \<longleftrightarrow> r = Err e \<or> (\<exists>x. r = Ok x \<and> f x = Err e)"
  by (cases r) auto

lemma andThen_eq_Panic [simp]:
  "andThen r f = Panic \<longleftrightarrow> r = Panic \<or> (\<exists>x. r = Ok x \<and> f x = Panic)"
  by (cases r) auto

lemma map_err_eq_Ok [simp]: "map_err g r = Ok x \<longleftrightarrow> r = Ok x"
  by (cases r) auto

lemma map_err_eq_Panic [simp]: "map_err g r = Panic \<longleftrightarrow> r = Panic"
  by (cases r) auto

lemma is_ok_iff: "is_ok r \<longleftrightarrow> (\<exists>x. r = Ok x)"
  by (cases r) auto

section \<open>Indexing\<close>

text \<open>Rust's \<open>v.get(i)\<close>, and \<open>v[i]\<close>, which panics out of range.\<close>

definition get :: "'a list \<Rightarrow> nat \<Rightarrow> 'a option" where
  "get xs i = (if i < length xs then Some (xs ! i) else None)"

definition index :: "'a list \<Rightarrow> nat \<Rightarrow> ('e, 'a) outcome" where
  "index xs i = (if i < length xs then Ok (xs ! i) else Panic)"

lemma get_eq_Some: "get xs i = Some x \<longleftrightarrow> i < length xs \<and> xs ! i = x"
  by (auto simp: get_def)

lemma get_eq_None: "get xs i = None \<longleftrightarrow> length xs \<le> i"
  by (auto simp: get_def)

lemma index_eq_Ok [simp]: "index xs i = Ok x \<longleftrightarrow> i < length xs \<and> xs ! i = x"
  by (auto simp: index_def)

lemma index_eq_Err [simp]: "index xs i \<noteq> Err e"
  by (auto simp: index_def)

lemma index_eq_Panic [simp]: "index xs i = Panic \<longleftrightarrow> length xs \<le> i"
  by (auto simp: index_def)

lemma get_code [simp]:
  "get [] i = None" "get (x # xs) 0 = Some x" "get (x # xs) (Suc i) = get xs i"
  by (auto simp: get_def)

section \<open>Lists\<close>

lemma in_set_enumerate:
  "(i, x) \<in> set (enumerate n xs) \<longleftrightarrow> n \<le> i \<and> i < n + length xs \<and> xs ! (i - n) = x"
  by (auto simp: in_set_enumerate_eq)

lemma list_all2_pointwise:
  "list_all2 P xs ys \<longleftrightarrow> length xs = length ys \<and> (\<forall>i < length xs. P (xs ! i) (ys ! i))"
  by (simp add: list_all2_conv_all_nth)

lemma find_None_filter: "find P xs = None \<longleftrightarrow> filter P xs = []"
  by (induction xs) auto

end
