(* ===== verification/Ir_Types.thy ===== *)
theory Ir_Types
  imports Prelude
begin

text \<open>
  The data of the intermediate representation: \<open>variable.rs\<close>, \<open>operation.rs\<close>, \<open>errors.rs\<close>,
  \<open>instruction.rs\<close> and the structs of \<open>lib.rs\<close> of \<open>stratamoto-ir\<close>. Constructors keep the
  source's names; those of \<open>Variable\<close> carry a \<open>V\<close>, since \<open>Operation\<close> and the compiler's
  \<open>Value\<close> use some of the same ones.
\<close>

section \<open>Subprotocols\<close>

datatype protocol = Mining | JobDeclaration | TemplateDistribution

fun protocol_id :: "protocol \<Rightarrow> u8" where
  "protocol_id Mining = 0"
| "protocol_id JobDeclaration = 1"
| "protocol_id TemplateDistribution = 2"

definition protocol_from_id :: "u8 \<Rightarrow> protocol option" where
  "protocol_from_id i =
     (if i = 0 then Some Mining
      else if i = 1 then Some JobDeclaration
      else if i = 2 then Some TemplateDistribution
      else None)"

fun protocol_display :: "protocol \<Rightarrow> string" where
  "protocol_display Mining = ''mining''"
| "protocol_display JobDeclaration = ''job-declaration''"
| "protocol_display TemplateDistribution = ''template-distribution''"

text \<open>
  \<open>Protocol\<close> derives \<open>Ord\<close>: the variants in their order of declaration, which is the
  order of their wire ids.
\<close>

instantiation protocol :: linorder
begin

definition less_eq_protocol :: "protocol \<Rightarrow> protocol \<Rightarrow> bool" where
  "p \<le> q \<longleftrightarrow> protocol_id p \<le> protocol_id q"

definition less_protocol :: "protocol \<Rightarrow> protocol \<Rightarrow> bool" where
  "p < q \<longleftrightarrow> protocol_id p < protocol_id q"

lemma protocol_id_inject [simp]: "protocol_id p = protocol_id q \<longleftrightarrow> p = q"
  by (cases p; cases q) simp_all

instance
proof
  fix p q r :: protocol
  show "p < q \<longleftrightarrow> p \<le> q \<and> \<not> q \<le> p"
    by (simp add: less_eq_protocol_def less_protocol_def less_le_not_le)
  show "p \<le> p" by (simp add: less_eq_protocol_def)
  show "p \<le> q \<Longrightarrow> q \<le> r \<Longrightarrow> p \<le> r"
    unfolding less_eq_protocol_def by (rule order_trans)
  show "p \<le> q \<Longrightarrow> q \<le> p \<Longrightarrow> p = q"
    unfolding less_eq_protocol_def by (simp add: order_antisym flip: protocol_id_inject)
  show "p \<le> q \<or> q \<le> p" by (auto simp: less_eq_protocol_def)
qed

end

section \<open>Variable types\<close>

datatype variable =
    VNop
  | VRole
  | VConnection
  | VSetupAttempt protocol
  | VSession protocol
  | VVersion
  | VFlags
  | VPort
  | VStr
  | VBytes
  | VDuration
  | VMutSetupConnection
  | VConstSetupConnection protocol

fun variable_display :: "variable \<Rightarrow> string" where
  "variable_display VNop = ''nop''"
| "variable_display VRole = ''role''"
| "variable_display VConnection = ''connection''"
| "variable_display (VSetupAttempt p) = ''setup-attempt<'' @ protocol_display p @ ''>''"
| "variable_display (VSession p) = ''session<'' @ protocol_display p @ ''>''"
| "variable_display VVersion = ''version''"
| "variable_display VFlags = ''flags''"
| "variable_display VPort = ''port''"
| "variable_display VStr = ''str''"
| "variable_display VBytes = ''bytes''"
| "variable_display VDuration = ''duration''"
| "variable_display VMutSetupConnection = ''mut-setup-connection''"
| "variable_display (VConstSetupConnection p) = ''setup-connection<'' @ protocol_display p @ ''>''"

section \<open>Operations\<close>

datatype operation =
    Nop (nop_outputs: nat) (nop_inner_outputs: nat)
  | LoadRole nat
  | LoadConnection nat
  | LoadVersion u16
  | LoadFlags u32
  | LoadPort u16
  | LoadStr string
  | LoadBytes "u8 list"
  | LoadDuration duration
  | Connect
  | BeginBuildSetupConnection
  | SetVersions
  | SetFlags
  | SetEndpoint
  | SetDeviceInfo
  | EndBuildSetupConnection protocol
  | SendSetupConnection protocol
  | BeginOnSetupSuccess protocol
  | EndOnSetupSuccess
  | SendRawFrame u8 u16
  | AdvanceTime
  | Probe

fun is_nop :: "operation \<Rightarrow> bool" where
  "is_nop (Nop _ _) = True"
| "is_nop _ = False"

fun is_block_begin :: "operation \<Rightarrow> bool" where
  "is_block_begin BeginBuildSetupConnection = True"
| "is_block_begin (BeginOnSetupSuccess _) = True"
| "is_block_begin _ = False"

fun is_block_end :: "operation \<Rightarrow> bool" where
  "is_block_end (EndBuildSetupConnection _) = True"
| "is_block_end EndOnSetupSuccess = True"
| "is_block_end _ = False"

text \<open>\<open>self.is_matching_block_begin(other)\<close>: \<open>self\<close> is the end, \<open>other\<close> the beginning.\<close>

fun is_matching_block_begin :: "operation \<Rightarrow> operation \<Rightarrow> bool" where
  "is_matching_block_begin (EndBuildSetupConnection _) BeginBuildSetupConnection = True"
| "is_matching_block_begin EndOnSetupSuccess (BeginOnSetupSuccess _) = True"
| "is_matching_block_begin _ _ = False"

fun get_output_variables :: "operation \<Rightarrow> variable list" where
  "get_output_variables (Nop n _) = replicate n VNop"
| "get_output_variables (LoadRole _) = [VRole]"
| "get_output_variables (LoadConnection _) = [VConnection]"
| "get_output_variables (LoadVersion _) = [VVersion]"
| "get_output_variables (LoadFlags _) = [VFlags]"
| "get_output_variables (LoadPort _) = [VPort]"
| "get_output_variables (LoadStr _) = [VStr]"
| "get_output_variables (LoadBytes _) = [VBytes]"
| "get_output_variables (LoadDuration _) = [VDuration]"
| "get_output_variables Connect = [VConnection]"
| "get_output_variables (EndBuildSetupConnection p) = [VConstSetupConnection p]"
| "get_output_variables (SendSetupConnection p) = [VSetupAttempt p]"
| "get_output_variables BeginBuildSetupConnection = []"
| "get_output_variables (BeginOnSetupSuccess _) = []"
| "get_output_variables EndOnSetupSuccess = []"
| "get_output_variables SetVersions = []"
| "get_output_variables SetFlags = []"
| "get_output_variables SetEndpoint = []"
| "get_output_variables SetDeviceInfo = []"
| "get_output_variables (SendRawFrame _ _) = []"
| "get_output_variables AdvanceTime = []"
| "get_output_variables Probe = []"

fun get_inner_output_variables :: "operation \<Rightarrow> variable list" where
  "get_inner_output_variables (Nop _ n) = replicate n VNop"
| "get_inner_output_variables BeginBuildSetupConnection = [VMutSetupConnection]"
| "get_inner_output_variables (BeginOnSetupSuccess p) = [VSession p]"
| "get_inner_output_variables _ = []"

fun get_input_variables :: "operation \<Rightarrow> variable list" where
  "get_input_variables Connect = [VRole]"
| "get_input_variables SetVersions = [VMutSetupConnection, VVersion, VVersion]"
| "get_input_variables SetFlags = [VMutSetupConnection, VFlags]"
| "get_input_variables SetEndpoint = [VMutSetupConnection, VStr, VPort]"
| "get_input_variables SetDeviceInfo = [VMutSetupConnection, VStr, VStr, VStr, VStr]"
| "get_input_variables (EndBuildSetupConnection _) = [VMutSetupConnection]"
| "get_input_variables (SendSetupConnection p) = [VConnection, VConstSetupConnection p]"
| "get_input_variables (BeginOnSetupSuccess p) = [VSetupAttempt p]"
| "get_input_variables EndOnSetupSuccess = []"
| "get_input_variables (SendRawFrame _ _) = [VConnection, VBytes]"
| "get_input_variables AdvanceTime = [VDuration]"
| "get_input_variables (Nop _ _) = []"
| "get_input_variables (LoadRole _) = []"
| "get_input_variables (LoadConnection _) = []"
| "get_input_variables (LoadVersion _) = []"
| "get_input_variables (LoadFlags _) = []"
| "get_input_variables (LoadPort _) = []"
| "get_input_variables (LoadStr _) = []"
| "get_input_variables (LoadBytes _) = []"
| "get_input_variables (LoadDuration _) = []"
| "get_input_variables BeginBuildSetupConnection = []"
| "get_input_variables Probe = []"

definition num_outputs :: "operation \<Rightarrow> nat" where
  "num_outputs op = length (get_output_variables op)"

definition num_inner_outputs :: "operation \<Rightarrow> nat" where
  "num_inner_outputs op = length (get_inner_output_variables op)"

definition num_inputs :: "operation \<Rightarrow> nat" where
  "num_inputs op = length (get_input_variables op)"

text \<open>The number of variables an instruction with this operation defines, of either kind.\<close>

abbreviation num_defined :: "operation \<Rightarrow> nat" where
  "num_defined op \<equiv> num_outputs op + num_inner_outputs op"

section \<open>Validation errors\<close>

datatype program_validation_error =
    InvalidNumberOfInputs (inputs_is: nat) (inputs_expected: nat)
  | InvalidVariableType (type_is: variable) (type_expected: variable)
  | VariableNotDefined nat
  | RoleNotFound nat
  | ConnectionNotFound nat
  | InvalidBlockEnd (block_begin: operation) (block_end: operation)
  | UnfinishedBlock operation

text \<open>The loop of \<open>check_input_types\<close> over the zipped lists, up to the first mismatch.\<close>

fun check_zipped :: "(variable \<times> variable) list \<Rightarrow> (program_validation_error, unit) outcome" where
  "check_zipped [] = Ok ()"
| "check_zipped ((got, expected) # rest) =
     (if got \<noteq> expected then Err (InvalidVariableType got expected) else check_zipped rest)"

definition check_input_types ::
  "operation \<Rightarrow> variable list \<Rightarrow> (program_validation_error, unit) outcome" where
  "check_input_types op got =
     (let expected = get_input_variables op in
      if length got \<noteq> length expected
      then Err (InvalidNumberOfInputs (length got) (length expected))
      else check_zipped (zip got expected))"

section \<open>Instructions and programs\<close>

record instruction =
  inputs :: "nat list"
  operation :: operation

definition Instruction :: "operation \<Rightarrow> nat list \<Rightarrow> instruction" where
  "Instruction op ins = \<lparr>inputs = ins, operation = op\<rparr>"

definition is_noppable :: "instruction \<Rightarrow> bool" where
  "is_noppable i \<longleftrightarrow> \<not> is_block_begin (operation i) \<and> \<not> is_block_end (operation i)"

definition nop :: "instruction \<Rightarrow> instruction" where
  "nop i = i\<lparr>inputs := [],
             operation := Nop (num_outputs (operation i)) (num_inner_outputs (operation i))\<rparr>"

datatype instruction_context = Global | BuildSetupConnection | OnSetupSuccess

definition entered_context_after_execution :: "instruction \<Rightarrow> instruction_context option" where
  "entered_context_after_execution i =
     (case operation i of
        BeginBuildSetupConnection \<Rightarrow> Some BuildSetupConnection
      | BeginOnSetupSuccess _ \<Rightarrow> Some OnSetupSuccess
      | _ \<Rightarrow> None)"

record program_context =
  num_roles :: nat
  num_connections :: nat
  seed :: nat

record program =
  prog_context :: program_context
  instructions :: "instruction list"

definition unchecked_new :: "program_context \<Rightarrow> instruction list \<Rightarrow> program" where
  "unchecked_new ctx ins = \<lparr>prog_context = ctx, instructions = ins\<rparr>"

section \<open>Facts about the operations\<close>

text \<open>An operation is never a block's beginning and its end.\<close>

lemma begin_not_end [simp]: "is_block_begin op \<Longrightarrow> \<not> is_block_end op"
  by (cases op) auto

lemma end_not_begin [simp]: "is_block_end op \<Longrightarrow> \<not> is_block_begin op"
  by (cases op) auto

lemma is_nop_iff: "is_nop op \<longleftrightarrow> (\<exists>n m. op = Nop n m)"
  by (cases op) auto

lemma nop_not_block [simp]: "is_nop op \<Longrightarrow> \<not> is_block_begin op \<and> \<not> is_block_end op"
  by (cases op) auto

lemma begin_outputs [simp]: "is_block_begin op \<Longrightarrow> get_output_variables op = []"
  by (cases op) auto

lemma inner_outputs_not_begin:
  "\<not> is_block_begin op \<Longrightarrow> \<not> is_nop op \<Longrightarrow> get_inner_output_variables op = []"
  by (cases op) auto

lemma matching_begin_is_begin:
  "is_matching_block_begin e b \<Longrightarrow> is_block_begin b \<and> is_block_end e"
  by (cases e; cases b) auto

lemma entered_context_begin:
  "is_block_begin (operation i) \<Longrightarrow> \<exists>c. entered_context_after_execution i = Some c"
  by (cases "operation i") (auto simp: entered_context_after_execution_def)

lemma num_outputs_begin [simp]: "is_block_begin op \<Longrightarrow> num_outputs op = 0"
  by (simp add: num_outputs_def)

lemma num_defined_nop [simp]: "num_outputs (Nop n m) = n" "num_inner_outputs (Nop n m) = m"
  by (simp_all add: num_outputs_def num_inner_outputs_def)

lemma operation_nop [simp]:
  "operation (nop i) = Nop (num_outputs (operation i)) (num_inner_outputs (operation i))"
  "inputs (nop i) = []"
  by (simp_all add: nop_def)

lemma Instruction_simps [simp]:
  "inputs (Instruction op ins) = ins" "operation (Instruction op ins) = op"
  by (simp_all add: Instruction_def)

lemma check_zipped_eq:
  "length got = length expected \<Longrightarrow>
   check_zipped (zip got expected) = Ok () \<longleftrightarrow> got = expected"
  by (induction got expected rule: list_induct2) auto

lemma check_zipped_not_Panic [simp]: "check_zipped ps \<noteq> Panic"
  by (induction ps rule: check_zipped.induct) auto

lemma check_input_types_Ok:
  "check_input_types op got = Ok () \<longleftrightarrow> got = get_input_variables op"
  by (auto simp: check_input_types_def Let_def check_zipped_eq)

lemma check_input_types_not_Panic [simp]: "check_input_types op got \<noteq> Panic"
  by (simp add: check_input_types_def Let_def)

text \<open>The wire ids are exactly the ones the type knows, and identify the subprotocol.\<close>

lemma protocol_from_id_Some: "protocol_from_id i = Some p \<longleftrightarrow> i = protocol_id p"
  by (cases p) (auto simp: protocol_from_id_def)

end
