(* ===== verification/Typing.thy ===== *)
theory Typing
  imports Ir_Types
begin

text \<open>
  The abstract specification of static validity: a typing judgement on programs that knows
  nothing of scope numbers, sets of active scopes or instruction positions. The state is a
  stack of frames, innermost first; a frame is the operation that opened it (none for the
  global one) and the variables it holds, each with its type. Theory \<open>Builder\<close> shows that
  the program builder implements this judgement; the program transformations are proved
  against it.
\<close>

section \<open>The judgement\<close>

type_synonym frame = "operation option \<times> (nat \<times> variable) set"

record typing_state =
  frames :: "frame list"
  next_var :: nat

definition init_typing :: typing_state where
  "init_typing = \<lparr>frames = [(None, {})], next_var = 0\<rparr>"

definition in_scope :: "frame list \<Rightarrow> nat \<Rightarrow> variable \<Rightarrow> bool" where
  "in_scope fs i v \<longleftrightarrow> (\<exists>fr \<in> set fs. (i, v) \<in> snd fr)"

definition wt_inputs :: "frame list \<Rightarrow> instruction \<Rightarrow> bool" where
  "wt_inputs fs i \<longleftrightarrow> list_all2 (in_scope fs) (inputs i) (get_input_variables (operation i))"

fun in_context :: "program_context \<Rightarrow> operation \<Rightarrow> bool" where
  "in_context ctx (LoadRole i) = (i < num_roles ctx)"
| "in_context ctx (LoadConnection i) = (i < num_connections ctx)"
| "in_context ctx _ = True"

text \<open>The variables an operation defines from number \<open>n\<close> on: those of a nop are no one's.\<close>

definition outer_vars :: "nat \<Rightarrow> operation \<Rightarrow> (nat \<times> variable) set" where
  "outer_vars n op = (if is_nop op then {} else set (enumerate n (get_output_variables op)))"

definition inner_vars :: "nat \<Rightarrow> operation \<Rightarrow> (nat \<times> variable) set" where
  "inner_vars n op =
     (if is_nop op then {}
      else set (enumerate (n + num_outputs op) (get_inner_output_variables op)))"

inductive wt_step ::
  "program_context \<Rightarrow> typing_state \<Rightarrow> instruction \<Rightarrow> typing_state \<Rightarrow> bool"
  for ctx :: program_context where
  wt_plain:
    "\<not> is_block_begin (operation i) \<Longrightarrow> \<not> is_block_end (operation i) \<Longrightarrow>
     wt_inputs (frames t) i \<Longrightarrow> in_context ctx (operation i) \<Longrightarrow>
     frames t = (o1, F) # fs \<Longrightarrow>
     wt_step ctx t i
       \<lparr>frames = (o1, F \<union> outer_vars (next_var t) (operation i)) # fs,
        next_var = next_var t + num_defined (operation i)\<rparr>"
| wt_begin:
    "is_block_begin (operation i) \<Longrightarrow>
     wt_inputs (frames t) i \<Longrightarrow> in_context ctx (operation i) \<Longrightarrow>
     wt_step ctx t i
       \<lparr>frames = (Some (operation i), inner_vars (next_var t) (operation i)) # frames t,
        next_var = next_var t + num_defined (operation i)\<rparr>"
| wt_end:
    "is_block_end (operation i) \<Longrightarrow>
     wt_inputs (frames t) i \<Longrightarrow> in_context ctx (operation i) \<Longrightarrow>
     frames t = (Some b, F) # (o1, G) # fs \<Longrightarrow> is_matching_block_begin (operation i) b \<Longrightarrow>
     wt_step ctx t i
       \<lparr>frames = (o1, G \<union> outer_vars (next_var t) (operation i)) # fs,
        next_var = next_var t + num_defined (operation i)\<rparr>"

inductive wt_steps ::
  "program_context \<Rightarrow> typing_state \<Rightarrow> instruction list \<Rightarrow> typing_state \<Rightarrow> bool"
  for ctx :: program_context where
  wt_nil: "wt_steps ctx t [] t"
| wt_cons: "wt_step ctx t i t' \<Longrightarrow> wt_steps ctx t' ins t'' \<Longrightarrow> wt_steps ctx t (i # ins) t''"

inductive_cases wt_steps_NilE [elim!]: "wt_steps ctx t [] t'"
inductive_cases wt_steps_ConsE [elim!]: "wt_steps ctx t (i # ins) t'"
inductive_simps wt_steps_simps: "wt_steps ctx t [] t'" "wt_steps ctx t (i # ins) t'"

text \<open>A well-typed program ends where it began: in the global frame, every block closed.\<close>

definition wt_program :: "program_context \<Rightarrow> instruction list \<Rightarrow> bool" where
  "wt_program ctx ins \<longleftrightarrow>
     (\<exists>t. wt_steps ctx init_typing ins t \<and> length (frames t) = 1)"

section \<open>Basic facts\<close>

lemma wt_step_det: "wt_step ctx t i t1 \<Longrightarrow> wt_step ctx t i t2 \<Longrightarrow> t1 = t2"
  by (elim wt_step.cases) auto

lemma wt_steps_det: "wt_steps ctx t ins t1 \<Longrightarrow> wt_steps ctx t ins t2 \<Longrightarrow> t1 = t2"
proof (induction arbitrary: t2 rule: wt_steps.induct)
  case (wt_cons t i t' ins t'')
  then obtain u where "wt_step ctx t i u" "wt_steps ctx u ins t2" by auto
  with wt_cons wt_step_det show ?case by metis
qed auto

lemma wt_steps_append:
  "wt_steps ctx t (xs @ ys) t'' \<longleftrightarrow> (\<exists>t'. wt_steps ctx t xs t' \<and> wt_steps ctx t' ys t'')"
  by (induction xs arbitrary: t) (auto simp: wt_steps_simps)

lemma wt_step_inputs:
  assumes "wt_step ctx t i t'"
  shows "wt_inputs (frames t) i" "in_context ctx (operation i)"
  using assms by (auto elim: wt_step.cases)

lemma wt_step_next:
  "wt_step ctx t i t' \<Longrightarrow> next_var t' = next_var t + num_defined (operation i)"
  by (auto elim: wt_step.cases)

text \<open>The number of variables a list of instructions defines.\<close>

definition variable_total :: "instruction list \<Rightarrow> nat" where
  "variable_total ins = sum_list (map (\<lambda>i. num_defined (operation i)) ins)"

lemma variable_total_simps [simp]:
  "variable_total [] = 0"
  "variable_total (i # ins) = num_defined (operation i) + variable_total ins"
  "variable_total (xs @ ys) = variable_total xs + variable_total ys"
  by (simp_all add: variable_total_def)

lemma wt_steps_next: "wt_steps ctx t ins t' \<Longrightarrow> next_var t' = next_var t + variable_total ins"
  by (induction rule: wt_steps.induct) (auto dest: wt_step_next)

text \<open>Variables in scope have been defined: their numbers are below the next one.\<close>

definition frames_below :: "typing_state \<Rightarrow> bool" where
  "frames_below t \<longleftrightarrow> (\<forall>i v. in_scope (frames t) i v \<longrightarrow> i < next_var t)"

lemma frames_below_init [simp]: "frames_below init_typing"
  by (simp add: frames_below_def init_typing_def in_scope_def)

lemma outer_vars_bounds:
  "(i, v) \<in> outer_vars n op \<Longrightarrow> n \<le> i \<and> i < n + num_outputs op"
  by (auto simp: outer_vars_def in_set_enumerate num_outputs_def split: if_splits)

lemma inner_vars_bounds:
  "(i, v) \<in> inner_vars n op \<Longrightarrow> n \<le> i \<and> i < n + num_defined op"
  by (auto simp: inner_vars_def in_set_enumerate num_inner_outputs_def split: if_splits)

lemma wt_step_below: "wt_step ctx t i t' \<Longrightarrow> frames_below t \<Longrightarrow> frames_below t'"
  by (erule wt_step.cases)
    (force simp: frames_below_def in_scope_def dest: outer_vars_bounds inner_vars_bounds)+

lemma wt_steps_below: "wt_steps ctx t ins t' \<Longrightarrow> frames_below t \<Longrightarrow> frames_below t'"
  by (induction rule: wt_steps.induct) (auto dest: wt_step_below)

lemma wt_step_frames_ne: "wt_step ctx t i t' \<Longrightarrow> frames t' \<noteq> []"
  by (auto elim: wt_step.cases)

section \<open>Renumbering\<close>

text \<open>
  The program transformations renumber inputs and keep the shape of the blocks. One typing
  state covers another along a renaming \<open>f\<close> when their blocks were opened by the same
  operations and every variable of the one is, renamed, a variable of the other.
\<close>

definition rename_inputs :: "(nat \<Rightarrow> nat) \<Rightarrow> instruction \<Rightarrow> instruction" where
  "rename_inputs f i = i\<lparr>inputs := map f (inputs i)\<rparr>"

lemma rename_inputs_simps [simp]:
  "operation (rename_inputs f i) = operation i"
  "inputs (rename_inputs f i) = map f (inputs i)"
  by (simp_all add: rename_inputs_def)

definition frame_covers :: "(nat \<Rightarrow> nat) \<Rightarrow> frame \<Rightarrow> frame \<Rightarrow> bool" where
  "frame_covers f fr gr \<longleftrightarrow>
     fst fr = fst gr \<and> (\<forall>i v. (i, v) \<in> snd fr \<longrightarrow> (f i, v) \<in> snd gr)"

definition covers :: "(nat \<Rightarrow> nat) \<Rightarrow> typing_state \<Rightarrow> typing_state \<Rightarrow> bool" where
  "covers f t u \<longleftrightarrow> list_all2 (frame_covers f) (frames t) (frames u)"

text \<open>The variables the next instruction defines are renamed to those it defines there.\<close>

definition renames_fresh :: "(nat \<Rightarrow> nat) \<Rightarrow> nat \<Rightarrow> nat \<Rightarrow> nat \<Rightarrow> bool" where
  "renames_fresh f n m k \<longleftrightarrow> (\<forall>j < k. f (n + j) = m + j)"

lemma covers_in_scope:
  assumes "list_all2 (frame_covers f) fs gs" and "in_scope fs i v"
  shows "in_scope gs (f i) v"
  using assms by (induction rule: list_all2_induct) (auto simp: in_scope_def frame_covers_def)

lemma covers_inputs:
  assumes "list_all2 (frame_covers f) fs gs" and "wt_inputs fs i"
  shows "wt_inputs gs (rename_inputs f i)"
  using assms(2) covers_in_scope [OF assms(1)]
  by (auto simp: wt_inputs_def list_all2_conv_all_nth)

lemma enumerate_renamed:
  assumes "\<forall>j < length vs. f (n + j) = m + j" and "(i, v) \<in> set (enumerate n vs)"
  shows "(f i, v) \<in> set (enumerate m vs)"
proof -
  from assms(2) have *: "n \<le> i" "i < n + length vs" "vs ! (i - n) = v"
    by (auto simp: in_set_enumerate)
  then have "f (n + (i - n)) = m + (i - n)"
    using assms(1) by (metis add_less_cancel_left le_add_diff_inverse)
  with * show ?thesis by (auto simp: in_set_enumerate)
qed

lemma outer_vars_renamed:
  assumes "renames_fresh f n m (num_defined op)" and "(i, v) \<in> outer_vars n op"
  shows "(f i, v) \<in> outer_vars m op"
  using assms enumerate_renamed [of "get_output_variables op" f n m i v]
  by (auto simp: outer_vars_def renames_fresh_def num_outputs_def split: if_splits)

lemma inner_vars_renamed:
  assumes "renames_fresh f n m (num_defined op)" and "(i, v) \<in> inner_vars n op"
  shows "(f i, v) \<in> inner_vars m op"
proof -
  have "\<forall>j < num_inner_outputs op. f (n + num_outputs op + j) = m + num_outputs op + j"
    using assms(1) by (auto simp: renames_fresh_def add.assoc)
  then show ?thesis
    using assms(2) enumerate_renamed
      [of "get_inner_output_variables op" f "n + num_outputs op" "m + num_outputs op" i v]
    by (auto simp: inner_vars_def num_inner_outputs_def split: if_splits)
qed

lemma wt_step_rename:
  assumes step: "wt_step ctx t i t'" and cov: "covers f t u"
    and fresh: "renames_fresh f (next_var t) (next_var u) (num_defined (operation i))"
    and ctx': "in_context ctx' (operation i)"
  obtains u' where "wt_step ctx' u (rename_inputs f i) u'" "covers f t' u'"
proof -
  let ?i = "rename_inputs f i"
  from cov have fc: "list_all2 (frame_covers f) (frames t) (frames u)"
    by (simp add: covers_def)
  have ins: "wt_inputs (frames u) ?i"
    using covers_inputs [OF fc wt_step_inputs(1) [OF step]] .
  note new = outer_vars_renamed [OF fresh] inner_vars_renamed [OF fresh]
  from step have "\<exists>u'. wt_step ctx' u ?i u' \<and> covers f t' u'"
  proof cases
    case (wt_plain o1 F fs)
    with fc obtain G gs where u: "frames u = (o1, G) # gs" "frame_covers f (o1, F) (o1, G)"
      "list_all2 (frame_covers f) fs gs"
      by (auto simp: list_all2_Cons1 frame_covers_def)
    have "wt_step ctx' u ?i \<lparr>frames = (o1, G \<union> outer_vars (next_var u) (operation i)) # gs,
        next_var = next_var u + num_defined (operation i)\<rparr>"
      using wt_step.wt_plain [of ?i u ctx' o1 G gs] wt_plain ins ctx' u by simp
    moreover have "frame_covers f (o1, F \<union> outer_vars (next_var t) (operation i))
        (o1, G \<union> outer_vars (next_var u) (operation i))"
      using u(2) new(1) by (auto simp: frame_covers_def)
    ultimately show ?thesis using u(3) wt_plain(1) by (auto simp: covers_def)
  next
    case wt_begin
    have "wt_step ctx' u ?i
        \<lparr>frames = (Some (operation i), inner_vars (next_var u) (operation i)) # frames u,
         next_var = next_var u + num_defined (operation i)\<rparr>"
      using wt_step.wt_begin [of ?i u ctx'] wt_begin ins ctx' by simp
    then show ?thesis using fc new(2) wt_begin(1) by (auto simp: covers_def frame_covers_def)
  next
    case (wt_end b F o1 G fs)
    with fc obtain F' G' gs where u: "frames u = (Some b, F') # (o1, G') # gs"
      "frame_covers f (o1, G) (o1, G')" "list_all2 (frame_covers f) fs gs"
      by (auto simp: list_all2_Cons1 frame_covers_def)
    have "wt_step ctx' u ?i \<lparr>frames = (o1, G' \<union> outer_vars (next_var u) (operation i)) # gs,
        next_var = next_var u + num_defined (operation i)\<rparr>"
      using wt_step.wt_end [of ?i u ctx' b F' o1 G' gs] wt_end ins ctx' u by simp
    moreover have "frame_covers f (o1, G \<union> outer_vars (next_var t) (operation i))
        (o1, G' \<union> outer_vars (next_var u) (operation i))"
      using u(2) new(1) by (auto simp: frame_covers_def)
    ultimately show ?thesis using u(3) wt_end(1) by (auto simp: covers_def)
  qed
  then show ?thesis using that by blast
qed

lemma covers_length: "covers f t u \<Longrightarrow> length (frames t) = length (frames u)"
  by (auto simp: covers_def dest: list_all2_lengthD)

text \<open>A shifted copy of a list of instructions is well typed wherever its start is covered.\<close>

lemma wt_steps_rename:
  assumes "wt_steps ctx t ins t'" and "covers f t u"
    and "\<forall>j. f (next_var t + j) = next_var u + j"
    and "\<forall>i \<in> set ins. in_context ctx' (operation i)"
  shows "\<exists>u'. wt_steps ctx' u (map (rename_inputs f) ins) u' \<and> covers f t' u'"
  using assms
proof (induction arbitrary: u rule: wt_steps.induct)
  case (wt_nil t)
  then show ?case by (auto intro: wt_steps.wt_nil)
next
  case (wt_cons t i t' ins t'')
  obtain u' where u': "wt_step ctx' u (rename_inputs f i) u'" "covers f t' u'"
    using wt_step_rename [OF wt_cons.hyps(1) wt_cons.prems(1), of ctx'] wt_cons.prems
    by (auto simp: renames_fresh_def)
  have "\<forall>j. f (next_var t' + j) = next_var u' + j"
    using wt_cons.prems(2) wt_step_next [OF wt_cons.hyps(1)] wt_step_next [OF u'(1)]
    by (auto simp: add.assoc)
  with wt_cons.IH [OF u'(2)] wt_cons.prems(3) u'(1)
  show ?case by (fastforce intro: wt_steps.wt_cons)
qed

lemma covers_init: "frames u = [(None, G)] \<Longrightarrow> covers f init_typing u"
  by (simp add: covers_def init_typing_def frame_covers_def)

lemma wt_step_bottom:
  "wt_step ctx t i t' \<Longrightarrow> frames t \<noteq> [] \<Longrightarrow> fst (last (frames t)) = None \<Longrightarrow>
   fst (last (frames t')) = None"
  by (auto elim!: wt_step.cases split: if_splits)

lemma wt_steps_bottom:
  "wt_steps ctx t ins t' \<Longrightarrow> frames t \<noteq> [] \<Longrightarrow> fst (last (frames t)) = None \<Longrightarrow>
   fst (last (frames t')) = None"
  by (induction rule: wt_steps.induct) (simp_all add: wt_step_bottom wt_step_frames_ne)

lemma wt_program_end:
  assumes "wt_program ctx ins"
  obtains t F where "wt_steps ctx init_typing ins t" "frames t = [(None, F)]"
proof -
  from assms obtain t where t: "wt_steps ctx init_typing ins t" "length (frames t) = 1"
    by (auto simp: wt_program_def)
  from wt_steps_bottom [OF t(1)] have "fst (last (frames t)) = None"
    by (simp add: init_typing_def)
  with t(2) obtain F where "frames t = [(None, F)]"
    by (cases "frames t") auto
  with t(1) show ?thesis by (rule that)
qed

lemma wt_steps_context:
  "wt_steps ctx t ins t' \<Longrightarrow> \<forall>i \<in> set ins. in_context ctx (operation i)"
  by (induction rule: wt_steps.induct) (auto dest: wt_step_inputs)

section \<open>What a frame holds\<close>

text \<open>
  A frame never holds a nop's variable; a message under construction is held by the frame of
  its own construction block only, a session by the frame of its success block only.
\<close>

definition frame_typed :: "frame \<Rightarrow> bool" where
  "frame_typed fr \<longleftrightarrow>
     (\<forall>i v. (i, v) \<in> snd fr \<longrightarrow>
        v \<noteq> VNop \<and>
        (v = VMutSetupConnection \<longrightarrow> fst fr = Some BeginBuildSetupConnection) \<and>
        (\<forall>p. v = VSession p \<longrightarrow> fst fr = Some (BeginOnSetupSuccess p)))"

definition frames_typed :: "typing_state \<Rightarrow> bool" where
  "frames_typed t \<longleftrightarrow> (\<forall>fr \<in> set (frames t). frame_typed fr)"

lemma outer_vars_typed:
  "(i, v) \<in> outer_vars n op \<Longrightarrow>
   v \<noteq> VNop \<and> v \<noteq> VMutSetupConnection \<and> (\<forall>p. v \<noteq> VSession p)"
  by (cases op) (auto simp: outer_vars_def)

lemma inner_vars_typed:
  "is_block_begin op \<Longrightarrow> frame_typed (Some op, inner_vars n op)"
  by (cases op) (auto simp: inner_vars_def frame_typed_def)

lemma frame_typed_union:
  "frame_typed (o1, F) \<Longrightarrow> frame_typed (o1, F \<union> outer_vars n op)"
  using outer_vars_typed by (fastforce simp: frame_typed_def)

lemma wt_step_typed: "wt_step ctx t i t' \<Longrightarrow> frames_typed t \<Longrightarrow> frames_typed t'"
  by (erule wt_step.cases) (auto simp: frames_typed_def intro: frame_typed_union inner_vars_typed)

lemma wt_steps_typed: "wt_steps ctx t ins t' \<Longrightarrow> frames_typed t \<Longrightarrow> frames_typed t'"
  by (induction rule: wt_steps.induct) (auto dest: wt_step_typed)

lemma frames_typed_init [simp]: "frames_typed init_typing"
  by (simp add: frames_typed_def init_typing_def frame_typed_def)

lemma in_scope_not_nop: "frames_typed t \<Longrightarrow> in_scope (frames t) i v \<Longrightarrow> v \<noteq> VNop"
  by (auto simp: frames_typed_def frame_typed_def in_scope_def)

text \<open>Every frame above the global one was opened by a block beginning.\<close>

definition frames_opened :: "typing_state \<Rightarrow> bool" where
  "frames_opened t \<longleftrightarrow>
     frames t \<noteq> [] \<and> fst (last (frames t)) = None \<and>
     (\<forall>fr \<in> set (butlast (frames t)). \<exists>b. fst fr = Some b \<and> is_block_begin b)"

lemma frames_opened_init [simp]: "frames_opened init_typing"
  by (simp add: frames_opened_def init_typing_def)

lemma wt_step_opened: "wt_step ctx t i t' \<Longrightarrow> frames_opened t \<Longrightarrow> frames_opened t'"
  by (erule wt_step.cases) (auto simp: frames_opened_def split: if_splits)

lemma wt_steps_opened: "wt_steps ctx t ins t' \<Longrightarrow> frames_opened t \<Longrightarrow> frames_opened t'"
  by (induction rule: wt_steps.induct) (auto dest: wt_step_opened)

text \<open>The invariant of the states a program passes through, in one name.\<close>

definition typing_inv :: "typing_state \<Rightarrow> bool" where
  "typing_inv t \<longleftrightarrow> frames_below t \<and> frames_typed t \<and> frames_opened t"

lemma typing_inv_init [simp]: "typing_inv init_typing"
  by (simp add: typing_inv_def)

lemma wt_step_inv: "wt_step ctx t i t' \<Longrightarrow> typing_inv t \<Longrightarrow> typing_inv t'"
  by (auto simp: typing_inv_def dest: wt_step_below wt_step_typed wt_step_opened)

lemma wt_steps_inv: "wt_steps ctx t ins t' \<Longrightarrow> typing_inv t \<Longrightarrow> typing_inv t'"
  by (induction rule: wt_steps.induct) (auto dest: wt_step_inv)

end
