(* ===== verification/Rng.thy ===== *)
theory Rng
  imports Complex_Main "HOL-Library.Multiset" Prelude
begin

text \<open>
  The random number generator. The sources draw from any \<open>R: RngExt\<close> of the \<open>rand\<close> crate,
  which is not part of the repository: a record of the drawing functions the sources use,
  over a generator state \<open>'r\<close>, is an argument of every definition that draws.
  \<open>choose_index\<close> and \<open>shuffle_indices\<close> are the draws behind \<open>choose\<close> and \<open>shuffle\<close>: a
  position below the length, and an order of the positions. A probability is a rational.
\<close>

record 'r rng_ops =
  random_range :: "nat \<Rightarrow> nat \<Rightarrow> 'r \<Rightarrow> nat \<times> 'r"
  random_bool :: "rat \<Rightarrow> 'r \<Rightarrow> bool \<times> 'r"
  random_u8 :: "'r \<Rightarrow> u8 \<times> 'r"
  random_u16 :: "'r \<Rightarrow> u16 \<times> 'r"
  random_u32 :: "'r \<Rightarrow> u32 \<times> 'r"
  choose_index :: "nat \<Rightarrow> 'r \<Rightarrow> nat \<times> 'r"
  shuffle_indices :: "nat \<Rightarrow> 'r \<Rightarrow> nat list \<times> 'r"

text \<open>
  What \<open>rand\<close> documents of them: a range is half open and never left, a chosen position
  exists, a shuffle is a permutation.
\<close>

definition rng_ok :: "'r rng_ops \<Rightarrow> bool" where
  "rng_ok g \<longleftrightarrow>
     (\<forall>lo hi r. lo < hi \<longrightarrow> lo \<le> fst (random_range g lo hi r) \<and> fst (random_range g lo hi r) < hi) \<and>
     (\<forall>n r. 0 < n \<longrightarrow> fst (choose_index g n r) < n) \<and>
     (\<forall>n r. mset (fst (shuffle_indices g n r)) = mset [0..<n])"

lemma rng_okD:
  assumes "rng_ok g"
  shows "lo < hi \<Longrightarrow> lo \<le> fst (random_range g lo hi r)"
    and "lo < hi \<Longrightarrow> fst (random_range g lo hi r) < hi"
    and "0 < n \<Longrightarrow> fst (choose_index g n r) < n"
    and "mset (fst (shuffle_indices g n r)) = mset [0..<n]"
  using assms by (auto simp: rng_ok_def)

lemma rng_ok_shuffle_set: "rng_ok g \<Longrightarrow> set (fst (shuffle_indices g n r)) = {0..<n}"
  by (metis rng_okD(4) atLeastLessThan_upt set_mset_mset)

text \<open>\<open>choose\<close> on a list or an iterator: nothing of an empty one.\<close>

definition choose_from :: "'r rng_ops \<Rightarrow> 'a list \<Rightarrow> 'r \<Rightarrow> 'a option \<times> 'r" where
  "choose_from g xs r =
     (if xs = [] then (None, r)
      else let (i, r') = choose_index g (length xs) r in (get xs i, r'))"

lemma choose_from_in: "choose_from g xs r = (Some x, r') \<Longrightarrow> x \<in> set xs"
  by (auto simp: choose_from_def Let_def get_def split: if_splits prod.splits)

lemma choose_from_None: "rng_ok g \<Longrightarrow> choose_from g xs r = (None, r') \<Longrightarrow> xs = []"
  using rng_okD(3) [of g "length xs" r]
  by (auto simp: choose_from_def Let_def get_def split: if_splits prod.splits)

text \<open>
  A generator that satisfies the documented laws, for concrete runs: it counts, and draws
  the count's remainder in whatever range it is asked for.
\<close>

definition counting_rng :: "nat rng_ops" where
  "counting_rng =
     \<lparr>random_range = (\<lambda>lo hi r. (lo + r mod (hi - lo), Suc r)),
      random_bool = (\<lambda>p r. (even r, Suc r)),
      random_u8 = (\<lambda>r. (of_nat r, Suc r)),
      random_u16 = (\<lambda>r. (of_nat r, Suc r)),
      random_u32 = (\<lambda>r. (of_nat r, Suc r)),
      choose_index = (\<lambda>n r. (r mod n, Suc r)),
      shuffle_indices = (\<lambda>n r. ([0..<n], Suc r))\<rparr>"

lemma counting_rng_ok: "rng_ok counting_rng"
proof -
  have "lo + r mod (hi - lo) < hi" if "lo < hi" for lo hi r :: nat
    using that mod_less_divisor [of "hi - lo" r] by linarith
  then show ?thesis by (simp add: rng_ok_def counting_rng_def)
qed

end
