(* ===== verification/Builder.thy ===== *)
theory Builder
  imports Typing Rng
begin

text \<open>
  The program builder, \<open>builder.rs\<close>. A method that takes \<open>&mut self\<close> is a function from the
  builder to its result and the builder it leaves, since a failed \<open>append\<close> may have closed a
  scope before it failed. The scope stack, a \<open>Vec\<close> used from its end, is a list with the
  innermost scope first.
\<close>

section \<open>The state\<close>

record scope =
  sc_begin :: "nat option"
  sc_id :: nat
  sc_context :: instruction_context

record scoped_variable =
  sv_var :: variable
  sv_scope_id :: nat

record indexed_variable =
  iv_var :: variable
  iv_index :: nat

record builder =
  b_context :: program_context
  active_scopes :: "scope list"
  active_scopes_set :: "nat set"
  scope_counter :: nat
  variables :: "scoped_variable list"
  b_instructions :: "instruction list"

definition enter_scope :: "nat option \<Rightarrow> instruction_context \<Rightarrow> builder \<Rightarrow> builder" where
  "enter_scope begin_at c b =
     (let n = scope_counter b + 1 in
      b\<lparr>scope_counter := n,
        active_scopes := \<lparr>sc_begin = begin_at, sc_id = n, sc_context = c\<rparr> # active_scopes b,
        active_scopes_set := insert n (active_scopes_set b)\<rparr>)"

definition exit_scope :: "builder \<Rightarrow> ('e, scope \<times> builder) outcome" where
  "exit_scope b =
     (case active_scopes b of
        [] \<Rightarrow> Panic
      | s # ss \<Rightarrow> Ok (s, b\<lparr>active_scopes := ss,
                          active_scopes_set := active_scopes_set b - {sc_id s}\<rparr>))"

definition current_scope :: "builder \<Rightarrow> ('e, scope) outcome" where
  "current_scope b = (case active_scopes b of [] \<Rightarrow> Panic | s # _ \<Rightarrow> Ok s)"

definition current_context :: "builder \<Rightarrow> ('e, instruction_context) outcome" where
  "current_context b = andThen (current_scope b) (\<lambda>s. Ok (sc_context s))"

definition new_builder :: "program_context \<Rightarrow> builder" where
  "new_builder ctx =
     enter_scope None Global
       \<lparr>b_context = ctx, active_scopes = [], active_scopes_set = {}, scope_counter = 0,
        variables = [], b_instructions = []\<rparr>"

definition variable_count :: "builder \<Rightarrow> nat" where
  "variable_count b = length (variables b)"

section \<open>Appending\<close>

fun resolve_inputs ::
  "builder \<Rightarrow> nat list \<Rightarrow> (program_validation_error, variable list) outcome" where
  "resolve_inputs b [] = Ok []"
| "resolve_inputs b (i # rest) =
     (case get (variables b) i of
        None \<Rightarrow> Err (VariableNotDefined i)
      | Some scoped \<Rightarrow>
          if sv_scope_id scoped \<notin> active_scopes_set b then Err (VariableNotDefined i)
          else andThen (resolve_inputs b rest) (\<lambda>vs. Ok (sv_var scoped # vs)))"

fun check_context :: "program_context \<Rightarrow> operation \<Rightarrow> (program_validation_error, unit) outcome"
  where
  "check_context ctx (LoadRole i) = (if num_roles ctx \<le> i then Err (RoleNotFound i) else Ok ())"
| "check_context ctx (LoadConnection i) =
     (if num_connections ctx \<le> i then Err (ConnectionNotFound i) else Ok ())"
| "check_context ctx _ = Ok ()"

definition append_checks ::
  "instruction \<Rightarrow> builder \<Rightarrow> (program_validation_error, unit) outcome" where
  "append_checks i b =
     (if num_inputs (operation i) \<noteq> length (inputs i)
      then Err (InvalidNumberOfInputs (length (inputs i)) (num_inputs (operation i)))
      else andThen (resolve_inputs b (inputs i))
             (\<lambda>input_vars. andThen (check_input_types (operation i) input_vars)
                (\<lambda>_. check_context (b_context b) (operation i))))"

text \<open>
  The scope a block end closes. The two \<open>Panic\<close>s are the \<open>expect\<close> on the global scope's
  missing beginning and the index into the instructions. The scope stays closed when the
  beginning does not match.
\<close>

definition append_close ::
  "instruction \<Rightarrow> builder \<Rightarrow> (program_validation_error, unit) outcome \<times> builder" where
  "append_close i b =
     (if \<not> is_block_end (operation i) then (Ok (), b)
      else case exit_scope b of
        Ok (exited, b') \<Rightarrow>
          (case sc_begin exited of
             None \<Rightarrow> (Panic, b')
           | Some k \<Rightarrow>
               (case get (b_instructions b') k of
                  None \<Rightarrow> (Panic, b')
                | Some begin_at \<Rightarrow>
                    if is_matching_block_begin (operation i) (operation begin_at)
                    then (Ok (), b')
                    else (Err (InvalidBlockEnd (operation begin_at) (operation i)), b')))
      | Err e \<Rightarrow> (Err e, b)
      | Panic \<Rightarrow> (Panic, b))"

definition scoped_vars :: "nat \<Rightarrow> variable list \<Rightarrow> scoped_variable list" where
  "scoped_vars sid vs = map (\<lambda>v. \<lparr>sv_var = v, sv_scope_id = sid\<rparr>) vs"

definition append_define ::
  "instruction \<Rightarrow> builder \<Rightarrow> (program_validation_error, indexed_variable list) outcome \<times> builder"
  where
  "append_define i b =
     (case (if is_nop (operation i) then Ok 0
            else andThen (current_scope b) (\<lambda>current. Ok (sc_id current))) of
        Ok scope_id \<Rightarrow>
          (let op = operation i;
               first_new = length (variables b);
               b1 = b\<lparr>variables := variables b @ scoped_vars scope_id (get_output_variables op)\<rparr>
           in case (if is_block_begin op
                    then (case entered_context_after_execution i of
                            None \<Rightarrow> Panic
                          | Some c \<Rightarrow> Ok (enter_scope (Some (length (b_instructions b1))) c b1))
                    else Ok b1) of
                Ok b2 \<Rightarrow>
                  (let inner_scope_id = (if is_nop op then 0 else scope_counter b2);
                       b3 = b2\<lparr>variables := variables b2 @
                                 scoped_vars inner_scope_id (get_inner_output_variables op),
                               b_instructions := b_instructions b2 @ [i]\<rparr>
                   in (Ok (map (\<lambda>(k, sv). \<lparr>iv_var = sv_var sv, iv_index = k\<rparr>)
                             (enumerate first_new (drop first_new (variables b3)))), b3))
              | Err e \<Rightarrow> (Err e, b1)
              | Panic \<Rightarrow> (Panic, b1))
      | Err e \<Rightarrow> (Err e, b)
      | Panic \<Rightarrow> (Panic, b))"

definition append ::
  "instruction \<Rightarrow> builder \<Rightarrow> (program_validation_error, indexed_variable list) outcome \<times> builder"
  where
  "append i b =
     (case append_checks i b of
        Ok _ \<Rightarrow>
          (case append_close i b of
             (Ok _, b') \<Rightarrow> append_define i b'
           | (Err e, b') \<Rightarrow> (Err e, b')
           | (Panic, b') \<Rightarrow> (Panic, b'))
      | Err e \<Rightarrow> (Err e, b)
      | Panic \<Rightarrow> (Panic, b))"

definition append_op ::
  "operation \<Rightarrow> indexed_variable list \<Rightarrow> builder \<Rightarrow>
     (program_validation_error, indexed_variable list) outcome \<times> builder" where
  "append_op op ins b = append (Instruction op (map iv_index ins)) b"

section \<open>Looking variables up\<close>

definition get_variable :: "builder \<Rightarrow> nat \<Rightarrow> indexed_variable option" where
  "get_variable b i =
     (case get (variables b) i of
        None \<Rightarrow> None
      | Some scoped \<Rightarrow>
          if sv_scope_id scoped \<in> active_scopes_set b
          then Some \<lparr>iv_var = sv_var scoped, iv_index = i\<rparr>
          else None)"

definition variables_of_type :: "builder \<Rightarrow> variable \<Rightarrow> indexed_variable list" where
  "variables_of_type b var =
     filter (\<lambda>indexed. iv_var indexed = var)
       (List.map_filter (get_variable b) [0..<length (variables b)])"

definition get_random_variable ::
  "'r rng_ops \<Rightarrow> builder \<Rightarrow> variable \<Rightarrow> 'r \<Rightarrow> indexed_variable option \<times> 'r" where
  "get_random_variable g b var r = choose_from g (variables_of_type b var) r"

definition get_nearest_variable :: "builder \<Rightarrow> variable \<Rightarrow> indexed_variable option" where
  "get_nearest_variable b var =
     find (\<lambda>indexed. iv_var indexed = var)
       (List.map_filter (get_variable b) (rev [0..<length (variables b)]))"

section \<open>Whole programs\<close>

text \<open>The loop of \<open>from_prefix\<close>: append until the first failure.\<close>

fun append_all :: "instruction list \<Rightarrow> builder \<Rightarrow> (program_validation_error, builder) outcome"
  where
  "append_all [] b = Ok b"
| "append_all (i # rest) b =
     (case append i b of
        (Ok _, b') \<Rightarrow> append_all rest b'
      | (Err e, _) \<Rightarrow> Err e
      | (Panic, _) \<Rightarrow> Panic)"

definition from_prefix ::
  "program_context \<Rightarrow> instruction list \<Rightarrow> (program_validation_error, builder) outcome" where
  "from_prefix ctx ins = append_all ins (new_builder ctx)"

definition from_program :: "program \<Rightarrow> (program_validation_error, builder) outcome" where
  "from_program p = from_prefix (prog_context p) (instructions p)"

definition finalize :: "builder \<Rightarrow> (program_validation_error, program) outcome" where
  "finalize b =
     (case active_scopes b of
        s # _ \<Rightarrow>
          (case sc_begin s of
             Some k \<Rightarrow> andThen (index (b_instructions b) k) (\<lambda>i. Err (UnfinishedBlock (operation i)))
           | None \<Rightarrow> Ok \<lparr>prog_context = b_context b, instructions = b_instructions b\<rparr>)
      | [] \<Rightarrow> Ok \<lparr>prog_context = b_context b, instructions = b_instructions b\<rparr>)"

text \<open>\<open>Program::is_statically_valid\<close>, which panics where the builder does.\<close>

definition is_statically_valid :: "program \<Rightarrow> ('e, bool) outcome" where
  "is_statically_valid p =
     (case andThen (from_program p) finalize of
        Ok _ \<Rightarrow> Ok True
      | Err _ \<Rightarrow> Ok False
      | Panic \<Rightarrow> Panic)"

definition to_builder :: "program \<Rightarrow> (program_validation_error, builder) outcome" where
  "to_builder p = from_program p"

end
