(* ===== verification/Builder_Typing.thy ===== *)
theory Builder_Typing
  imports Builder
begin

text \<open>
  The builder implements the typing judgement: its invariant, which every \<open>append\<close> keeps
  whether it succeeds or fails, and the refinement of \<open>Typing\<close> under the abstraction that
  forgets scope numbers and instruction positions.
\<close>

section \<open>The invariant\<close>

definition opened_by :: "instruction list \<Rightarrow> scope \<Rightarrow> bool" where
  "opened_by ins s \<longleftrightarrow>
     (\<exists>k. sc_begin s = Some k \<and> k < length ins \<and> is_block_begin (operation (ins ! k)) \<and>
          entered_context_after_execution (ins ! k) = Some (sc_context s))"

text \<open>The scopes: the global one at the bottom, numbers growing towards the top.\<close>

fun stack_ok :: "instruction list \<Rightarrow> scope list \<Rightarrow> bool" where
  "stack_ok ins [] = False"
| "stack_ok ins [s] = (s = \<lparr>sc_begin = None, sc_id = 1, sc_context = Global\<rparr>)"
| "stack_ok ins (s # t # ss) = (opened_by ins s \<and> sc_id t < sc_id s \<and> stack_ok ins (t # ss))"

definition builder_inv :: "builder \<Rightarrow> bool" where
  "builder_inv b \<longleftrightarrow>
     stack_ok (b_instructions b) (active_scopes b) \<and>
     active_scopes_set b = sc_id ` set (active_scopes b) \<and>
     (\<forall>s \<in> set (active_scopes b). sc_id s \<le> scope_counter b) \<and>
     (\<forall>sv \<in> set (variables b). sv_scope_id sv \<le> scope_counter b) \<and>
     length (variables b) = variable_total (b_instructions b)"

lemma builder_inv_new [simp]: "builder_inv (new_builder ctx)"
  by (simp add: builder_inv_def new_builder_def enter_scope_def)

lemma opened_by_append: "opened_by ins s \<Longrightarrow> opened_by (ins @ xs) s"
  by (auto simp: opened_by_def nth_append)

lemma stack_ok_append: "stack_ok ins ss \<Longrightarrow> stack_ok (ins @ xs) ss"
  by (induction ins ss rule: stack_ok.induct) (auto intro: opened_by_append)

lemma stack_ok_ge1: "stack_ok ins ss \<Longrightarrow> s \<in> set ss \<Longrightarrow> 1 \<le> sc_id s"
  by (induction ins ss rule: stack_ok.induct) auto

lemma stack_ok_top: "stack_ok ins (s # ss) \<Longrightarrow> t \<in> set ss \<Longrightarrow> sc_id t < sc_id s"
  by (induction ins "s # ss" arbitrary: s ss rule: stack_ok.induct) fastforce+

lemma stack_ok_distinct: "stack_ok ins ss \<Longrightarrow> distinct (map sc_id ss)"
proof (induction ss)
  case (Cons s ss)
  then have "stack_ok ins ss \<or> ss = []" by (cases ss) auto
  with Cons show ?case by (auto dest: stack_ok_top)
qed simp

lemma stack_ok_Cons:
  "stack_ok ins (s # ss) \<Longrightarrow>
   (ss = [] \<and> s = \<lparr>sc_begin = None, sc_id = 1, sc_context = Global\<rparr>) \<or>
   (ss \<noteq> [] \<and> opened_by ins s \<and> stack_ok ins ss)"
  by (cases ss) auto

lemma stack_ok_push:
  "stack_ok ins ss \<Longrightarrow> opened_by ins s \<Longrightarrow> \<forall>t \<in> set ss. sc_id t < sc_id s \<Longrightarrow>
   stack_ok ins (s # ss)"
  by (cases ss) auto

lemma builder_inv_scopes:
  assumes "builder_inv b"
  obtains s ss where "active_scopes b = s # ss"
  using assms by (cases "active_scopes b") (auto simp: builder_inv_def)

section \<open>The abstraction\<close>

definition scope_vars :: "scoped_variable list \<Rightarrow> nat \<Rightarrow> (nat \<times> variable) set" where
  "scope_vars vs sid = {(i, v). i < length vs \<and> vs ! i = \<lparr>sv_var = v, sv_scope_id = sid\<rparr>}"

definition frame_of :: "builder \<Rightarrow> scope \<Rightarrow> frame" where
  "frame_of b s =
     (map_option (\<lambda>k. operation (b_instructions b ! k)) (sc_begin s),
      scope_vars (variables b) (sc_id s))"

definition abs_typing :: "builder \<Rightarrow> typing_state" where
  "abs_typing b =
     \<lparr>frames = map (frame_of b) (active_scopes b), next_var = length (variables b)\<rparr>"

lemma abs_typing_simps [simp]:
  "frames (abs_typing b) = map (frame_of b) (active_scopes b)"
  "next_var (abs_typing b) = length (variables b)"
  by (simp_all add: abs_typing_def)

lemma abs_typing_new [simp]: "abs_typing (new_builder ctx) = init_typing"
  by (simp add: abs_typing_def new_builder_def enter_scope_def frame_of_def scope_vars_def
      init_typing_def)

lemma in_scope_abs:
  assumes "builder_inv b"
  shows "in_scope (frames (abs_typing b)) i v \<longleftrightarrow>
    i < length (variables b) \<and> sv_var (variables b ! i) = v \<and>
    sv_scope_id (variables b ! i) \<in> active_scopes_set b"
proof -
  have "in_scope (frames (abs_typing b)) i v \<longleftrightarrow>
      (\<exists>s \<in> set (active_scopes b). i < length (variables b) \<and>
         variables b ! i = \<lparr>sv_var = v, sv_scope_id = sc_id s\<rparr>)"
    by (auto simp: in_scope_def frame_of_def scope_vars_def)
  also have "\<dots> \<longleftrightarrow> i < length (variables b) \<and> sv_var (variables b ! i) = v \<and>
      sv_scope_id (variables b ! i) \<in> sc_id ` set (active_scopes b)"
    by (cases "variables b ! i") auto
  finally show ?thesis using assms by (simp add: builder_inv_def)
qed

lemma scope_vars_append:
  "scope_vars (vs @ scoped_vars sid ws) s =
     scope_vars vs s \<union> (if s = sid then set (enumerate (length vs) ws) else {})"
proof -
  have "(i, v) \<in> scope_vars (vs @ scoped_vars sid ws) s \<longleftrightarrow>
      (i, v) \<in> scope_vars vs s \<union> (if s = sid then set (enumerate (length vs) ws) else {})" for i v
    by (cases "i < length vs")
      (auto simp: scope_vars_def nth_append scoped_vars_def in_set_enumerate)
  then show ?thesis by (auto simp: set_eq_iff)
qed

lemma scope_vars_new:
  "\<forall>sv \<in> set vs. sv_scope_id sv < s \<Longrightarrow> scope_vars vs s = {}"
  by (auto simp: scope_vars_def) (metis nth_mem order_less_irrefl scoped_variable.select_convs(2))

section \<open>Checking the inputs\<close>

lemma resolve_inputs_Ok:
  assumes "builder_inv b"
  shows "resolve_inputs b is' = Ok vs \<longleftrightarrow> list_all2 (in_scope (frames (abs_typing b))) is' vs"
proof (induction is' arbitrary: vs)
  case Nil
  then show ?case by auto
next
  case (Cons i is')
  have "resolve_inputs b (i # is') = Ok vs \<longleftrightarrow>
      i < length (variables b) \<and> sv_scope_id (variables b ! i) \<in> active_scopes_set b \<and>
      (\<exists>ws. resolve_inputs b is' = Ok ws \<and> vs = sv_var (variables b ! i) # ws)"
    by (auto simp: get_def)
  also have "\<dots> \<longleftrightarrow>
      (\<exists>v ws. in_scope (frames (abs_typing b)) i v \<and> resolve_inputs b is' = Ok ws \<and> vs = v # ws)"
    by (auto simp: in_scope_abs [OF assms] simp del: abs_typing_simps)
  finally show ?case
    by (auto simp: Cons.IH list_all2_Cons1)
qed

lemma resolve_inputs_not_Panic [simp]: "resolve_inputs b is' \<noteq> Panic"
  by (induction is') (auto split: option.splits)

lemma check_context_Ok: "check_context ctx op = Ok u \<longleftrightarrow> in_context ctx op"
  by (cases op) auto

lemma check_context_not_Panic [simp]: "check_context ctx op \<noteq> Panic"
  by (cases op) auto

lemma append_checks_Ok:
  assumes "builder_inv b"
  shows "append_checks i b = Ok u \<longleftrightarrow>
    wt_inputs (frames (abs_typing b)) i \<and> in_context (b_context b) (operation i)"
  by (auto simp: append_checks_def resolve_inputs_Ok [OF assms] check_input_types_Ok
      check_context_Ok wt_inputs_def num_inputs_def dest: list_all2_lengthD)

lemma append_checks_not_Panic [simp]: "append_checks i b \<noteq> Panic"
  by (simp add: append_checks_def)

section \<open>Defining the variables\<close>

text \<open>The variables an accepted instruction hands back: its outputs, then its inner outputs.\<close>

definition defined_vars :: "nat \<Rightarrow> operation \<Rightarrow> indexed_variable list" where
  "defined_vars n op =
     map (\<lambda>(k, v). \<lparr>iv_var = v, iv_index = k\<rparr>)
       (enumerate n (get_output_variables op @ get_inner_output_variables op))"

lemma indexed_scoped:
  "map (\<lambda>(k, sv). \<lparr>iv_var = sv_var sv, iv_index = k\<rparr>)
     (enumerate n (scoped_vars a xs @ scoped_vars c ys)) =
   map (\<lambda>(k, v). \<lparr>iv_var = v, iv_index = k\<rparr>) (enumerate n (xs @ ys))"
  by (rule nth_equalityI) (auto simp: nth_enumerate_eq scoped_vars_def nth_append)

lemma length_scoped_vars [simp]: "length (scoped_vars sid vs) = length vs"
  by (simp add: scoped_vars_def)

lemma scoped_vars_Nil [simp]: "scoped_vars sid [] = []"
  by (simp add: scoped_vars_def)

definition plain_state :: "instruction \<Rightarrow> scope \<Rightarrow> builder \<Rightarrow> builder" where
  "plain_state i s b =
     (let op = operation i in
      b\<lparr>variables := variables b
           @ scoped_vars (if is_nop op then 0 else sc_id s) (get_output_variables op)
           @ scoped_vars (if is_nop op then 0 else scope_counter b) (get_inner_output_variables op),
        b_instructions := b_instructions b @ [i]\<rparr>)"

definition begin_state :: "instruction \<Rightarrow> instruction_context \<Rightarrow> builder \<Rightarrow> builder" where
  "begin_state i c b =
     (let b' = enter_scope (Some (length (b_instructions b))) c b in
      b'\<lparr>variables := variables b
            @ scoped_vars (scope_counter b + 1) (get_inner_output_variables (operation i)),
         b_instructions := b_instructions b @ [i]\<rparr>)"

lemma append_define_plain:
  assumes "active_scopes b = s # ss" and "\<not> is_block_begin (operation i)"
  shows "append_define i b =
    (Ok (defined_vars (length (variables b)) (operation i)), plain_state i s b)"
  using assms
  by (simp add: append_define_def current_scope_def Let_def plain_state_def defined_vars_def
      indexed_scoped)

lemma append_define_begin:
  assumes "active_scopes b = s # ss" and "is_block_begin (operation i)"
    and "entered_context_after_execution i = Some c"
  shows "append_define i b =
    (Ok (defined_vars (length (variables b)) (operation i)), begin_state i c b)"
proof -
  have "\<not> is_nop (operation i)" using assms(2) by (cases "operation i") auto
  moreover have "get_output_variables (operation i) = []" using assms(2) by simp
  ultimately show ?thesis
    using assms indexed_scoped [of "length (variables b)" 0 "[]" "scope_counter b + 1"]
    by (simp add: append_define_def current_scope_def Let_def begin_state_def defined_vars_def
        enter_scope_def)
qed

lemma plain_state_simps [simp]:
  "b_context (plain_state i s b) = b_context b"
  "active_scopes (plain_state i s b) = active_scopes b"
  "active_scopes_set (plain_state i s b) = active_scopes_set b"
  "scope_counter (plain_state i s b) = scope_counter b"
  "b_instructions (plain_state i s b) = b_instructions b @ [i]"
  "length (variables (plain_state i s b)) = length (variables b) + num_defined (operation i)"
  by (simp_all add: plain_state_def Let_def num_outputs_def num_inner_outputs_def)

lemma begin_state_simps [simp]:
  "b_context (begin_state i c b) = b_context b"
  "active_scopes (begin_state i c b) =
     \<lparr>sc_begin = Some (length (b_instructions b)), sc_id = scope_counter b + 1, sc_context = c\<rparr>
       # active_scopes b"
  "active_scopes_set (begin_state i c b) = insert (scope_counter b + 1) (active_scopes_set b)"
  "scope_counter (begin_state i c b) = scope_counter b + 1"
  "b_instructions (begin_state i c b) = b_instructions b @ [i]"
  "length (variables (begin_state i c b)) = length (variables b) + num_inner_outputs (operation i)"
  by (simp_all add: begin_state_def Let_def num_inner_outputs_def enter_scope_def)

lemma set_scoped_vars: "sv \<in> set (scoped_vars sid vs) \<Longrightarrow> sv_scope_id sv = sid"
  by (auto simp: scoped_vars_def)

lemma plain_state_inv:
  assumes "builder_inv b" and "active_scopes b = s # ss"
  shows "builder_inv (plain_state i s b)"
proof -
  have "\<forall>sv \<in> set (variables (plain_state i s b)). sv_scope_id sv \<le> scope_counter b"
    using assms by (auto simp: plain_state_def Let_def builder_inv_def dest: set_scoped_vars)
  with assms show ?thesis
    by (auto simp: builder_inv_def intro: stack_ok_append)
qed

lemma begin_state_inv:
  assumes inv: "builder_inv b" and i: "is_block_begin (operation i)"
    and c: "entered_context_after_execution i = Some c"
  shows "builder_inv (begin_state i c b)"
proof -
  have "\<forall>sv \<in> set (variables (begin_state i c b)). sv_scope_id sv \<le> scope_counter b + 1"
    using inv by (auto simp: begin_state_def Let_def builder_inv_def enter_scope_def
        dest: set_scoped_vars)
  moreover have "stack_ok (b_instructions (begin_state i c b)) (active_scopes (begin_state i c b))"
    unfolding begin_state_simps
    by (rule stack_ok_push)
      (use inv i c in \<open>auto simp: builder_inv_def opened_by_def intro: stack_ok_append\<close>)
  ultimately show ?thesis
    using inv i by (auto simp: builder_inv_def)
qed

section \<open>One step of the builder is one step of the judgement\<close>

lemma frame_of_extend:
  assumes "opened_by (b_instructions b) t \<or> sc_begin t = None"
    and "b_instructions b' = b_instructions b @ [i]"
    and "scope_vars (variables b') (sc_id t) = scope_vars (variables b) (sc_id t)"
  shows "frame_of b' t = frame_of b t"
  using assms by (auto simp: frame_of_def opened_by_def nth_append)

lemma stack_ok_begin:
  "stack_ok ins ss \<Longrightarrow> t \<in> set ss \<Longrightarrow> opened_by ins t \<or> sc_begin t = None"
  by (induction ins ss rule: stack_ok.induct) auto

lemma plain_state_frames:
  assumes inv: "builder_inv b" and s: "active_scopes b = s # ss"
    and i: "\<not> is_block_begin (operation i)"
  shows "frames (abs_typing (plain_state i s b)) =
    (fst (frame_of b s), snd (frame_of b s) \<union> outer_vars (length (variables b)) (operation i))
      # map (frame_of b) ss"
proof -
  let ?b = "plain_state i s b" and ?op = "operation i"
  from inv s have st: "stack_ok (b_instructions b) (s # ss)" by (simp add: builder_inv_def)
  have vars: "scope_vars (variables ?b) sid =
      scope_vars (variables b) sid \<union> (if sid = sc_id s then outer_vars (length (variables b)) ?op else {})"
    if "sid \<noteq> 0" for sid
  proof (cases "is_nop ?op")
    case True
    with that show ?thesis
      by (simp add: plain_state_def Let_def outer_vars_def scope_vars_append flip: append_assoc)
  next
    case False
    with i have "get_inner_output_variables ?op = []" by (simp add: inner_outputs_not_begin)
    with that False show ?thesis
      by (simp add: plain_state_def Let_def outer_vars_def scope_vars_append)
  qed
  have "frame_of ?b t = frame_of b t" if "t \<in> set ss" for t
    using that stack_ok_begin [OF st, of t] stack_ok_ge1 [OF st, of t] stack_ok_top [OF st that]
    by (intro frame_of_extend) (auto simp: vars)
  moreover have "frame_of ?b s = (fst (frame_of b s),
      snd (frame_of b s) \<union> outer_vars (length (variables b)) ?op)"
    using stack_ok_begin [OF st, of s] stack_ok_ge1 [OF st, of s]
    by (auto simp: frame_of_def vars opened_by_def nth_append)
  ultimately show ?thesis using s by simp
qed

lemma begin_state_frames:
  assumes inv: "builder_inv b" and i: "is_block_begin (operation i)"
  shows "frames (abs_typing (begin_state i c b)) =
    (Some (operation i), inner_vars (length (variables b)) (operation i))
      # map (frame_of b) (active_scopes b)"
proof -
  let ?b = "begin_state i c b" and ?op = "operation i" and ?n = "scope_counter b + 1"
  from inv have st: "stack_ok (b_instructions b) (active_scopes b)" by (simp add: builder_inv_def)
  have nop: "\<not> is_nop ?op" "num_outputs ?op = 0" using i by (cases ?op, auto)+
  have vars: "scope_vars (variables ?b) sid =
      scope_vars (variables b) sid \<union> (if sid = ?n then inner_vars (length (variables b)) ?op else {})"
    for sid
    using nop by (simp add: begin_state_def Let_def inner_vars_def scope_vars_append enter_scope_def)
  have "frame_of ?b t = frame_of b t" if "t \<in> set (active_scopes b)" for t
    using that stack_ok_begin [OF st] inv
    by (intro frame_of_extend) (auto simp: vars builder_inv_def)
  moreover have "scope_vars (variables b) ?n = {}"
    using inv by (intro scope_vars_new) (auto simp: builder_inv_def)
  ultimately show ?thesis
    by (auto simp: frame_of_def vars)
qed

lemma plain_state_abs:
  assumes "builder_inv b" and "active_scopes b = s # ss" and "\<not> is_block_begin (operation i)"
  shows "abs_typing (plain_state i s b) =
    \<lparr>frames = (fst (frame_of b s),
        snd (frame_of b s) \<union> outer_vars (length (variables b)) (operation i)) # map (frame_of b) ss,
     next_var = length (variables b) + num_defined (operation i)\<rparr>"
  by (rule typing_state.equality)
    (simp_all add: plain_state_frames [OF assms] del: abs_typing_simps(1))

lemma begin_state_abs:
  assumes "builder_inv b" and "is_block_begin (operation i)"
  shows "abs_typing (begin_state i c b) =
    \<lparr>frames = (Some (operation i), inner_vars (length (variables b)) (operation i))
        # frames (abs_typing b),
     next_var = length (variables b) + num_defined (operation i)\<rparr>"
  by (rule typing_state.equality)
    (simp_all add: begin_state_frames [OF assms] assms(2) del: abs_typing_simps(1),
     simp add: abs_typing_def)

text \<open>The state a matched block end leaves: the innermost scope is gone.\<close>

definition close_state :: "builder \<Rightarrow> builder" where
  "close_state b =
     b\<lparr>active_scopes := tl (active_scopes b),
       active_scopes_set := active_scopes_set b - {sc_id (hd (active_scopes b))}\<rparr>"

lemma close_state_simps [simp]:
  "b_context (close_state b) = b_context b"
  "active_scopes (close_state b) = tl (active_scopes b)"
  "scope_counter (close_state b) = scope_counter b"
  "variables (close_state b) = variables b"
  "b_instructions (close_state b) = b_instructions b"
  "frame_of (close_state b) = frame_of b"
  by (simp_all add: close_state_def frame_of_def fun_eq_iff)

lemma close_state_inv:
  assumes "builder_inv b" and "active_scopes b = s # t # ss"
  shows "builder_inv (close_state b)"
proof -
  have st: "stack_ok (b_instructions b) (s # t # ss)"
    using assms by (simp add: builder_inv_def)
  have "active_scopes_set (close_state b) = sc_id ` set (t # ss)"
    using assms stack_ok_distinct [OF st] by (auto simp: close_state_def builder_inv_def)
  with assms st show ?thesis by (auto simp: builder_inv_def)
qed

lemma append_close_cases:
  assumes inv: "builder_inv b" and i: "is_block_end (operation i)"
  shows "(\<exists>s. active_scopes b = [s] \<and> fst (append_close i b) = Panic) \<or>
    (\<exists>s t ss k. active_scopes b = s # t # ss \<and> fst (frame_of b s) = Some k \<and> is_block_begin k \<and>
       append_close i b =
         ((if is_matching_block_begin (operation i) k then Ok ()
           else Err (InvalidBlockEnd k (operation i))), close_state b))"
proof -
  obtain s ss where s: "active_scopes b = s # ss" using builder_inv_scopes [OF inv] .
  with inv have st: "stack_ok (b_instructions b) (s # ss)" by (simp add: builder_inv_def)
  show ?thesis
  proof (cases ss)
    case Nil
    with s st i show ?thesis by (simp add: append_close_def exit_scope_def)
  next
    case (Cons t ts)
    with st obtain k where "sc_begin s = Some k" "k < length (b_instructions b)"
      "is_block_begin (operation (b_instructions b ! k))"
      by (auto simp: opened_by_def)
    with s i Cons show ?thesis
      by (simp add: append_close_def exit_scope_def close_state_def frame_of_def get_def)
  qed
qed

lemma append_Ok_cases:
  assumes inv: "builder_inv b" and ok: "append i b = (Ok vs, b')"
  shows "vs = defined_vars (length (variables b)) (operation i) \<and> builder_inv b' \<and>
    wt_step (b_context b) (abs_typing b) i (abs_typing b') \<and> b_context b' = b_context b \<and>
    b_instructions b' = b_instructions b @ [i]"
proof -
  let ?op = "operation i"
  from ok obtain u where "append_checks i b = Ok u"
    by (auto simp: append_def split: outcome.splits)
  then have chk: "wt_inputs (frames (abs_typing b)) i" "in_context (b_context b) ?op"
    by (auto simp: append_checks_Ok [OF inv])
  obtain s ss where s: "active_scopes b = s # ss" using builder_inv_scopes [OF inv] .
  consider "is_block_begin ?op" | "is_block_end ?op" | "\<not> is_block_begin ?op" "\<not> is_block_end ?op"
    by blast
  then show ?thesis
  proof cases
    case 1
    then obtain c where c: "entered_context_after_execution i = Some c"
      using entered_context_begin by blast
    have e: "append_define i b = (Ok vs, b')"
      using ok 1 by (auto simp: append_def append_close_def split: outcome.splits)
    then have b': "b' = begin_state i c b" "vs = defined_vars (length (variables b)) ?op"
      using append_define_begin [OF s 1 c] by auto
    have "wt_step (b_context b) (abs_typing b) i (abs_typing b')"
      using wt_step.wt_begin [OF 1 chk] by (simp add: b' begin_state_abs [OF inv 1])
    with b' begin_state_inv [OF inv 1 c] show ?thesis by simp
  next
    case 3
    have e: "append_define i b = (Ok vs, b')"
      using ok 3 by (auto simp: append_def append_close_def split: outcome.splits)
    then have b': "b' = plain_state i s b" "vs = defined_vars (length (variables b)) ?op"
      using append_define_plain [OF s 3(1)] by auto
    have "wt_step (b_context b) (abs_typing b) i (abs_typing b')"
      using wt_step.wt_plain [OF 3 chk, of "fst (frame_of b s)" "snd (frame_of b s)"
          "map (frame_of b) ss"] s by (simp add: b' plain_state_abs [OF inv s 3(1)])
    with b' plain_state_inv [OF inv s] show ?thesis by simp
  next
    case 2
    then have nb: "\<not> is_block_begin ?op" by simp
    from append_close_cases [OF inv 2] ok obtain t ts k where
      t: "active_scopes b = s # t # ts" "fst (frame_of b s) = Some k"
        "is_matching_block_begin ?op k" "append_close i b = (Ok (), close_state b)"
      and e: "append_define i (close_state b) = (Ok vs, b')"
      using s by (auto simp: append_def split: outcome.splits if_splits prod.splits)
    let ?c = "close_state b"
    have ci: "builder_inv ?c" using close_state_inv [OF inv t(1)] .
    have cs: "active_scopes ?c = t # ts" using t(1) by simp
    have b': "b' = plain_state i t ?c" "vs = defined_vars (length (variables b)) ?op"
      using e append_define_plain [OF cs nb] by auto
    have fs: "frames (abs_typing b) =
        (Some k, snd (frame_of b s)) # (fst (frame_of b t), snd (frame_of b t)) # map (frame_of b) ts"
      using t by (simp add: prod_eq_iff)
    have "wt_step (b_context b) (abs_typing b) i (abs_typing b')"
      using wt_step.wt_end [OF 2 chk fs t(3)] by (simp add: b' plain_state_abs [OF ci cs nb])
    with b' plain_state_inv [OF ci cs] show ?thesis by simp
  qed
qed

lemma append_complete:
  assumes inv: "builder_inv b" and step: "wt_step (b_context b) (abs_typing b) i t'"
  obtains b' where "append i b = (Ok (defined_vars (length (variables b)) (operation i)), b')"
    "abs_typing b' = t'"
proof -
  let ?op = "operation i"
  obtain s ss where s: "active_scopes b = s # ss" using builder_inv_scopes [OF inv] .
  have chk: "append_checks i b = Ok ()"
    using wt_step_inputs [OF step] by (simp add: append_checks_Ok [OF inv] del: abs_typing_simps)
  have "\<exists>vs b'. append i b = (Ok vs, b')"
    using step
  proof cases
    case wt_plain
    with chk append_define_plain [OF s] show ?thesis by (simp add: append_def append_close_def)
  next
    case wt_begin
    then obtain c where "entered_context_after_execution i = Some c"
      using entered_context_begin by blast
    with wt_begin chk append_define_begin [OF s] show ?thesis
      by (simp add: append_def append_close_def)
  next
    case (wt_end k F o1 G fs)
    then obtain t ts where t: "active_scopes b = s # t # ts" "fst (frame_of b s) = Some k"
      using s by (auto simp: map_eq_Cons_conv)
    have close: "append_close i b = (Ok (), close_state b)"
      using append_close_cases [OF inv wt_end(2)] t wt_end by auto
    have "active_scopes (close_state b) = t # ts" using t by simp
    from append_define_plain [OF this, of i] wt_end(2) chk close show ?thesis
      by (simp add: append_def)
  qed
  then obtain vs b' where ok: "append i b = (Ok vs, b')" by blast
  from append_Ok_cases [OF inv ok] have "wt_step (b_context b) (abs_typing b) i (abs_typing b')"
    and "vs = defined_vars (length (variables b)) ?op" by auto
  with ok wt_step_det [OF step] that show ?thesis by metis
qed

text \<open>A failed \<open>append\<close> may have closed a scope; what it leaves is still a builder.\<close>

lemma append_define_not_Err:
  "builder_inv b \<Longrightarrow> append_define i b \<noteq> (Err e, b')"
  by (auto simp: append_define_def Let_def current_scope_def split: outcome.splits list.splits
      if_splits option.splits)

lemma append_define_not_Panic:
  assumes "builder_inv b"
  shows "fst (append_define i b) \<noteq> Panic"
proof -
  obtain s ss where s: "active_scopes b = s # ss" using builder_inv_scopes [OF assms] .
  show ?thesis
    using append_define_plain [OF s, of i] append_define_begin [OF s, of i]
      entered_context_begin [of i]
    by (cases "is_block_begin (operation i)") auto
qed

lemma append_Err_inv:
  assumes inv: "builder_inv b" and err: "append i b = (Err e, b')"
  shows "builder_inv b' \<and> b_instructions b' = b_instructions b"
proof (cases "append_checks i b")
  case (Ok u)
  show ?thesis
  proof (cases "is_block_end (operation i)")
    case False
    with Ok err append_define_not_Err [OF inv, of i e b'] show ?thesis
      by (auto simp: append_def append_close_def)
  next
    case True
    from append_close_cases [OF inv this] show ?thesis
    proof (elim disjE exE conjE)
      fix s assume "active_scopes b = [s]" "fst (append_close i b) = Panic"
      with Ok err show ?thesis by (auto simp: append_def split: prod.splits)
    next
      fix s t ss k
      assume t: "active_scopes b = s # t # ss"
        and c: "append_close i b =
          ((if is_matching_block_begin (operation i) k then Ok ()
            else Err (InvalidBlockEnd k (operation i))), close_state b)"
      note ci = close_state_inv [OF inv t]
      with Ok err c append_define_not_Err [OF ci, of i e b'] show ?thesis
        by (auto simp: append_def split: if_splits)
    qed
  qed
qed (use inv err in \<open>auto simp: append_def\<close>)

lemma append_Panic_iff:
  assumes inv: "builder_inv b"
  shows "fst (append i b) = Panic \<longleftrightarrow>
    append_checks i b = Ok () \<and> is_block_end (operation i) \<and> length (active_scopes b) = 1"
proof (cases "append_checks i b = Ok () \<and> is_block_end (operation i)")
  case True
  from append_close_cases [OF inv] True consider
      s where "active_scopes b = [s]" "fst (append_close i b) = Panic"
    | s t ss k where "active_scopes b = s # t # ss"
        "append_close i b =
          ((if is_matching_block_begin (operation i) k then Ok ()
            else Err (InvalidBlockEnd k (operation i))), close_state b)"
    by blast
  then show ?thesis
  proof cases
    case 1
    with True show ?thesis by (auto simp: append_def split: prod.splits)
  next
    case 2
    with True append_define_not_Panic [OF close_state_inv [OF inv 2(1)], of i] show ?thesis
      by (auto simp: append_def)
  qed
next
  case False
  with append_define_not_Panic [OF inv, of i] show ?thesis
    by (auto simp: append_def append_close_def split: outcome.splits)
qed

end
