(* ===== verification/Static_Validity.thy ===== *)
theory Static_Validity
  imports Builder_Typing
begin

text \<open>
  Static validity of whole programs: \<open>from_prefix\<close>, \<open>finalize\<close> and
  \<open>Program::is_statically_valid\<close> against the typing judgement, and what the builder promises
  of every program that leaves it.
\<close>

section \<open>Replaying instructions through the builder\<close>

lemma append_all_append:
  "append_all (xs @ ys) b = andThen (append_all xs b) (append_all ys)"
  by (induction xs arbitrary: b) (auto split: outcome.splits prod.splits)

lemma append_all_Ok:
  "append_all ins b = Ok b' \<Longrightarrow> builder_inv b \<Longrightarrow>
   builder_inv b' \<and> wt_steps (b_context b) (abs_typing b) ins (abs_typing b') \<and>
   b_context b' = b_context b \<and> b_instructions b' = b_instructions b @ ins"
proof (induction ins arbitrary: b)
  case Nil
  then show ?case by (auto intro: wt_steps.wt_nil)
next
  case (Cons i ins)
  then obtain vs c where c: "append i b = (Ok vs, c)" "append_all ins c = Ok b'"
    by (auto split: outcome.splits prod.splits)
  note step = append_Ok_cases [OF Cons.prems(2) c(1)]
  with Cons.IH [OF c(2)] show ?case by (auto intro: wt_steps.wt_cons)
qed

lemma append_all_complete:
  "wt_steps (b_context b) (abs_typing b) ins t \<Longrightarrow> builder_inv b \<Longrightarrow>
   \<exists>b'. append_all ins b = Ok b' \<and> abs_typing b' = t"
proof (induction ins arbitrary: b)
  case Nil
  then show ?case by auto
next
  case (Cons i ins)
  then obtain t' where t': "wt_step (b_context b) (abs_typing b) i t'"
    "wt_steps (b_context b) t' ins t" by auto
  obtain c where c: "append i b = (Ok (defined_vars (length (variables b)) (operation i)), c)"
    "abs_typing c = t'" using append_complete [OF Cons.prems(2) t'(1)] .
  from append_Ok_cases [OF Cons.prems(2) c(1)] Cons.IH [of c] t'(2) c
  show ?case by auto
qed

lemma from_prefix_Ok:
  assumes "from_prefix ctx ins = Ok b"
  shows "builder_inv b" "wt_steps ctx init_typing ins (abs_typing b)" "b_context b = ctx"
    "b_instructions b = ins"
proof -
  have new: "b_context (new_builder ctx) = ctx" "b_instructions (new_builder ctx) = []"
    by (simp_all add: new_builder_def enter_scope_def)
  from append_all_Ok [OF assms [unfolded from_prefix_def] builder_inv_new] new
  show "builder_inv b" "wt_steps ctx init_typing ins (abs_typing b)" "b_context b = ctx"
    "b_instructions b = ins"
    by auto
qed

lemma from_prefix_complete:
  assumes "wt_steps ctx init_typing ins t"
  obtains b where "from_prefix ctx ins = Ok b" "abs_typing b = t"
proof -
  have "b_context (new_builder ctx) = ctx" by (simp add: new_builder_def enter_scope_def)
  with append_all_complete [of "new_builder ctx" ins t] assms that show ?thesis
    by (auto simp: from_prefix_def)
qed

lemma append_all_Panic:
  "append_all ins b = Panic \<Longrightarrow> builder_inv b \<Longrightarrow>
   \<exists>pre i post c. ins = pre @ i # post \<and> append_all pre b = Ok c \<and> fst (append i c) = Panic"
proof (induction ins arbitrary: b)
  case (Cons i ins)
  show ?case
  proof (cases "append i b")
    case (Pair r c)
    show ?thesis
    proof (cases r)
      case (Ok vs)
      with Pair have ok: "append i b = (Ok vs, c)" by simp
      with Cons.prems have "append_all ins c = Panic" "builder_inv c"
        using append_Ok_cases [OF Cons.prems(2) ok] by auto
      from Cons.IH [OF this] obtain pre j post d where
        "ins = pre @ j # post" "append_all pre c = Ok d" "fst (append j d) = Panic" by blast
      then show ?thesis
        using ok by (intro exI [of _ "i # pre"] exI [of _ j] exI [of _ post] exI [of _ d]) simp
    next
      case Panic
      with Pair show ?thesis
        by (intro exI [of _ "[]"] exI [of _ i] exI [of _ ins] exI [of _ b]) simp
    qed (use Cons.prems Pair in auto)
  qed
qed simp

section \<open>Finalizing\<close>

lemma stack_ok_single: "stack_ok ins (s # ss) \<Longrightarrow> sc_begin s = None \<longleftrightarrow> ss = []"
  by (cases ss) (auto simp: opened_by_def)

lemma finalize_cases:
  assumes inv: "builder_inv b"
  shows "finalize b =
    (if length (active_scopes b) = 1
     then Ok \<lparr>prog_context = b_context b, instructions = b_instructions b\<rparr>
     else Err (UnfinishedBlock (the (fst (hd (frames (abs_typing b)))))))"
proof -
  obtain s ss where s: "active_scopes b = s # ss" using builder_inv_scopes [OF inv] .
  with inv have st: "stack_ok (b_instructions b) (s # ss)" by (simp add: builder_inv_def)
  show ?thesis
  proof (cases ss)
    case Nil
    with s stack_ok_single [OF st] show ?thesis by (simp add: finalize_def)
  next
    case (Cons t ts)
    with st have "opened_by (b_instructions b) s" by simp
    with s Cons show ?thesis by (auto simp: finalize_def opened_by_def frame_of_def index_def)
  qed
qed

lemma abs_frames_length: "length (frames (abs_typing b)) = length (active_scopes b)"
  by simp

lemma statically_valid_iff:
  "is_statically_valid p = Ok True \<longleftrightarrow> wt_program (prog_context p) (instructions p)"
proof
  assume "is_statically_valid p = Ok True"
  then obtain b q where b: "from_prefix (prog_context p) (instructions p) = Ok b" "finalize b = Ok q"
    by (auto simp: is_statically_valid_def from_program_def split: outcome.splits)
  with from_prefix_Ok [OF b(1)] show "wt_program (prog_context p) (instructions p)"
    by (auto simp: wt_program_def finalize_cases abs_frames_length simp del: abs_typing_simps
        split: if_splits)
next
  assume "wt_program (prog_context p) (instructions p)"
  then obtain t where t: "wt_steps (prog_context p) init_typing (instructions p) t"
    "length (frames t) = 1" by (auto simp: wt_program_def)
  obtain b where b: "from_prefix (prog_context p) (instructions p) = Ok b" "abs_typing b = t"
    using from_prefix_complete [OF t(1)] .
  with t(2) have "length (active_scopes b) = 1" by (auto simp flip: abs_frames_length)
  with finalize_cases [OF from_prefix_Ok(1) [OF b(1)]] b(1)
  show "is_statically_valid p = Ok True"
    by (simp add: is_statically_valid_def from_program_def)
qed

lemma global_end_is_success_end:
  assumes inv: "builder_inv b" and typed: "frames_typed (abs_typing b)"
    and one: "length (active_scopes b) = 1" and "is_block_end (operation i)"
    and "append_checks i b = Ok u"
  shows "operation i = EndOnSetupSuccess \<and> inputs i = []"
proof -
  from one obtain s where s: "active_scopes b = [s]" by (cases "active_scopes b") auto
  with inv have "sc_begin s = None" by (simp add: builder_inv_def)
  with s have bot: "frames (abs_typing b) = [(None, snd (frame_of b s))]"
    by (simp add: frame_of_def)
  have wt: "wt_inputs (frames (abs_typing b)) i"
    using assms(5) by (simp add: append_checks_Ok [OF inv] del: abs_typing_simps)
  have no_mut: "\<not> in_scope (frames (abs_typing b)) j VMutSetupConnection" for j
    using typed by (auto simp: bot in_scope_def frames_typed_def frame_typed_def simp del: abs_typing_simps)
  show ?thesis
    using assms(4) wt no_mut
    by (cases "operation i") (auto simp: wt_inputs_def list_all2_Cons2 simp del: abs_typing_simps)
qed

lemma from_prefix_Panic_iff:
  "from_prefix ctx ins = Panic \<longleftrightarrow>
   (\<exists>pre i post t. ins = pre @ i # post \<and> wt_steps ctx init_typing pre t \<and>
      length (frames t) = 1 \<and> operation i = EndOnSetupSuccess \<and> inputs i = [])"
  (is "?P \<longleftrightarrow> ?Q")
proof
  assume ?P
  then obtain pre i post b where b: "ins = pre @ i # post" "from_prefix ctx pre = Ok b"
    "fst (append i b) = Panic"
    using append_all_Panic [of ins "new_builder ctx"] by (auto simp: from_prefix_def)
  note ok = from_prefix_Ok [OF b(2)]
  have p: "append_checks i b = Ok ()" "is_block_end (operation i)" "length (active_scopes b) = 1"
    using b(3) append_Panic_iff [OF ok(1)] by auto
  have "frames_typed (abs_typing b)" using wt_steps_typed [OF ok(2)] by simp
  with global_end_is_success_end [OF ok(1) _ p(3,2,1)] ok(2) b(1) p(3) show ?Q
    by (metis abs_frames_length)
next
  assume ?Q
  then obtain pre i post t where t: "ins = pre @ i # post" "wt_steps ctx init_typing pre t"
    "length (frames t) = 1" "operation i = EndOnSetupSuccess" "inputs i = []" by blast
  obtain b where b: "from_prefix ctx pre = Ok b" "abs_typing b = t"
    using from_prefix_complete [OF t(2)] .
  note ok = from_prefix_Ok [OF b(1)]
  have "append_checks i b = Ok ()"
    using t by (simp add: append_checks_Ok [OF ok(1)] wt_inputs_def del: abs_typing_simps)
  then have "fst (append i b) = Panic"
    using t b(2) by (simp add: append_Panic_iff [OF ok(1)] flip: abs_frames_length)
  then show ?P
    using b(1) t(1) by (cases "append i b") (auto simp: from_prefix_def append_all_append)
qed

section \<open>Builders in use\<close>

text \<open>The builders a caller that stops at the first error can hold.\<close>

inductive built :: "builder \<Rightarrow> bool" where
  built_new: "built (new_builder ctx)"
| built_append: "built b \<Longrightarrow> append i b = (Ok vs, b') \<Longrightarrow> built b'"

lemma built_from_prefix:
  "built b \<Longrightarrow> builder_inv b \<and> from_prefix (b_context b) (b_instructions b) = Ok b"
proof (induction rule: built.induct)
  case (built_new ctx)
  show ?case by (simp add: from_prefix_def) (simp add: new_builder_def enter_scope_def)
next
  case (built_append b i vs b')
  then have inv: "builder_inv b" and pre: "from_prefix (b_context b) (b_instructions b) = Ok b"
    by auto
  note step = append_Ok_cases [OF inv built_append.hyps(2)]
  with pre built_append.hyps(2) show ?case
    by (simp add: from_prefix_def append_all_append)
qed

lemma is_statically_valid_finalize:
  "built b \<Longrightarrow> finalize b = Ok p \<Longrightarrow> is_statically_valid p = Ok True"
  using built_from_prefix [of b] finalize_cases [of b]
  by (auto simp: is_statically_valid_def from_program_def split: if_splits)

lemma validity_panics:
  "is_statically_valid p = Panic \<longleftrightarrow>
   (\<exists>pre post. instructions p = pre @ Instruction EndOnSetupSuccess [] # post \<and>
      wt_program (prog_context p) pre)"
proof -
  have "is_statically_valid p = Panic \<longleftrightarrow> from_prefix (prog_context p) (instructions p) = Panic"
    using finalize_cases [OF from_prefix_Ok(1)]
    by (auto simp: is_statically_valid_def from_program_def split: outcome.splits if_splits)
  moreover have "operation i = EndOnSetupSuccess \<and> inputs i = [] \<longleftrightarrow>
      i = Instruction EndOnSetupSuccess []" for i
    by (auto simp: Instruction_def)
  ultimately show ?thesis
    by (auto simp: from_prefix_Panic_iff wt_program_def)
qed

section \<open>Properties\<close>

text \<open>C1: The builder decides the typing judgement: \<open>is_statically_valid\<close> answers true on
  exactly the programs that are well typed, scoped and balanced.\<close>

theorem static_validity_is_typing:
  "is_statically_valid p = Ok True \<longleftrightarrow> wt_program (prog_context p) (instructions p)"
  by (rule statically_valid_iff)

text \<open>C14: One accepted \<open>append\<close> is one step of the typing judgement, hands back the variables
  the operation defines numbered on from the ones that exist, and adds the instruction.\<close>

theorem append_implements_typing:
  assumes "builder_inv b"
  shows "(\<exists>vs b'. append i b = (Ok vs, b') \<and> abs_typing b' = t' \<and>
            vs = defined_vars (variable_count b) (operation i) \<and>
            b_instructions b' = b_instructions b @ [i]) \<longleftrightarrow>
         wt_step (b_context b) (abs_typing b) i t'"
  using append_Ok_cases [OF assms] append_complete [OF assms]
  by (metis variable_count_def)

theorem append_implements_typing_witness:
  "wt_step (b_context (new_builder \<lparr>num_roles = 1, num_connections = 0, seed = 0\<rparr>))
     (abs_typing (new_builder \<lparr>num_roles = 1, num_connections = 0, seed = 0\<rparr>))
     (Instruction (LoadRole 0) []) \<lparr>frames = [(None, {(0, VRole)})], next_var = 1\<rparr>"
proof -
  let ?c = "\<lparr>num_roles = 1, num_connections = 0, seed = 0\<rparr>"
  let ?r = "append (Instruction (LoadRole 0) []) (new_builder ?c)"
  have ok: "fst ?r = Ok [\<lparr>iv_var = VRole, iv_index = 0\<rparr>]"
    "b_instructions (snd ?r) = [Instruction (LoadRole 0) []]"
    "abs_typing (snd ?r) = \<lparr>frames = [(None, {(0, VRole)})], next_var = 1\<rparr>"
    by (auto simp: append_def append_checks_def num_inputs_def check_input_types_def append_close_def
        append_define_def new_builder_def enter_scope_def current_scope_def scoped_vars_def
        abs_typing_def frame_of_def scope_vars_def)
  show ?thesis
    by (rule append_implements_typing [THEN iffD1, OF builder_inv_new])
      (use ok in \<open>auto simp: prod_eq_iff defined_vars_def variable_count_def new_builder_def
        enter_scope_def\<close>)
qed

text \<open>Every \<open>append\<close> that returns, with a result or with an error, leaves a builder that
  satisfies the builder's invariant: its scopes nested and opened by recorded beginnings, its
  set of active scopes that of its stack, one variable for every output of every instruction.\<close>

theorem append_keeps_invariant:
  assumes "builder_inv b" and "append i b = (r, b')" and "r \<noteq> Panic"
  shows "builder_inv b'"
  using assms append_Ok_cases [OF assms(1)] append_Err_inv [OF assms(1)] by (cases r) auto

theorem append_keeps_invariant_witness:
  "builder_inv (snd (append (Instruction Connect [0]) (new_builder \<lparr>num_roles = 1,
     num_connections = 0, seed = 0\<rparr>)))"
proof (rule append_keeps_invariant [OF builder_inv_new])
  let ?r = "append (Instruction Connect [0]) (new_builder \<lparr>num_roles = 1, num_connections = 0, seed = 0\<rparr>)"
  show "?r = (fst ?r, snd ?r)" by simp
  show "fst ?r \<noteq> Panic"
    by (simp add: append_def append_checks_def num_inputs_def new_builder_def enter_scope_def)
qed

text \<open>Every program that leaves \<open>finalize\<close> is statically valid, for a builder that was made
  by accepted appends alone.\<close>

theorem finalize_gives_valid:
  assumes "built b" and "finalize b = Ok p"
  shows "is_statically_valid p = Ok True"
  using assms by (rule is_statically_valid_finalize)

theorem finalize_gives_valid_witness:
  "is_statically_valid \<lparr>prog_context = \<lparr>num_roles = 1, num_connections = 0, seed = 0\<rparr>,
     instructions = [Instruction Probe []]\<rparr> = Ok True"
proof (rule finalize_gives_valid)
  let ?c = "\<lparr>num_roles = 1, num_connections = 0, seed = 0\<rparr>"
  let ?r = "append (Instruction Probe []) (new_builder ?c)"
  have "?r = (Ok [], snd ?r)"
    by (simp add: append_def append_checks_def num_inputs_def check_input_types_def
        append_close_def append_define_def current_scope_def new_builder_def enter_scope_def)
  with built_new show "built (snd ?r)" by (rule built_append)
  show "finalize (snd ?r) = Ok \<lparr>prog_context = ?c, instructions = [Instruction Probe []]\<rparr>"
    by (simp add: append_def append_checks_def num_inputs_def check_input_types_def
        append_close_def append_define_def current_scope_def new_builder_def enter_scope_def
        finalize_def)
qed

text \<open>A builder whose caller goes on after an error can finalize a program that is not
  valid: the failed end of a block closes the block's scope, and \<open>finalize\<close> only looks at the
  scopes, so the open \<open>BeginBuildSetupConnection\<close> goes unnoticed.\<close>

theorem finalize_after_error_invalid:
  "let b1 = snd (append (Instruction BeginBuildSetupConnection []) (new_builder ctx));
       (r, b2) = append (Instruction EndOnSetupSuccess []) b1
   in r = Err (InvalidBlockEnd BeginBuildSetupConnection EndOnSetupSuccess) \<and>
      (\<exists>p. finalize b2 = Ok p \<and> is_statically_valid p = Ok False)"
  by (simp add: append_def append_checks_def num_inputs_def check_input_types_def
      append_close_def append_define_def current_scope_def new_builder_def enter_scope_def
      entered_context_after_execution_def exit_scope_def finalize_def is_statically_valid_def
      from_program_def from_prefix_def scoped_vars_def index_def)


end
