(* ===== verification/Program_Ops.thy ===== *)
theory Program_Ops
  imports Static_Validity
begin

text \<open>
  The operations on programs of \<open>lib.rs\<close>: \<open>without\<close>, which drops marked instructions and
  renumbers the inputs of the rest, and \<open>remove_nops\<close>.
\<close>

section \<open>Dropping instructions\<close>

text \<open>\<open>remove.get(index).copied().unwrap_or(false)\<close>.\<close>

definition marked :: "bool list \<Rightarrow> nat \<Rightarrow> bool" where
  "marked remove k = (case get remove k of None \<Rightarrow> False | Some b \<Rightarrow> b)"

definition with_marks :: "bool list \<Rightarrow> instruction list \<Rightarrow> (bool \<times> instruction) list" where
  "with_marks remove ins = map (\<lambda>(k, i). (marked remove k, i)) (enumerate 0 ins)"

text \<open>The first loop of \<open>without\<close>: the new number of every variable.\<close>

fun without_mapping :: "(bool \<times> instruction) list \<Rightarrow> nat \<Rightarrow> nat list" where
  "without_mapping [] kept = []"
| "without_mapping ((dropped, i) # rest) kept =
     (let n = num_defined (operation i) in
      if dropped then replicate n kept @ without_mapping rest kept
      else [kept..<kept + n] @ without_mapping rest (kept + n))"

fun map_inputs :: "nat list \<Rightarrow> nat list \<Rightarrow> ('e, nat list) outcome" where
  "map_inputs mapping [] = Ok []"
| "map_inputs mapping (x # xs) =
     andThen (index mapping x) (\<lambda>y. andThen (map_inputs mapping xs) (\<lambda>ys. Ok (y # ys)))"

fun renumber_kept :: "nat list \<Rightarrow> (bool \<times> instruction) list \<Rightarrow> ('e, instruction list) outcome"
  where
  "renumber_kept mapping [] = Ok []"
| "renumber_kept mapping ((dropped, i) # rest) =
     (if dropped then renumber_kept mapping rest
      else andThen (map_inputs mapping (inputs i))
             (\<lambda>xs. andThen (renumber_kept mapping rest) (\<lambda>is'. Ok (i\<lparr>inputs := xs\<rparr> # is'))))"

definition without :: "program \<Rightarrow> bool list \<Rightarrow> ('e, program) outcome" where
  "without p remove =
     (let ms = with_marks remove (instructions p) in
      andThen (renumber_kept (without_mapping ms 0) ms)
        (\<lambda>ins. Ok \<lparr>prog_context = prog_context p, instructions = ins\<rparr>))"

definition remove_nops :: "program \<Rightarrow> ('e, program) outcome" where
  "remove_nops p = without p (map (\<lambda>i. is_nop (operation i)) (instructions p))"

section \<open>Facts about the renumbering\<close>

lemma map_snd_with_marks [simp]: "map snd (with_marks remove ins) = ins"
  by (simp add: with_marks_def case_prod_beta comp_def)

lemma with_marks_all:
  "with_marks (map P ins) ins = map (\<lambda>i. (P i, i)) ins"
  by (rule nth_equalityI) (auto simp: with_marks_def marked_def nth_enumerate_eq get_def)

lemma length_without_mapping:
  "length (without_mapping ms kept) = variable_total (map snd ms)"
  by (induction ms kept rule: without_mapping.induct) (auto simp: Let_def)

lemma map_inputs_Ok:
  "map_inputs mapping xs = Ok ys \<longleftrightarrow>
   (\<forall>x \<in> set xs. x < length mapping) \<and> ys = map (\<lambda>x. mapping ! x) xs"
  by (induction xs arbitrary: ys) auto

lemma map_inputs_not_Err [simp]: "map_inputs mapping xs \<noteq> Err e"
  by (induction xs) auto

text \<open>The instructions that stay, with their inputs renumbered.\<close>

definition kept_of :: "(bool \<times> instruction) list \<Rightarrow> instruction list" where
  "kept_of ms = map snd (filter (Not \<circ> fst) ms)"

lemma kept_of_simps [simp]:
  "kept_of [] = []" "kept_of ((d, i) # ms) = (if d then kept_of ms else i # kept_of ms)"
  by (simp_all add: kept_of_def)

lemma renumber_kept_Ok:
  "(\<forall>i \<in> set (kept_of ms). \<forall>x \<in> set (inputs i). x < length mapping) \<Longrightarrow>
   renumber_kept mapping ms = Ok (map (rename_inputs (\<lambda>x. mapping ! x)) (kept_of ms))"
  by (induction mapping ms rule: renumber_kept.induct)
    (auto simp: map_inputs_Ok rename_inputs_def split: if_splits)

text \<open>Inputs of a well-typed program refer to variables it defines.\<close>

lemma wt_inputs_below:
  assumes "wt_inputs (frames t) i" and "frames_below t" and "x \<in> set (inputs i)"
  shows "x < next_var t"
proof -
  from assms(1, 3) obtain v where "in_scope (frames t) x v"
    by (auto simp: wt_inputs_def list_all2_conv_all_nth in_set_conv_nth)
  with assms(2) show ?thesis by (auto simp: frames_below_def)
qed

lemma wt_steps_inputs_below:
  "wt_steps ctx t ins t' \<Longrightarrow> frames_below t \<Longrightarrow> i \<in> set ins \<Longrightarrow> x \<in> set (inputs i) \<Longrightarrow>
   x < next_var t + variable_total ins"
proof (induction rule: wt_steps.induct)
  case (wt_cons t j t' ins t'')
  show ?case
  proof (cases "i = j")
    case True
    with wt_inputs_below [OF wt_step_inputs(1) [OF wt_cons.hyps(1)]] wt_cons.prems
    have "x < next_var t" by simp
    then show ?thesis by (simp add: trans_less_add1)
  next
    case False
    with wt_cons wt_step_below [OF wt_cons.hyps(1)] have "x < next_var t' + variable_total ins"
      by auto
    with wt_step_next [OF wt_cons.hyps(1)] show ?thesis by (simp add: add.assoc)
  qed
qed simp

lemma kept_of_subset: "set (kept_of ms) \<subseteq> set (map snd ms)"
  by (auto simp: kept_of_def)

lemma without_Ok:
  assumes "wt_steps (prog_context p) init_typing (instructions p) t"
  shows "without p remove =
    (let ms = with_marks remove (instructions p);
         f = (\<lambda>x. without_mapping ms 0 ! x)
     in Ok \<lparr>prog_context = prog_context p, instructions = map (rename_inputs f) (kept_of ms)\<rparr>)"
proof -
  let ?ms = "with_marks remove (instructions p)"
  have "\<forall>i \<in> set (kept_of ?ms). \<forall>x \<in> set (inputs i). x < length (without_mapping ?ms 0)"
    using wt_steps_inputs_below [OF assms frames_below_init] kept_of_subset [of ?ms]
    by (auto simp: length_without_mapping init_typing_def)
  from renumber_kept_Ok [OF this] show ?thesis by (simp add: without_def Let_def)
qed

section \<open>Removing nops\<close>

lemma wt_step_nop:
  "wt_step ctx t i t' \<Longrightarrow> is_nop (operation i) \<Longrightarrow>
   frames t' = frames t \<and> next_var t' = next_var t + num_defined (operation i)"
  by (erule wt_step.cases) (auto simp: outer_vars_def)

definition nop_marks :: "instruction list \<Rightarrow> (bool \<times> instruction) list" where
  "nop_marks ins = map (\<lambda>i. (is_nop (operation i), i)) ins"

lemma nop_marks_simps [simp]:
  "nop_marks [] = []" "nop_marks (i # ins) = (is_nop (operation i), i) # nop_marks ins"
  "map snd (nop_marks ins) = ins"
  by (simp_all add: nop_marks_def comp_def)

lemma remove_nops_steps:
  assumes "wt_steps ctx t ins t'" and "covers f t u"
    and "\<forall>j < variable_total ins.
           f (next_var t + j) = without_mapping (nop_marks ins) (next_var u) ! j"
  shows "\<exists>u'. wt_steps ctx u (map (rename_inputs f) (kept_of (nop_marks ins))) u' \<and> covers f t' u'"
  using assms
proof (induction arbitrary: u rule: wt_steps.induct)
  case (wt_nil t)
  then show ?case by (auto intro: wt_steps.wt_nil)
next
  case (wt_cons t i t' ins t'')
  let ?n = "num_defined (operation i)" and ?g = "without_mapping (nop_marks ins)"
  show ?case
  proof (cases "is_nop (operation i)")
    case True
    note nop = wt_step_nop [OF wt_cons.hyps(1) True]
    have "covers f t' u" using nop wt_cons.prems(1) by (simp add: covers_def)
    moreover have "\<forall>j < variable_total ins. f (next_var t' + j) = ?g (next_var u) ! j"
    proof (intro allI impI)
      fix j assume "j < variable_total ins"
      with wt_cons.prems(2) [rule_format, of "?n + j"] nop True
      show "f (next_var t' + j) = ?g (next_var u) ! j"
        by (simp add: Let_def nth_append add.assoc)
    qed
    ultimately show ?thesis using wt_cons.IH True by simp
  next
    case False
    have fresh: "renames_fresh f (next_var t) (next_var u) ?n"
      using wt_cons.prems(2) False
      by (auto simp: renames_fresh_def Let_def nth_append trans_less_add1)
    obtain u' where u': "wt_step ctx u (rename_inputs f i) u'" "covers f t' u'"
      using wt_step_rename [OF wt_cons.hyps(1) wt_cons.prems(1) fresh
          wt_step_inputs(2) [OF wt_cons.hyps(1)]] .
    have "\<forall>j < variable_total ins. f (next_var t' + j) = ?g (next_var u') ! j"
    proof (intro allI impI)
      fix j assume "j < variable_total ins"
      with wt_cons.prems(2) [rule_format, of "?n + j"] False
        wt_step_next [OF wt_cons.hyps(1)] wt_step_next [OF u'(1)]
      show "f (next_var t' + j) = ?g (next_var u') ! j"
        by (simp add: Let_def nth_append add.assoc)
    qed
    from wt_cons.IH [OF u'(2) this] u'(1) False
    show ?thesis by (auto intro: wt_steps.wt_cons)
  qed
qed

lemma remove_nops_valid:
  assumes "wt_program (prog_context p) (instructions p)"
  obtains q where "remove_nops p = Ok q" "wt_program (prog_context q) (instructions q)"
    "prog_context q = prog_context p"
    "map operation (instructions q) =
       filter (Not \<circ> is_nop) (map operation (instructions p))"
proof -
  let ?ins = "instructions p"
  let ?ms = "nop_marks ?ins"
  let ?f = "\<lambda>x. without_mapping ?ms 0 ! x"
  let ?q = "\<lparr>prog_context = prog_context p, instructions = map (rename_inputs ?f) (kept_of ?ms)\<rparr>"
  obtain t F where t: "wt_steps (prog_context p) init_typing ?ins t" "frames t = [(None, F)]"
    using wt_program_end [OF assms] .
  have ms: "with_marks (map (\<lambda>i. is_nop (operation i)) ?ins) ?ins = ?ms"
    by (simp add: with_marks_all nop_marks_def)
  have "remove_nops p = Ok ?q"
    using without_Ok [OF t(1), of "map (\<lambda>i. is_nop (operation i)) ?ins"]
    by (simp add: remove_nops_def ms Let_def)
  moreover have "covers ?f init_typing init_typing"
    by (simp add: covers_def init_typing_def frame_covers_def)
  from remove_nops_steps [OF t(1) this]
  obtain u where "wt_steps (prog_context p) init_typing (map (rename_inputs ?f) (kept_of ?ms)) u"
    "covers ?f t u"
    by (auto simp: init_typing_def)
  then have "wt_program (prog_context ?q) (instructions ?q)"
    using t(2) covers_length by (fastforce simp: wt_program_def)
  moreover have
    "map operation (kept_of (nop_marks ins)) = filter (Not \<circ> is_nop) (map operation ins)" for ins
    by (induction ins) auto
  ultimately show ?thesis using that [of ?q] by (simp add: comp_def)
qed

section \<open>Properties\<close>

text \<open>Removing the nops of a valid program does not panic (every input it renumbers is in
  range), gives a valid program for the same deployment, and keeps the operations that are not
  nops, in their order.\<close>

theorem remove_nops_keeps_validity:
  assumes "is_statically_valid p = Ok True"
  shows "\<exists>q. remove_nops p = Ok q \<and> is_statically_valid q = Ok True \<and>
             prog_context q = prog_context p \<and>
             map operation (instructions q) =
               filter (Not \<circ> is_nop) (map operation (instructions p))"
  using assms remove_nops_valid [of p] statically_valid_iff by metis

theorem remove_nops_keeps_validity_witness:
  "\<exists>q. remove_nops \<lparr>prog_context = \<lparr>num_roles = 1, num_connections = 0, seed = 0\<rparr>,
          instructions = [Instruction (Nop 1 0) [], Instruction (LoadRole 0) [],
                          Instruction Connect [1]]\<rparr> = Ok q \<and>
       is_statically_valid q = Ok True"
proof -
  let ?p = "\<lparr>prog_context = \<lparr>num_roles = 1, num_connections = 0, seed = 0\<rparr>,
          instructions = [Instruction (Nop 1 0) [], Instruction (LoadRole 0) [],
                          Instruction Connect [1]]\<rparr>"
  have "is_statically_valid ?p = (Ok True :: (unit, bool) outcome)" by code_simp
  from remove_nops_keeps_validity [OF this] show ?thesis by blast
qed

end
