(* ===== verification/Compiler.thy ===== *)
theory Compiler
  imports Program_Ops
begin

text \<open>
  The compiler of \<open>compiler.rs\<close>: it lowers a program to the actions the runner carries out.
  The wire library it encodes a \<open>SetupConnection\<close> with is not part of the repository and is a
  parameter, the record \<open>codec\<close>. The \<open>HashMap\<close>s of the metadata are maps, the \<open>HashSet\<close>s
  are sets, and the vector of open blocks is a list with the innermost one first.
\<close>

section \<open>Data\<close>

record setup_connection_spec =
  protocol :: protocol
  min_version :: u16
  max_version :: u16
  flags :: u32
  endpoint_host :: string
  endpoint_port :: u16
  vendor :: string
  hardware_version :: string
  firmware :: string
  device_id :: string

definition default_spec :: setup_connection_spec where
  "default_spec =
     \<lparr>protocol = Mining, min_version = 2, max_version = 2, flags = 0,
      endpoint_host = ''0.0.0.0'', endpoint_port = 0, vendor = ''stratamoto'',
      hardware_version = [], firmware = [], device_id = []\<rparr>"

datatype client_violation = SetupNotFirst | RawFrameBefore

text \<open>\<open>Action\<close>; the constructors carry an \<open>A\<close>, since operations have some of their names.\<close>

datatype action =
    AConnect nat nat
  | ASend nat u16 u8 bool "u8 list"
  | AAwaitSetupResponse nat nat protocol bool
  | AEnterOnSetupSuccess nat nat
  | AExitBlock
  | AAdvanceTime duration
  | AProbe

record compiled_metadata =
  action_instructions :: "nat list"
  session_variables :: "nat \<rightharpoonup> nat"
  connection_variables :: "nat \<rightharpoonup> nat"
  session_setups :: "nat \<rightharpoonup> setup_connection_spec"
  violations :: "nat \<rightharpoonup> client_violation list"

definition default_metadata :: compiled_metadata where
  "default_metadata =
     \<lparr>action_instructions = [], session_variables = Map.empty,
      connection_variables = Map.empty, session_setups = Map.empty, violations = Map.empty\<rparr>"

record compiled_program =
  comp_context :: program_context
  comp_actions :: "action list"
  comp_metadata :: compiled_metadata

datatype compiler_error =
    MissingValue nat
  | UnexpectedValue nat
  | StringTooLong nat
  | UnbalancedBlock
  | Encoding string

text \<open>\<open>Value\<close>; a session carries nothing.\<close>

datatype val =
    NopVal
  | RoleVal nat
  | ConnectionVal nat
  | SetupAttemptVal nat nat
  | SessionVal
  | VersionVal u16
  | FlagsVal u32
  | PortVal u16
  | StrVal string
  | BytesVal "u8 list"
  | DurationVal duration
  | SetupConnectionVal setup_connection_spec

record compiler =
  vals :: "val list"
  actions :: "action list"
  metadata :: compiled_metadata
  connections :: nat
  sessions :: nat
  sent :: "nat set"
  raw_framed :: "nat set"
  blocks :: "nat list"

definition new_compiler :: compiler where
  "new_compiler =
     \<lparr>vals = [], actions = [], metadata = default_metadata, connections = 0, sessions = 0,
      sent = {}, raw_framed = {}, blocks = []\<rparr>"

text \<open>\<open>ActionId::MAX\<close>, the largest \<open>usize\<close> of a 64-bit target.\<close>

definition action_id_max :: nat where
  "action_id_max = 2 ^ 64 - 1"

section \<open>Encoding a SetupConnection\<close>

text \<open>
  The wire message, \<open>common_messages_sv2::SetupConnection\<close>: its protocol is the id, its
  strings are accepted by \<open>Str0255::try_from\<close>.
\<close>

record wire_setup =
  wire_protocol :: u8
  wire_spec :: setup_connection_spec

record codec =
  str0255_accepts :: "string \<Rightarrow> bool"
  protocol_accepts :: "u8 \<Rightarrow> bool"
  message_type_setup_connection :: u8
  get_size :: "wire_setup \<Rightarrow> nat"
  to_writer :: "wire_setup \<Rightarrow> u8 list \<Rightarrow> (string, u8 list) outcome"

text \<open>
  What is documented of them: a \<open>STR0_255\<close> holds up to 255 bytes, the wire type takes the
  ids 0, 1 and 2, and writing into a buffer of the message's size succeeds and fills it.
\<close>

definition codec_ok :: "codec \<Rightarrow> bool" where
  "codec_ok cd \<longleftrightarrow>
     (\<forall>s. str0255_accepts cd s \<longleftrightarrow> length s \<le> 255) \<and>
     (\<forall>i. protocol_accepts cd i \<longleftrightarrow> i \<in> {0, 1, 2}) \<and>
     (\<forall>m buf. length buf = get_size cd m \<longrightarrow>
        (\<exists>out. to_writer cd m buf = Ok out \<and> length out = get_size cd m))"

definition str0_255 :: "codec \<Rightarrow> string \<Rightarrow> nat \<Rightarrow> (compiler_error, string) outcome" where
  "str0_255 cd s x = (if str0255_accepts cd s then Ok s else Err (StringTooLong x))"

definition encode :: "codec \<Rightarrow> wire_setup \<Rightarrow> (compiler_error, u8 list) outcome" where
  "encode cd m = map_err Encoding (to_writer cd m (replicate (get_size cd m) 0))"

definition encode_setup_connection ::
  "codec \<Rightarrow> setup_connection_spec \<Rightarrow> nat \<Rightarrow> (compiler_error, u8 list) outcome" where
  "encode_setup_connection cd spec x =
     (if \<not> protocol_accepts cd (protocol_id (protocol spec)) then Panic
      else
        andThen (str0_255 cd (endpoint_host spec) x) (\<lambda>host.
        andThen (str0_255 cd (vendor spec) x) (\<lambda>ven.
        andThen (str0_255 cd (hardware_version spec) x) (\<lambda>hw.
        andThen (str0_255 cd (firmware spec) x) (\<lambda>fw.
        andThen (str0_255 cd (device_id spec) x) (\<lambda>dev.
          encode cd \<lparr>wire_protocol = protocol_id (protocol spec),
            wire_spec = spec\<lparr>endpoint_host := host, vendor := ven, hardware_version := hw,
                             firmware := fw, device_id := dev\<rparr>\<rparr>))))))"

section \<open>Reading values\<close>

definition val_at :: "compiler \<Rightarrow> nat \<Rightarrow> (compiler_error, val) outcome" where
  "val_at c x = (case get (vals c) x of None \<Rightarrow> Err (MissingValue x) | Some v \<Rightarrow> Ok v)"

text \<open>The typed readers differ only in the shape they ask for.\<close>

definition read_as :: "(val \<Rightarrow> 'a option) \<Rightarrow> compiler \<Rightarrow> nat \<Rightarrow> (compiler_error, 'a) outcome" where
  "read_as shape c x = andThen (val_at c x)
     (\<lambda>v. case shape v of Some a \<Rightarrow> Ok a | None \<Rightarrow> Err (UnexpectedValue x))"

fun as_role :: "val \<Rightarrow> nat option" where
  "as_role (RoleVal v) = Some v" | "as_role _ = None"

fun as_connection :: "val \<Rightarrow> nat option" where
  "as_connection (ConnectionVal v) = Some v" | "as_connection _ = None"

fun as_version :: "val \<Rightarrow> u16 option" where
  "as_version (VersionVal v) = Some v" | "as_version _ = None"

fun as_flags :: "val \<Rightarrow> u32 option" where
  "as_flags (FlagsVal v) = Some v" | "as_flags _ = None"

fun as_port :: "val \<Rightarrow> u16 option" where
  "as_port (PortVal v) = Some v" | "as_port _ = None"

fun as_str :: "val \<Rightarrow> string option" where
  "as_str (StrVal v) = Some v" | "as_str _ = None"

fun as_bytes :: "val \<Rightarrow> u8 list option" where
  "as_bytes (BytesVal v) = Some v" | "as_bytes _ = None"

fun as_duration :: "val \<Rightarrow> duration option" where
  "as_duration (DurationVal v) = Some v" | "as_duration _ = None"

fun as_attempt :: "val \<Rightarrow> (nat \<times> nat) option" where
  "as_attempt (SetupAttemptVal s c) = Some (s, c)" | "as_attempt _ = None"

fun as_setup :: "val \<Rightarrow> setup_connection_spec option" where
  "as_setup (SetupConnectionVal v) = Some v" | "as_setup _ = None"

text \<open>\<open>setup_mut\<close> and the assignments through the reference it returns.\<close>

definition update_setup ::
  "compiler \<Rightarrow> nat \<Rightarrow> (setup_connection_spec \<Rightarrow> setup_connection_spec) \<Rightarrow>
   (compiler_error, compiler) outcome" where
  "update_setup c x f = andThen (read_as as_setup c x)
     (\<lambda>spec. Ok (c\<lparr>vals := (vals c)[x := SetupConnectionVal (f spec)]\<rparr>))"

section \<open>Compiling an instruction\<close>

definition push_val :: "val \<Rightarrow> compiler \<Rightarrow> compiler" where
  "push_val v c = c\<lparr>vals := vals c @ [v]\<rparr>"

definition push_action :: "nat \<Rightarrow> action \<Rightarrow> compiler \<Rightarrow> nat \<times> compiler" where
  "push_action k a c =
     (length (actions c),
      c\<lparr>metadata := (metadata c)\<lparr>action_instructions := action_instructions (metadata c) @ [k]\<rparr>,
        actions := actions c @ [a]\<rparr>)"

definition note_violations :: "nat \<Rightarrow> client_violation list \<Rightarrow> compiler \<Rightarrow> compiler" where
  "note_violations a vs c =
     (if vs = [] then c
      else c\<lparr>metadata := (metadata c)\<lparr>violations := (violations (metadata c))(a \<mapsto> vs)\<rparr>\<rparr>)"

text \<open>\<open>self.role(inputs[k])?\<close> and the like: the index panics out of range.\<close>

definition read_input ::
  "(val \<Rightarrow> 'a option) \<Rightarrow> compiler \<Rightarrow> instruction \<Rightarrow> nat \<Rightarrow> (compiler_error, 'a) outcome" where
  "read_input shape c i k = andThen (index (inputs i) k) (read_as shape c)"

definition update_input ::
  "compiler \<Rightarrow> instruction \<Rightarrow> nat \<Rightarrow> (setup_connection_spec \<Rightarrow> setup_connection_spec) \<Rightarrow>
   (compiler_error, compiler) outcome" where
  "update_input c i k f = andThen (index (inputs i) k) (\<lambda>x. update_setup c x f)"

definition compile_connect :: "compiler \<Rightarrow> nat \<Rightarrow> instruction \<Rightarrow> (compiler_error, compiler) outcome"
  where
  "compile_connect c k i =
     andThen (read_input as_role c i 0) (\<lambda>r.
       let conn = connections c;
           c1 = c\<lparr>connections := connections c + 1\<rparr>;
           c2 = c1\<lparr>metadata := (metadata c1)\<lparr>connection_variables :=
                    (connection_variables (metadata c1))(conn \<mapsto> length (vals c1))\<rparr>\<rparr>;
           c3 = push_val (ConnectionVal conn) c2
       in Ok (snd (push_action k (AConnect conn r) c3)))"

definition compile_send_setup ::
  "codec \<Rightarrow> compiler \<Rightarrow> nat \<Rightarrow> instruction \<Rightarrow> protocol \<Rightarrow> (compiler_error, compiler) outcome" where
  "compile_send_setup cd c k i p =
     andThen (read_input as_connection c i 0) (\<lambda>conn.
       let first_on_connection = (conn \<notin> sent c);
           c1 = c\<lparr>sent := insert conn (sent c)\<rparr>
       in andThen (read_input as_setup c1 i 1) (\<lambda>spec.
          andThen (index (inputs i) 1) (\<lambda>x.
          andThen (encode_setup_connection cd spec x) (\<lambda>payload.
            let session = sessions c1;
                c2 = c1\<lparr>sessions := sessions c1 + 1\<rparr>;
                c3 = c2\<lparr>metadata := (metadata c2)
                       \<lparr>session_variables :=
                          (session_variables (metadata c2))(session \<mapsto> length (vals c2)),
                        session_setups := (session_setups (metadata c2))(session \<mapsto> spec)\<rparr>\<rparr>;
                c4 = push_val (SetupAttemptVal session conn) c3;
                (_, c5) = push_action k
                  (ASend conn 0 (message_type_setup_connection cd) False payload) c4;
                (a, c6) = push_action k
                  (AAwaitSetupResponse conn session p first_on_connection) c5;
                vs = (if \<not> first_on_connection then [SetupNotFirst] else []) @
                     (if conn \<in> raw_framed c6 then [RawFrameBefore] else [])
            in Ok (note_violations a vs c6)))))"

definition compile_begin_success ::
  "compiler \<Rightarrow> nat \<Rightarrow> instruction \<Rightarrow> (compiler_error, compiler) outcome" where
  "compile_begin_success c k i =
     andThen (read_input as_attempt c i 0) (\<lambda>(session, _).
       let (enter, c1) = push_action k (AEnterOnSetupSuccess session action_id_max) c;
           c2 = c1\<lparr>blocks := enter # blocks c1\<rparr>
       in Ok (push_val SessionVal c2))"

definition compile_end_success :: "compiler \<Rightarrow> nat \<Rightarrow> (compiler_error, compiler) outcome" where
  "compile_end_success c k =
     (case blocks c of
        [] \<Rightarrow> Err UnbalancedBlock
      | enter # rest \<Rightarrow>
          let (exit, c1) = push_action k AExitBlock (c\<lparr>blocks := rest\<rparr>)
          in andThen (index (actions c1) enter) (\<lambda>a.
             case a of
               AEnterOnSetupSuccess s _ \<Rightarrow>
                 Ok (c1\<lparr>actions := (actions c1)[enter := AEnterOnSetupSuccess s exit]\<rparr>)
             | _ \<Rightarrow> Err UnbalancedBlock))"

definition compile_raw_frame ::
  "compiler \<Rightarrow> nat \<Rightarrow> instruction \<Rightarrow> u8 \<Rightarrow> u16 \<Rightarrow> (compiler_error, compiler) outcome" where
  "compile_raw_frame c k i msg ext =
     andThen (read_input as_connection c i 0) (\<lambda>conn.
     andThen (read_input as_bytes c i 1) (\<lambda>payload.
       let c1 = c\<lparr>sent := insert conn (sent c)\<rparr>;
           c2 = c1\<lparr>raw_framed := insert conn (raw_framed c1)\<rparr>
       in Ok (snd (push_action k (ASend conn ext msg False payload) c2))))"

fun compile_operation ::
  "codec \<Rightarrow> compiler \<Rightarrow> nat \<Rightarrow> instruction \<Rightarrow> operation \<Rightarrow> (compiler_error, compiler) outcome" where
  "compile_operation cd c k i (Nop n m) = Ok (c\<lparr>vals := vals c @ replicate (n + m) NopVal\<rparr>)"
| "compile_operation cd c k i (LoadRole r) = Ok (push_val (RoleVal r) c)"
| "compile_operation cd c k i (LoadConnection n) = Ok (push_val (ConnectionVal n) c)"
| "compile_operation cd c k i (LoadVersion v) = Ok (push_val (VersionVal v) c)"
| "compile_operation cd c k i (LoadFlags v) = Ok (push_val (FlagsVal v) c)"
| "compile_operation cd c k i (LoadPort v) = Ok (push_val (PortVal v) c)"
| "compile_operation cd c k i (LoadStr v) = Ok (push_val (StrVal v) c)"
| "compile_operation cd c k i (LoadBytes v) = Ok (push_val (BytesVal v) c)"
| "compile_operation cd c k i (LoadDuration v) = Ok (push_val (DurationVal v) c)"
| "compile_operation cd c k i Connect = compile_connect c k i"
| "compile_operation cd c k i BeginBuildSetupConnection =
     Ok (push_val (SetupConnectionVal default_spec) c)"
| "compile_operation cd c k i SetVersions =
     andThen (read_input as_version c i 1) (\<lambda>lo.
     andThen (read_input as_version c i 2) (\<lambda>hi.
       update_input c i 0 (\<lambda>s. s\<lparr>min_version := lo, max_version := hi\<rparr>)))"
| "compile_operation cd c k i SetFlags =
     andThen (read_input as_flags c i 1) (\<lambda>f.
       update_input c i 0 (\<lambda>s. s\<lparr>flags := f\<rparr>))"
| "compile_operation cd c k i SetEndpoint =
     andThen (read_input as_str c i 1) (\<lambda>host.
     andThen (read_input as_port c i 2) (\<lambda>port.
       update_input c i 0 (\<lambda>s. s\<lparr>endpoint_host := host, endpoint_port := port\<rparr>)))"
| "compile_operation cd c k i SetDeviceInfo =
     andThen (read_input as_str c i 1) (\<lambda>ven.
     andThen (read_input as_str c i 2) (\<lambda>hw.
     andThen (read_input as_str c i 3) (\<lambda>fw.
     andThen (read_input as_str c i 4) (\<lambda>dev.
       update_input c i 0 (\<lambda>s. s\<lparr>vendor := ven, hardware_version := hw,
                                  firmware := fw, device_id := dev\<rparr>)))))"
| "compile_operation cd c k i (EndBuildSetupConnection p) =
     andThen (read_input as_setup c i 0) (\<lambda>s.
       Ok (push_val (SetupConnectionVal (s\<lparr>protocol := p\<rparr>)) c))"
| "compile_operation cd c k i (SendSetupConnection p) = compile_send_setup cd c k i p"
| "compile_operation cd c k i (BeginOnSetupSuccess _) = compile_begin_success c k i"
| "compile_operation cd c k i EndOnSetupSuccess = compile_end_success c k"
| "compile_operation cd c k i (SendRawFrame msg ext) = compile_raw_frame c k i msg ext"
| "compile_operation cd c k i AdvanceTime =
     andThen (read_input as_duration c i 0) (\<lambda>d. Ok (snd (push_action k (AAdvanceTime d) c)))"
| "compile_operation cd c k i Probe = Ok (snd (push_action k AProbe c))"

definition compile_instruction ::
  "codec \<Rightarrow> compiler \<Rightarrow> nat \<Rightarrow> instruction \<Rightarrow> (compiler_error, compiler) outcome" where
  "compile_instruction cd c k i = compile_operation cd c k i (operation i)"

section \<open>Compiling a program\<close>

fun compile_all ::
  "codec \<Rightarrow> compiler \<Rightarrow> nat \<Rightarrow> instruction list \<Rightarrow> (compiler_error, compiler) outcome" where
  "compile_all cd c k [] = Ok c"
| "compile_all cd c k (i # ins) =
     andThen (compile_instruction cd c k i) (\<lambda>c'. compile_all cd c' (k + 1) ins)"

definition start_compiler :: "program_context \<Rightarrow> compiler" where
  "start_compiler ctx =
     new_compiler\<lparr>connections := num_connections ctx, sent := {0..<num_connections ctx}\<rparr>"

definition compile :: "codec \<Rightarrow> program \<Rightarrow> (compiler_error, compiled_program) outcome" where
  "compile cd p =
     andThen (compile_all cd (start_compiler (prog_context p)) 0 (instructions p))
       (\<lambda>c. Ok \<lparr>comp_context = prog_context p, comp_actions = actions c,
                comp_metadata = metadata c\<rparr>)"
end
