(* ===== verification/Compiler_Blocks.thy ===== *)
theory Compiler_Blocks
  imports Compiler
begin

text \<open>
  What each instruction does to the compiler's state, and the shape of the action list: the
  conditional blocks nest, and every \<open>EnterOnSetupSuccess\<close> carries the position of the
  \<open>ExitBlock\<close> that closes it.
\<close>

section \<open>The effect of an instruction\<close>

text \<open>The operations that compile to values only.\<close>

fun is_quiet :: "operation \<Rightarrow> bool" where
  "is_quiet Connect = False"
| "is_quiet (SendSetupConnection _) = False"
| "is_quiet (BeginOnSetupSuccess _) = False"
| "is_quiet EndOnSetupSuccess = False"
| "is_quiet (SendRawFrame _ _) = False"
| "is_quiet AdvanceTime = False"
| "is_quiet Probe = False"
| "is_quiet _ = True"

lemma push_val_simps [simp]:
  "vals (push_val v c) = vals c @ [v]" "actions (push_val v c) = actions c"
  "metadata (push_val v c) = metadata c" "connections (push_val v c) = connections c"
  "sessions (push_val v c) = sessions c" "sent (push_val v c) = sent c"
  "raw_framed (push_val v c) = raw_framed c" "blocks (push_val v c) = blocks c"
  by (simp_all add: push_val_def)

lemma push_action_simps [simp]:
  "fst (push_action k a c) = length (actions c)"
  "vals (snd (push_action k a c)) = vals c"
  "actions (snd (push_action k a c)) = actions c @ [a]"
  "connections (snd (push_action k a c)) = connections c"
  "sessions (snd (push_action k a c)) = sessions c"
  "sent (snd (push_action k a c)) = sent c"
  "raw_framed (snd (push_action k a c)) = raw_framed c"
  "blocks (snd (push_action k a c)) = blocks c"
  "metadata (snd (push_action k a c)) =
     (metadata c)\<lparr>action_instructions := action_instructions (metadata c) @ [k]\<rparr>"
  by (simp_all add: push_action_def)

lemma note_violations_simps [simp]:
  "vals (note_violations a vs c) = vals c" "actions (note_violations a vs c) = actions c"
  "connections (note_violations a vs c) = connections c"
  "sessions (note_violations a vs c) = sessions c" "sent (note_violations a vs c) = sent c"
  "raw_framed (note_violations a vs c) = raw_framed c"
  "blocks (note_violations a vs c) = blocks c"
  "metadata (note_violations a vs c) =
     (metadata c)\<lparr>violations :=
        (if vs = [] then violations (metadata c) else (violations (metadata c))(a \<mapsto> vs))\<rparr>"
  by (simp_all add: note_violations_def)

lemma update_setup_Ok:
  "update_setup c x f = Ok c' \<longleftrightarrow>
   (\<exists>s. read_as as_setup c x = Ok s \<and> c' = c\<lparr>vals := (vals c)[x := SetupConnectionVal (f s)]\<rparr>)"
  by (auto simp: update_setup_def)

lemma quiet_effect:
  assumes "compile_operation cd c k i op = Ok c'" and "is_quiet op"
  shows "c' = c\<lparr>vals := vals c'\<rparr>"
  using assms by (cases op) (auto simp: update_input_def update_setup_Ok push_val_def)

lemma quiet_same:
  assumes "compile_operation cd c k i op = Ok c'" and "is_quiet op"
  shows "actions c' = actions c" "metadata c' = metadata c" "connections c' = connections c"
    "sessions c' = sessions c" "sent c' = sent c" "raw_framed c' = raw_framed c"
    "blocks c' = blocks c"
  by (subst quiet_effect [OF assms], simp)+

lemma connect_effect:
  assumes "compile_operation cd c k i Connect = Ok c'"
  obtains r where "read_input as_role c i 0 = Ok r"
    "c' = c\<lparr>vals := vals c @ [ConnectionVal (connections c)],
            actions := actions c @ [AConnect (connections c) r],
            metadata := (metadata c)
              \<lparr>action_instructions := action_instructions (metadata c) @ [k],
               connection_variables :=
                 (connection_variables (metadata c))(connections c \<mapsto> length (vals c))\<rparr>,
            connections := connections c + 1\<rparr>"
  using assms by (auto simp: compile_connect_def Let_def push_action_def push_val_def)

definition setup_violations :: "bool \<Rightarrow> bool \<Rightarrow> client_violation list" where
  "setup_violations first_on raw =
     (if first_on then [] else [SetupNotFirst]) @ (if raw then [RawFrameBefore] else [])"

lemma setup_violations_Nil [simp]: "setup_violations f r = [] \<longleftrightarrow> f \<and> \<not> r"
  by (simp add: setup_violations_def)

lemma send_setup_effect:
  assumes "compile_operation cd c k i (SendSetupConnection p) = Ok c'"
  obtains conn spec payload where "read_input as_connection c i 0 = Ok conn"
    "read_input as_setup c i 1 = Ok spec" "encode_setup_connection cd spec (inputs i ! 1) = Ok payload"
    "c' = c\<lparr>vals := vals c @ [SetupAttemptVal (sessions c) conn],
            actions := actions c @
              [ASend conn 0 (message_type_setup_connection cd) False payload,
               AAwaitSetupResponse conn (sessions c) p (conn \<notin> sent c)],
            metadata := (metadata c)
              \<lparr>action_instructions := action_instructions (metadata c) @ [k, k],
               session_variables := (session_variables (metadata c))(sessions c \<mapsto> length (vals c)),
               session_setups := (session_setups (metadata c))(sessions c \<mapsto> spec),
               violations :=
                 (let vs = setup_violations (conn \<notin> sent c) (conn \<in> raw_framed c)
                  in if vs = [] then violations (metadata c)
                     else (violations (metadata c))(Suc (length (actions c)) \<mapsto> vs))\<rparr>,
            sessions := sessions c + 1, sent := insert conn (sent c)\<rparr>"
proof -
  have rd: "read_input as_setup (c\<lparr>sent := S\<rparr>) i (Suc 0) = read_input as_setup c i (Suc 0)" for S
    by (simp add: read_input_def read_as_def [abs_def] val_at_def)
  from assms obtain conn spec payload where *: "read_input as_connection c i 0 = Ok conn"
    "read_input as_setup c i 1 = Ok spec" "encode_setup_connection cd spec (inputs i ! 1) = Ok payload"
    by (auto simp: compile_send_setup_def Let_def rd)
  moreover from * assms have "1 < length (inputs i)"
    by (auto simp: read_input_def)
  ultimately show ?thesis using assms that
    by (auto simp: compile_send_setup_def Let_def rd push_action_def push_val_def
        note_violations_def setup_violations_def split: if_splits)
qed

lemma begin_success_effect:
  assumes "compile_operation cd c k i (BeginOnSetupSuccess p) = Ok c'"
  obtains s conn where "read_input as_attempt c i 0 = Ok (s, conn)"
    "c' = c\<lparr>vals := vals c @ [SessionVal],
            actions := actions c @ [AEnterOnSetupSuccess s action_id_max],
            metadata := (metadata c)
              \<lparr>action_instructions := action_instructions (metadata c) @ [k]\<rparr>,
            blocks := length (actions c) # blocks c\<rparr>"
  using assms by (auto simp: compile_begin_success_def Let_def push_action_def push_val_def)

lemma end_success_effect:
  assumes "compile_operation cd c k i EndOnSetupSuccess = Ok c'"
  obtains enter rest s m where "blocks c = enter # rest"
    "enter < Suc (length (actions c))"
    "(actions c @ [AExitBlock]) ! enter = AEnterOnSetupSuccess s m"
    "c' = c\<lparr>actions := (actions c @ [AExitBlock])
                         [enter := AEnterOnSetupSuccess s (length (actions c))],
            metadata := (metadata c)
              \<lparr>action_instructions := action_instructions (metadata c) @ [k]\<rparr>,
            blocks := rest\<rparr>"
  using assms
  by (auto simp: compile_end_success_def Let_def push_action_def split: list.splits action.splits)

lemma raw_frame_effect:
  assumes "compile_operation cd c k i (SendRawFrame msg ext) = Ok c'"
  obtains conn payload where "read_input as_connection c i 0 = Ok conn"
    "read_input as_bytes c i 1 = Ok payload"
    "c' = c\<lparr>actions := actions c @ [ASend conn ext msg False payload],
            metadata := (metadata c)
              \<lparr>action_instructions := action_instructions (metadata c) @ [k]\<rparr>,
            sent := insert conn (sent c), raw_framed := insert conn (raw_framed c)\<rparr>"
  using assms by (auto simp: compile_raw_frame_def Let_def push_action_def)

lemma advance_effect:
  assumes "compile_operation cd c k i AdvanceTime = Ok c'"
  obtains d where "read_input as_duration c i 0 = Ok d"
    "c' = c\<lparr>actions := actions c @ [AAdvanceTime d],
            metadata := (metadata c)
              \<lparr>action_instructions := action_instructions (metadata c) @ [k]\<rparr>\<rparr>"
  using assms by (auto simp: push_action_def)

lemma probe_effect:
  assumes "compile_operation cd c k i Probe = Ok c'"
  shows "c' = c\<lparr>actions := actions c @ [AProbe],
            metadata := (metadata c)
              \<lparr>action_instructions := action_instructions (metadata c) @ [k]\<rparr>\<rparr>"
  using assms by (auto simp: push_action_def)

text \<open>An invariant of every step holds at the end of a compilation.\<close>

lemma compile_all_invariant:
  assumes "compile_all cd c n ins = Ok c'" and "I n c"
    and "\<And>k c c'. k < length ins \<Longrightarrow> I (n + k) c \<Longrightarrow>
           compile_instruction cd c (n + k) (ins ! k) = Ok c' \<Longrightarrow> I (Suc (n + k)) c'"
  shows "I (n + length ins) c'"
  using assms
proof (induction ins arbitrary: c n)
  case (Cons i ins)
  then obtain d where d: "compile_instruction cd c n i = Ok d" "compile_all cd d (Suc n) ins = Ok c'"
    by auto
  have "I (Suc n) d" using Cons.prems(3) [of 0] Cons.prems(2) d(1) by simp
  moreover have "I (Suc (Suc n + k)) e'"
    if "k < length ins" "I (Suc n + k) e" "compile_instruction cd e (Suc n + k) (ins ! k) = Ok e'"
    for k e e' using Cons.prems(3) [of "Suc k" e e'] that by simp
  ultimately show ?case using Cons.IH [OF d(2)] by simp
qed simp

section \<open>Nesting\<close>

fun is_enter :: "action \<Rightarrow> bool" where
  "is_enter (AEnterOnSetupSuccess _ _) = True"
| "is_enter _ = False"

text \<open>
  \<open>well_nested n w\<close>: the actions \<open>w\<close>, the first of which is action \<open>n\<close> of its program, are
  balanced, and every enter among them carries the number of its own exit.
\<close>

inductive well_nested :: "nat \<Rightarrow> action list \<Rightarrow> bool" where
  wn_nil: "well_nested n []"
| wn_plain: "well_nested n w \<Longrightarrow> \<not> is_enter a \<Longrightarrow> a \<noteq> AExitBlock \<Longrightarrow> well_nested n (w @ [a])"
| wn_block: "well_nested n w \<Longrightarrow> well_nested (Suc (n + length w)) b \<Longrightarrow>
     well_nested n (w @ AEnterOnSetupSuccess s (Suc (n + length w + length b)) # b @ [AExitBlock])"

text \<open>The same of an action list under construction, with the enters of its open blocks.\<close>

inductive opened :: "action list \<Rightarrow> nat list \<Rightarrow> bool" where
  opened_none: "well_nested 0 w \<Longrightarrow> opened w []"
| opened_more: "opened acts bs \<Longrightarrow> well_nested (Suc (length acts)) w \<Longrightarrow>
     opened (acts @ AEnterOnSetupSuccess s m # w) (length acts # bs)"

inductive_cases opened_NilE: "opened acts []"
inductive_cases opened_ConsE: "opened acts (e # bs)"

lemma opened_extend:
  assumes "opened acts bs"
    and "\<And>n w. well_nested n w \<Longrightarrow> n + length w = length acts \<Longrightarrow> well_nested n (w @ v)"
  shows "opened (acts @ v) bs"
  using assms
proof cases
  case opened_none
  then show ?thesis using assms(2) [of 0 acts] by (auto intro: opened.opened_none)
next
  case (opened_more acts' bs' w s m)
  have "well_nested (Suc (length acts')) (w @ v)"
    by (rule assms(2)) (simp_all add: opened_more)
  from opened.opened_more [OF opened_more(3) this] opened_more show ?thesis by simp
qed

lemma opened_plain: "opened acts bs \<Longrightarrow> \<not> is_enter a \<Longrightarrow> a \<noteq> AExitBlock \<Longrightarrow> opened (acts @ [a]) bs"
  by (erule opened_extend) (simp add: wn_plain)

lemma opened_plain2:
  "opened acts bs \<Longrightarrow> \<not> is_enter a \<Longrightarrow> a \<noteq> AExitBlock \<Longrightarrow> \<not> is_enter b \<Longrightarrow> b \<noteq> AExitBlock \<Longrightarrow>
   opened (acts @ [a, b]) bs"
  using opened_plain [of "acts @ [a]" bs b] opened_plain [of acts bs a] by simp

lemma opened_enter: "opened acts bs \<Longrightarrow> opened (acts @ [AEnterOnSetupSuccess s m]) (length acts # bs)"
  by (rule opened_more) (auto intro: wn_nil)

lemma opened_exit:
  assumes "opened acts (e # bs)"
  obtains s m where "e < length acts" "acts ! e = AEnterOnSetupSuccess s m"
    "opened ((acts @ [AExitBlock])[e := AEnterOnSetupSuccess s (length acts)]) bs"
proof -
  from assms obtain acts' w s m where *: "acts = acts' @ AEnterOnSetupSuccess s m # w"
    "e = length acts'" "opened acts' bs" "well_nested (Suc (length acts')) w"
    by (auto elim: opened_ConsE)
  let ?v = "AEnterOnSetupSuccess s (Suc (length acts' + length w)) # w @ [AExitBlock]"
  have "opened (acts' @ ?v) bs"
  proof (rule opened_extend [OF *(3)])
    fix n u assume "well_nested n u" "n + length u = length acts'"
    with *(4) show "well_nested n (u @ ?v)" using wn_block [of n u w s] by simp
  qed
  moreover have "acts' @ ?v = (acts @ [AExitBlock])[e := AEnterOnSetupSuccess s (length acts)]"
    by (simp add: *(1, 2) list_update_append)
  ultimately have "opened ((acts @ [AExitBlock])[e := AEnterOnSetupSuccess s (length acts)]) bs"
    by simp
  moreover have "e < length acts" "acts ! e = AEnterOnSetupSuccess s m" by (simp_all add: *(1, 2))
  ultimately show ?thesis using that by blast
qed

lemma compile_instruction_opened:
  assumes "compile_instruction cd c k i = Ok c'" and "opened (actions c) (blocks c)"
  shows "opened (actions c') (blocks c')"
proof -
  note op = assms(1) [unfolded compile_instruction_def]
  show ?thesis
  proof (cases "is_quiet (operation i)")
    case True
    with quiet_same [OF op] assms(2) show ?thesis by simp
  next
    case False
    then consider "operation i = Connect" | p where "operation i = SendSetupConnection p"
      | p where "operation i = BeginOnSetupSuccess p" | "operation i = EndOnSetupSuccess"
      | m e where "operation i = SendRawFrame m e" | "operation i = AdvanceTime"
      | "operation i = Probe"
      by (cases "operation i") auto
    then show ?thesis
    proof cases
      case 1
      from op [unfolded 1] show ?thesis
        by (rule connect_effect) (simp add: opened_plain assms(2))
    next
      case 2
      from op [unfolded 2] show ?thesis
        by (rule send_setup_effect) (simp add: opened_plain2 assms(2))
    next
      case 3
      from op [unfolded 3] show ?thesis
        by (rule begin_success_effect) (simp add: opened_enter assms(2))
    next
      case 4
      from op [unfolded 4] obtain e rest s m where *: "blocks c = e # rest"
        "(actions c @ [AExitBlock]) ! e = AEnterOnSetupSuccess s m"
        "actions c' = (actions c @ [AExitBlock])[e := AEnterOnSetupSuccess s (length (actions c))]"
        "blocks c' = rest"
        by (rule end_success_effect) auto
      from assms(2) [unfolded *(1)] obtain s' m' where "e < length (actions c)"
        "actions c ! e = AEnterOnSetupSuccess s' m'"
        "opened ((actions c @ [AExitBlock])[e := AEnterOnSetupSuccess s' (length (actions c))]) rest"
        by (rule opened_exit)
      with * show ?thesis by (simp add: nth_append)
    next
      case 5
      from op [unfolded 5] show ?thesis
        by (rule raw_frame_effect) (simp add: opened_plain assms(2))
    next
      case 6
      from op [unfolded 6] show ?thesis
        by (rule advance_effect) (simp add: opened_plain assms(2))
    next
      case 7
      from probe_effect [OF op [unfolded 7]] show ?thesis
        by (simp add: opened_plain assms(2))
    qed
  qed
qed

lemma start_compiler_simps [simp]:
  "vals (start_compiler ctx) = []" "actions (start_compiler ctx) = []"
  "blocks (start_compiler ctx) = []" "connections (start_compiler ctx) = num_connections ctx"
  "sessions (start_compiler ctx) = 0" "sent (start_compiler ctx) = {0..<num_connections ctx}"
  "raw_framed (start_compiler ctx) = {}" "metadata (start_compiler ctx) = default_metadata"
  by (simp_all add: start_compiler_def new_compiler_def)

lemma compile_all_opened:
  assumes "compile_all cd (start_compiler ctx) 0 ins = Ok c"
  shows "opened (actions c) (blocks c)"
proof (rule compile_all_invariant [OF assms, where I = "\<lambda>_ c. opened (actions c) (blocks c)"])
  show "opened (actions (start_compiler ctx)) (blocks (start_compiler ctx))"
    by (simp add: opened_none wn_nil)
qed (rule compile_instruction_opened)

text \<open>What a well-nested list says of each of its enters.\<close>

lemma well_nested_enter:
  "well_nested n w \<Longrightarrow> e < length w \<Longrightarrow> w ! e = AEnterOnSetupSuccess s x \<Longrightarrow>
   \<exists>pre b post. w = pre @ AEnterOnSetupSuccess s x # b @ AExitBlock # post \<and>
      length pre = e \<and> x = Suc (n + e + length b) \<and> well_nested (Suc (n + e)) b"
proof (induction arbitrary: e rule: well_nested.induct)
  case (wn_plain n w a)
  from wn_plain.prems wn_plain.hyps(2) have "e < length w"
    by (auto simp: nth_append less_Suc_eq split: if_splits)
  with wn_plain.IH [of e] wn_plain.prems(2) obtain pre b post where
    "w = pre @ AEnterOnSetupSuccess s x # b @ AExitBlock # post" "length pre = e"
    "x = Suc (n + e + length b)" "well_nested (Suc (n + e)) b"
    by (auto simp: nth_append)
  then show ?case by (intro exI [of _ pre] exI [of _ b] exI [of _ "post @ [a]"]) simp
next
  case (wn_block n w b s')
  let ?e = "AEnterOnSetupSuccess s' (Suc (n + length w + length b))"
  consider "e < length w" | "e = length w"
    | "length w < e" "e - Suc (length w) < length b" | "e = Suc (length w + length b)"
    using wn_block.prems(1) by simp linarith
  then show ?case
  proof cases
    case 1
    with wn_block.IH(1) [of e] wn_block.prems(2) obtain pre c post where
      "w = pre @ AEnterOnSetupSuccess s x # c @ AExitBlock # post" "length pre = e"
      "x = Suc (n + e + length c)" "well_nested (Suc (n + e)) c"
      by (auto simp: nth_append)
    then show ?thesis
      by (intro exI [of _ pre] exI [of _ c] exI [of _ "post @ ?e # b @ [AExitBlock]"]) simp
  next
    case 2
    with wn_block.prems(2) wn_block.hyps(2) show ?thesis
      by (intro exI [of _ w] exI [of _ b] exI [of _ "[]"]) simp
  next
    case 3
    define f where "f = e - Suc (length w)"
    with 3 have e: "e = Suc (length w + f)" "f < length b" by simp_all
    with wn_block.IH(2) [of f] wn_block.prems(2) obtain pre c post where
      "b = pre @ AEnterOnSetupSuccess s x # c @ AExitBlock # post" "length pre = f"
      "x = Suc (Suc (n + length w) + f + length c)" "well_nested (Suc (Suc (n + length w) + f)) c"
      by (auto simp: nth_append)
    with e show ?thesis
      by (intro exI [of _ "w @ ?e # pre"] exI [of _ c] exI [of _ "post @ [AExitBlock]"])
        (simp add: add.assoc add.left_commute)
  next
    case 4
    with wn_block.prems(2) show ?thesis by (simp add: nth_append)
  qed
qed simp
end
