(* ===== verification/Compiler_Sound.thy ===== *)
theory Compiler_Sound
  imports Compiler_Blocks
begin

text \<open>
  Type soundness of the compiler: on a statically valid program no input is missing, of the
  wrong shape or out of range and no block is unbalanced, so the compiler neither panics nor
  fails, except that a string longer than the wire allows is refused.
\<close>

section \<open>Values and types\<close>

definition short_strings :: "setup_connection_spec \<Rightarrow> bool" where
  "short_strings s \<longleftrightarrow>
     (\<forall>x \<in> {endpoint_host s, vendor s, hardware_version s, firmware s, device_id s}.
        length x \<le> 255)"

text \<open>
  \<open>has_type short ctx conns sess v ty\<close>: the value \<open>v\<close> has type \<open>ty\<close>, with \<open>conns\<close> connections
  and \<open>sess\<close> sessions made so far; with \<open>short\<close>, its strings fit the wire.
\<close>

fun has_type :: "bool \<Rightarrow> program_context \<Rightarrow> nat \<Rightarrow> nat \<Rightarrow> val \<Rightarrow> variable \<Rightarrow> bool" where
  "has_type short ctx conns sess v VNop = False"
| "has_type short ctx conns sess v VRole =
     (case v of RoleVal r \<Rightarrow> r < num_roles ctx | _ \<Rightarrow> False)"
| "has_type short ctx conns sess v VConnection =
     (case v of ConnectionVal n \<Rightarrow> n < conns | _ \<Rightarrow> False)"
| "has_type short ctx conns sess v (VSetupAttempt p) =
     (case v of SetupAttemptVal s n \<Rightarrow> s < sess \<and> n < conns | _ \<Rightarrow> False)"
| "has_type short ctx conns sess v (VSession p) = (v = SessionVal)"
| "has_type short ctx conns sess v VVersion = (as_version v \<noteq> None)"
| "has_type short ctx conns sess v VFlags = (as_flags v \<noteq> None)"
| "has_type short ctx conns sess v VPort = (as_port v \<noteq> None)"
| "has_type short ctx conns sess v VStr =
     (case v of StrVal s \<Rightarrow> short \<longrightarrow> length s \<le> 255 | _ \<Rightarrow> False)"
| "has_type short ctx conns sess v VBytes = (as_bytes v \<noteq> None)"
| "has_type short ctx conns sess v VDuration = (as_duration v \<noteq> None)"
| "has_type short ctx conns sess v VMutSetupConnection =
     (case v of SetupConnectionVal s \<Rightarrow> short \<longrightarrow> short_strings s | _ \<Rightarrow> False)"
| "has_type short ctx conns sess v (VConstSetupConnection p) =
     (case v of SetupConnectionVal s \<Rightarrow> protocol s = p \<and> (short \<longrightarrow> short_strings s) | _ \<Rightarrow> False)"

lemma has_type_D:
  "has_type b ctx n m v VRole \<Longrightarrow> \<exists>r. v = RoleVal r \<and> r < num_roles ctx"
  "has_type b ctx n m v VConnection \<Longrightarrow> \<exists>x. v = ConnectionVal x \<and> x < n"
  "has_type b ctx n m v (VSetupAttempt p) \<Longrightarrow> \<exists>s x. v = SetupAttemptVal s x \<and> s < m \<and> x < n"
  "has_type b ctx n m v VVersion \<Longrightarrow> \<exists>x. v = VersionVal x"
  "has_type b ctx n m v VFlags \<Longrightarrow> \<exists>x. v = FlagsVal x"
  "has_type b ctx n m v VPort \<Longrightarrow> \<exists>x. v = PortVal x"
  "has_type b ctx n m v VStr \<Longrightarrow> \<exists>s. v = StrVal s \<and> (b \<longrightarrow> length s \<le> 255)"
  "has_type b ctx n m v VBytes \<Longrightarrow> \<exists>x. v = BytesVal x"
  "has_type b ctx n m v VDuration \<Longrightarrow> \<exists>x. v = DurationVal x"
  "has_type b ctx n m v VMutSetupConnection \<Longrightarrow>
     \<exists>s. v = SetupConnectionVal s \<and> (b \<longrightarrow> short_strings s)"
  "has_type b ctx n m v (VConstSetupConnection p) \<Longrightarrow>
     \<exists>s. v = SetupConnectionVal s \<and> protocol s = p \<and> (b \<longrightarrow> short_strings s)"
  by (cases v; simp)+

lemma has_type_mono:
  "has_type b ctx n m v ty \<Longrightarrow> n \<le> n' \<Longrightarrow> m \<le> m' \<Longrightarrow> has_type b ctx n' m' v ty"
  by (cases v; cases ty) auto

lemma has_type_update:
  "has_type b ctx n m (SetupConnectionVal s) ty \<Longrightarrow> protocol s' = protocol s \<Longrightarrow>
   (b \<longrightarrow> short_strings s') \<Longrightarrow> has_type b ctx n m (SetupConnectionVal s') ty"
  by (cases ty) auto

lemma has_type_short: "has_type b ctx n m (SetupConnectionVal s) ty \<Longrightarrow> b \<Longrightarrow> short_strings s"
  by (cases ty) auto

section \<open>The relation between typing and compiling\<close>

abbreviation typed_in :: "bool \<Rightarrow> program_context \<Rightarrow> compiler \<Rightarrow> val \<Rightarrow> variable \<Rightarrow> bool" where
  "typed_in b ctx c \<equiv> has_type b ctx (connections c) (sessions c)"

definition values_typed :: "bool \<Rightarrow> program_context \<Rightarrow> frame list \<Rightarrow> compiler \<Rightarrow> val list \<Rightarrow> bool" where
  "values_typed b ctx fs c vs \<longleftrightarrow> (\<forall>x v. in_scope fs x v \<longrightarrow> typed_in b ctx c (vs ! x) v)"

definition success_frames :: "frame list \<Rightarrow> nat" where
  "success_frames fs = length (filter (\<lambda>fr. \<exists>p. fst fr = Some (BeginOnSetupSuccess p)) fs)"

definition compiles_as :: "bool \<Rightarrow> program_context \<Rightarrow> typing_state \<Rightarrow> compiler \<Rightarrow> bool" where
  "compiles_as b ctx t c \<longleftrightarrow>
     length (vals c) = next_var t \<and> values_typed b ctx (frames t) c (vals c) \<and>
     length (blocks c) = success_frames (frames t) \<and> opened (actions c) (blocks c) \<and>
     num_connections ctx \<le> connections c"

lemma in_scope_step:
  assumes "wt_step ctx t i t'" and "in_scope (frames t') x v"
  shows "in_scope (frames t) x v \<or>
    (\<not> is_nop (operation i) \<and> next_var t \<le> x \<and>
     x < next_var t + num_defined (operation i) \<and>
     v = (get_output_variables (operation i) @ get_inner_output_variables (operation i))
           ! (x - next_var t))"
proof -
  have new: "(x, v) \<in> outer_vars n op \<or> (x, v) \<in> inner_vars n op \<Longrightarrow>
    \<not> is_nop op \<and> n \<le> x \<and> x < n + num_defined op \<and>
    v = (get_output_variables op @ get_inner_output_variables op) ! (x - n)" for n op
    by (auto simp: outer_vars_def inner_vars_def in_set_enumerate nth_append num_outputs_def
        num_inner_outputs_def split: if_splits)
  from assms have "in_scope (frames t) x v \<or> (x, v) \<in> outer_vars (next_var t) (operation i)
      \<or> (x, v) \<in> inner_vars (next_var t) (operation i)"
    by cases (auto simp: in_scope_def)
  with new show ?thesis by blast
qed

lemma success_frames_step:
  assumes "wt_step ctx t i t'"
  shows "success_frames (frames t') =
    (case operation i of
       BeginOnSetupSuccess _ \<Rightarrow> Suc (success_frames (frames t))
     | EndOnSetupSuccess \<Rightarrow> success_frames (frames t) - 1
     | _ \<Rightarrow> success_frames (frames t))"
    "operation i = EndOnSetupSuccess \<Longrightarrow> 0 < success_frames (frames t)"
  using assms
  by (cases; cases "operation i"; auto simp: success_frames_def elim: is_matching_block_begin.elims)+

text \<open>Values that extend the ones before, typed as the operation says.\<close>

lemma values_typed_step:
  assumes "wt_step ctx t i t'" and "values_typed b ctx (frames t) c' vs"
    and "length vs = next_var t" and "frames_below t"
    and "length new = num_defined (operation i)"
    and "\<not> is_nop (operation i) \<Longrightarrow> list_all2 (typed_in b ctx c') new
           (get_output_variables (operation i) @ get_inner_output_variables (operation i))"
  shows "values_typed b ctx (frames t') c' (vs @ new)"
  unfolding values_typed_def
proof (intro allI impI)
  fix x v assume "in_scope (frames t') x v"
  from in_scope_step [OF assms(1) this] show "typed_in b ctx c' ((vs @ new) ! x) v"
  proof
    assume "in_scope (frames t) x v"
    moreover from this assms(3, 4) have "x < length vs" by (auto simp: frames_below_def)
    ultimately show ?thesis using assms(2) by (simp add: values_typed_def nth_append)
  next
    let ?tys = "get_output_variables (operation i) @ get_inner_output_variables (operation i)"
    assume "\<not> is_nop (operation i) \<and> next_var t \<le> x \<and> x < next_var t + num_defined (operation i) \<and>
      v = ?tys ! (x - next_var t)"
    then have x: "\<not> is_nop (operation i)" "next_var t \<le> x" "x - next_var t < length new"
      "v = ?tys ! (x - next_var t)" using assms(5) by auto
    from list_all2_nthD [OF assms(6) [OF x(1)] x(3)]
    show ?thesis using x assms(3) by (simp add: nth_append)
  qed
qed

lemma input_typed:
  assumes "compiles_as b ctx t c" and "frames_below t" and "wt_inputs (frames t) i"
    and "k < length (get_input_variables (operation i))"
  shows "k < length (inputs i)" "inputs i ! k < length (vals c)"
    "typed_in b ctx c (vals c ! (inputs i ! k)) (get_input_variables (operation i) ! k)"
proof -
  from assms(3, 4) show "k < length (inputs i)" by (simp add: wt_inputs_def list_all2_conv_all_nth)
  with assms(3, 4) have sc: "in_scope (frames t) (inputs i ! k) (get_input_variables (operation i) ! k)"
    by (simp add: wt_inputs_def list_all2_conv_all_nth)
  with assms(1, 2) show "inputs i ! k < length (vals c)"
    by (auto simp: frames_below_def compiles_as_def)
  from sc assms(1) show "typed_in b ctx c (vals c ! (inputs i ! k)) (get_input_variables (operation i) ! k)"
    by (simp add: compiles_as_def values_typed_def)
qed

lemma read_input_eq:
  "k < length (inputs i) \<Longrightarrow> inputs i ! k < length (vals c) \<Longrightarrow>
   read_input shape c i k =
     (case shape (vals c ! (inputs i ! k)) of
        Some a \<Rightarrow> Ok a | None \<Rightarrow> Err (UnexpectedValue (inputs i ! k)))"
  by (simp add: read_input_def read_as_def val_at_def index_def get_def)

section \<open>One instruction\<close>

text \<open>Writing through a reference to a message keeps the types.\<close>

lemma values_typed_update:
  assumes "values_typed b ctx fs c vs" and "x < length vs" and "vs ! x = SetupConnectionVal s"
    and "protocol s' = protocol s" and "b \<Longrightarrow> short_strings s \<Longrightarrow> short_strings s'"
  shows "values_typed b ctx fs c (vs[x := SetupConnectionVal s'])"
  unfolding values_typed_def
proof (intro allI impI)
  fix y v assume "in_scope fs y v"
  with assms(1) have *: "typed_in b ctx c (vs ! y) v" by (simp add: values_typed_def)
  show "typed_in b ctx c (vs[x := SetupConnectionVal s'] ! y) v"
  proof (cases "y = x")
    case True
    with * assms(3) have "typed_in b ctx c (SetupConnectionVal s) v" by simp
    from has_type_update [OF this assms(4)] has_type_short [OF this] assms(5) True assms(2)
    show ?thesis by simp
  qed (use * in simp)
qed

lemma compiles_as_intro:
  assumes "compiles_as b ctx t c" and "wt_step ctx t i t'" and "frames_below t"
    and "vals c' = vs @ new" and "length vs = next_var t"
    and "values_typed b ctx (frames t) c' vs"
    and "length new = num_defined (operation i)"
    and "\<not> is_nop (operation i) \<Longrightarrow> list_all2 (typed_in b ctx c') new
           (get_output_variables (operation i) @ get_inner_output_variables (operation i))"
    and "compile_instruction cd c k i = Ok c'" and "connections c \<le> connections c'"
    and "length (blocks c') = success_frames (frames t')"
  shows "compiles_as b ctx t' c'"
  using assms values_typed_step [OF assms(2, 6, 5, 3, 7, 8)]
    compile_instruction_opened [OF assms(9)] wt_step_next [OF assms(2)]
  by (simp add: compiles_as_def)

lemma values_typed_more:
  assumes "values_typed b ctx fs c vs"
    and "connections c \<le> connections c'" "sessions c \<le> sessions c'"
  shows "values_typed b ctx fs c' vs"
  using assms has_type_mono unfolding values_typed_def by blast

text \<open>The operations that write to a message under construction.\<close>

lemma compile_setter:
  assumes "compiles_as b ctx t c" and "wt_step ctx t i t'" and "frames_below t"
    and "compile_instruction cd c k i = update_input c i 0 f"
    and "\<not> is_nop (operation i)" "num_defined (operation i) = 0" "is_quiet (operation i)"
    and "get_input_variables (operation i) = VMutSetupConnection # tys"
    and "\<And>s. protocol (f s) = protocol s" "\<And>s. b \<Longrightarrow> short_strings s \<Longrightarrow> short_strings (f s)"
    and "success_frames (frames t') = success_frames (frames t)"
  shows "\<exists>c'. compile_instruction cd c k i = Ok c' \<and> compiles_as b ctx t' c'"
proof -
  note inp = input_typed [OF assms(1, 3) wt_step_inputs(1) [OF assms(2)], of 0,
      unfolded assms(8), simplified]
  let ?x = "inputs i ! 0"
  from inp(3) obtain s where s: "vals c ! ?x = SetupConnectionVal s"
    by (auto split: val.splits)
  let ?vs = "(vals c)[?x := SetupConnectionVal (f s)]"
  let ?c = "c\<lparr>vals := ?vs\<rparr>"
  have ok: "compile_instruction cd c k i = Ok ?c"
    using inp(1, 2) s
    by (simp add: assms(4) update_input_def update_setup_Ok index_def read_as_def val_at_def get_def)
  have "values_typed b ctx (frames t) ?c ?vs"
    using values_typed_update [of b ctx "frames t" c "vals c" ?x s "f s"] inp(2) s assms(1, 9, 10)
    by (simp add: compiles_as_def values_typed_def)
  then have "compiles_as b ctx t' ?c"
    using assms(1, 6, 11) compiles_as_intro [OF assms(1-3), of ?c ?vs "[]"] ok
    by (simp add: compiles_as_def num_outputs_def num_inner_outputs_def)
  with ok show ?thesis by blast
qed

text \<open>The operations that define one variable and compile to no action.\<close>

lemma compile_pusher:
  assumes "compiles_as b ctx t c" and "wt_step ctx t i t'" and "frames_below t"
    and "compile_instruction cd c k i = Ok (push_val v c)"
    and "get_output_variables (operation i) @ get_inner_output_variables (operation i) = [ty]"
    and "typed_in b ctx c v ty"
    and "success_frames (frames t') = success_frames (frames t)"
  shows "\<exists>c'. compile_instruction cd c k i = Ok c' \<and> compiles_as b ctx t' c'"
proof -
  have "num_defined (operation i) = 1"
    using arg_cong [OF assms(5), of length] by (simp add: num_outputs_def num_inner_outputs_def)
  moreover have "values_typed b ctx (frames t) (push_val v c) (vals c)"
    using assms(1) by (simp add: compiles_as_def values_typed_def)
  ultimately have "compiles_as b ctx t' (push_val v c)"
    using compiles_as_intro [OF assms(1-3), of "push_val v c" "vals c" "[v]"] assms
    by (simp add: compiles_as_def)
  with assms(4) show ?thesis by blast
qed

lemma encode_total:
  assumes "codec_ok cd"
  shows "(\<exists>out. encode_setup_connection cd s x = Ok out) \<or>
    encode_setup_connection cd s x = Err (StringTooLong x) \<and> \<not> short_strings s"
proof -
  have "protocol_accepts cd (protocol_id (protocol s))"
    using assms by (cases "protocol s") (auto simp: codec_ok_def)
  moreover have "\<exists>out. encode cd m = Ok out" for m
    using assms length_replicate unfolding codec_ok_def encode_def map_err_eq_Ok by metis
  ultimately show ?thesis using assms
    by (auto simp: encode_setup_connection_def str0_255_def codec_ok_def short_strings_def not_le)
qed

text \<open>
  One instruction of a well-typed program compiles, unless it sends a message with a string
  that does not fit the wire.
\<close>

definition step_compiles ::
  "bool \<Rightarrow> program_context \<Rightarrow> typing_state \<Rightarrow> codec \<Rightarrow> compiler \<Rightarrow> nat \<Rightarrow> instruction \<Rightarrow> bool" where
  "step_compiles b ctx t' cd c k i \<longleftrightarrow>
     (\<exists>c'. compile_instruction cd c k i = Ok c' \<and> compiles_as b ctx t' c') \<or>
     (\<not> b \<and> (\<exists>x. compile_instruction cd c k i = Err (StringTooLong x)))"

definition step_ready ::
  "bool \<Rightarrow> program_context \<Rightarrow> typing_state \<Rightarrow> typing_state \<Rightarrow> codec \<Rightarrow> compiler \<Rightarrow> instruction \<Rightarrow> bool"
  where
  "step_ready b ctx t t' cd c i \<longleftrightarrow>
     compiles_as b ctx t c \<and> wt_step ctx t i t' \<and> frames_below t \<and> codec_ok cd \<and>
     (b \<longrightarrow> (\<forall>s. operation i = LoadStr s \<longrightarrow> length s \<le> 255))"

lemma step_ready_input:
  assumes "step_ready b ctx t t' cd c i" and "k < length (get_input_variables (operation i))"
  shows "k < length (inputs i)" "inputs i ! k < length (vals c)"
    "typed_in b ctx c (vals c ! (inputs i ! k)) (get_input_variables (operation i) ! k)"
    "read_input shape c i k =
       (case shape (vals c ! (inputs i ! k)) of
          Some a \<Rightarrow> Ok a | None \<Rightarrow> Err (UnexpectedValue (inputs i ! k)))"
  using assms input_typed [of b ctx t c i k] wt_step_inputs(1) [of ctx t i t']
  by (auto simp: step_ready_def intro!: read_input_eq)

text \<open>The operations that push actions: their result keeps the relation.\<close>

lemma step_compiles_intro:
  assumes "step_ready b ctx t t' cd c i" and "compile_instruction cd c k i = Ok c'"
    and "vals c' = vals c @ new"
    and "get_output_variables (operation i) @ get_inner_output_variables (operation i) = tys"
    and "length new = length tys"
    and "\<not> is_nop (operation i) \<Longrightarrow> list_all2 (typed_in b ctx c') new tys"
    and "connections c \<le> connections c'" "sessions c \<le> sessions c'"
    and "length (blocks c') = success_frames (frames t')"
  shows "step_compiles b ctx t' cd c k i"
proof -
  have rel: "compiles_as b ctx t c" and "wt_step ctx t i t'" "frames_below t"
    using assms(1) by (auto simp: step_ready_def)
  moreover have "values_typed b ctx (frames t) c' (vals c)"
    using rel assms(7, 8) values_typed_more by (auto simp: compiles_as_def)
  moreover have "num_defined (operation i) = length tys"
    using arg_cong [OF assms(4), of length] by (simp add: num_outputs_def num_inner_outputs_def)
  ultimately have "compiles_as b ctx t' c'"
    using compiles_as_intro [of b ctx t c i t' c' "vals c" new] assms
    by (simp add: compiles_as_def)
  with assms(2) show ?thesis by (auto simp: step_compiles_def)
qed

lemma compile_send_setup_ok:
  assumes "step_ready b ctx t t' cd c i" and "operation i = SendSetupConnection p"
  shows "step_compiles b ctx t' cd c k i"
proof -
  note r = step_ready_input [OF assms(1)]
  from r(3) [of 0] obtain conn where conn: "vals c ! (inputs i ! 0) = ConnectionVal conn"
    "conn < connections c" by (auto simp: assms(2) split: val.splits)
  from r(3) [of 1] obtain spec where spec: "vals c ! (inputs i ! 1) = SetupConnectionVal spec"
    "b \<longrightarrow> short_strings spec" by (auto simp: assms(2) split: val.splits)
  have ins: "read_input as_connection c i 0 = Ok conn"
    "read_input as_setup (c\<lparr>sent := insert conn (sent c)\<rparr>) i (Suc 0) = Ok spec"
    "Suc 0 < length (inputs i)"
    using r(1, 2, 4) [of 0] r(1, 2, 4) [of 1] conn spec assms(2)
    by (auto simp: read_input_eq)
  from encode_total [of cd spec "inputs i ! 1"] assms(1)
  consider out where "encode_setup_connection cd spec (inputs i ! 1) = Ok out"
    | "encode_setup_connection cd spec (inputs i ! 1) = Err (StringTooLong (inputs i ! 1))"
      "\<not> short_strings spec"
    by (auto simp: step_ready_def)
  then show ?thesis
  proof cases
    case 1
    with ins obtain c' where c': "compile_operation cd c k i (SendSetupConnection p) = Ok c'"
      by (simp add: compile_send_setup_def Let_def case_prod_beta)
    from ins have conn': "read_input as_connection c i 0 = Ok x \<Longrightarrow> x = conn" for x by simp
    show ?thesis
    proof (rule send_setup_effect [OF c'])
      fix x spec' payload
      assume "read_input as_connection c i 0 = Ok x" and eq: "c' = c\<lparr>vals := vals c @ [SetupAttemptVal (sessions c) x],
            actions := actions c @
              [ASend x 0 (message_type_setup_connection cd) False payload,
               AAwaitSetupResponse x (sessions c) p (x \<notin> sent c)],
            metadata := (metadata c)
              \<lparr>action_instructions := action_instructions (metadata c) @ [k, k],
               session_variables := (session_variables (metadata c))(sessions c \<mapsto> length (vals c)),
               session_setups := (session_setups (metadata c))(sessions c \<mapsto> spec'),
               violations :=
                 (let vs = setup_violations (x \<notin> sent c) (x \<in> raw_framed c)
                  in if vs = [] then violations (metadata c)
                     else (violations (metadata c))(Suc (length (actions c)) \<mapsto> vs))\<rparr>,
            sessions := sessions c + 1, sent := insert x (sent c)\<rparr>"
      then have "x = conn" using conn' by blast
      with eq conn assms show ?thesis
        using success_frames_step(1) [of ctx t i t'] c'
        by (intro step_compiles_intro [OF assms(1), where new = "[SetupAttemptVal (sessions c) x]"])
          (auto simp: compile_instruction_def step_ready_def compiles_as_def)
    qed
  next
    case 2
    with ins spec have "compile_operation cd c k i (SendSetupConnection p) =
        Err (StringTooLong (inputs i ! 1))"
      by (auto simp: compile_send_setup_def Let_def case_prod_beta index_def)
    with 2 spec assms(2) show ?thesis by (auto simp: step_compiles_def compile_instruction_def)
  qed
qed

lemma compile_connect_ok:
  assumes "step_ready b ctx t t' cd c i" and "operation i = Connect"
  shows "step_compiles b ctx t' cd c k i"
proof -
  note r = step_ready_input [OF assms(1), of 0]
  from r(3) obtain ro where ro: "vals c ! (inputs i ! 0) = RoleVal ro"
    by (auto simp: assms(2) split: val.splits)
  with r(4) [where shape = as_role] have "read_input as_role c i 0 = Ok ro"
    by (simp add: assms(2))
  then obtain c' where c': "compile_operation cd c k i Connect = Ok c'"
    by (auto simp: compile_connect_def Let_def)
  from c' show ?thesis
    using assms success_frames_step(1) [of ctx t i t']
    by (elim connect_effect, intro step_compiles_intro [OF assms(1), where
          new = "[ConnectionVal (connections c)]" and c' = c'])
      (auto simp: compile_instruction_def step_ready_def compiles_as_def)
qed

lemma compile_begin_success_ok:
  assumes "step_ready b ctx t t' cd c i" and "operation i = BeginOnSetupSuccess p"
  shows "step_compiles b ctx t' cd c k i"
proof -
  note r = step_ready_input [OF assms(1), of 0]
  from r(3) obtain s n where "vals c ! (inputs i ! 0) = SetupAttemptVal s n"
    by (auto simp: assms(2) split: val.splits)
  with r(4) [where shape = as_attempt] have "read_input as_attempt c i 0 = Ok (s, n)"
    by (simp add: assms(2))
  then obtain c' where c': "compile_operation cd c k i (BeginOnSetupSuccess p) = Ok c'"
    by (auto simp: compile_begin_success_def Let_def case_prod_beta)
  from c' show ?thesis
    using assms success_frames_step(1) [of ctx t i t']
    by (elim begin_success_effect, intro step_compiles_intro [OF assms(1), where
          new = "[SessionVal]" and c' = c'])
      (auto simp: compile_instruction_def step_ready_def compiles_as_def)
qed

lemma compile_end_success_ok:
  assumes "step_ready b ctx t t' cd c i" and "operation i = EndOnSetupSuccess"
  shows "step_compiles b ctx t' cd c k i"
proof -
  have pre: "length (blocks c) = success_frames (frames t)" "opened (actions c) (blocks c)"
    "wt_step ctx t i t'" using assms(1) by (auto simp: step_ready_def compiles_as_def)
  with success_frames_step(2) [OF pre(3) assms(2)] obtain e rest where e: "blocks c = e # rest"
    by (cases "blocks c") auto
  from pre(2) [unfolded e] obtain s m where
    en: "e < length (actions c)" "actions c ! e = AEnterOnSetupSuccess s m"
    by (rule opened_exit)
  then obtain c' where c': "compile_operation cd c k i EndOnSetupSuccess = Ok c'"
    using e by (simp add: compile_end_success_def case_prod_beta Let_def nth_append index_def)
  from c' show ?thesis
    using assms success_frames_step(1) [OF pre(3)] pre(1)
    by (elim end_success_effect, intro step_compiles_intro [OF assms(1), where
          new = "[]" and c' = c']) (auto simp: compile_instruction_def)
qed

lemma compile_raw_frame_ok:
  assumes "step_ready b ctx t t' cd c i" and "operation i = SendRawFrame msg ext"
  shows "step_compiles b ctx t' cd c k i"
proof -
  note r = step_ready_input [OF assms(1), of 0] step_ready_input [OF assms(1), of 1]
  from r(3) obtain n where n: "vals c ! (inputs i ! 0) = ConnectionVal n"
    by (auto simp: assms(2) split: val.splits)
  from r(7) obtain u where u: "vals c ! (inputs i ! 1) = BytesVal u"
    by (cases "vals c ! (inputs i ! 1)") (auto simp: assms(2))
  from n u r(4) [where shape = as_connection] r(8) [where shape = as_bytes]
  have "read_input as_connection c i 0 = Ok n" "read_input as_bytes c i 1 = Ok u"
    by (simp_all add: assms(2))
  then obtain c' where c': "compile_operation cd c k i (SendRawFrame msg ext) = Ok c'"
    by (auto simp: compile_raw_frame_def Let_def)
  from c' show ?thesis
    using assms success_frames_step(1) [of ctx t i t']
    by (elim raw_frame_effect, intro step_compiles_intro [OF assms(1), where
          new = "[]" and c' = c'])
      (auto simp: compile_instruction_def step_ready_def compiles_as_def)
qed

lemma compile_advance_ok:
  assumes "step_ready b ctx t t' cd c i" and "operation i = AdvanceTime"
  shows "step_compiles b ctx t' cd c k i"
proof -
  note r = step_ready_input [OF assms(1), of 0]
  from r(3) obtain d where "vals c ! (inputs i ! 0) = DurationVal d"
    by (cases "vals c ! (inputs i ! 0)") (auto simp: assms(2))
  with r(4) [where shape = as_duration] have "read_input as_duration c i 0 = Ok d"
    by (simp add: assms(2))
  then obtain c' where c': "compile_operation cd c k i AdvanceTime = Ok c'" by auto
  from c' show ?thesis
    using assms success_frames_step(1) [of ctx t i t']
    by (elim advance_effect, intro step_compiles_intro [OF assms(1), where
          new = "[]" and c' = c'])
      (auto simp: compile_instruction_def step_ready_def compiles_as_def)
qed

lemma compile_probe_ok:
  assumes "step_ready b ctx t t' cd c i" and "operation i = Probe"
  shows "step_compiles b ctx t' cd c k i"
  using assms success_frames_step(1) [of ctx t i t']
  by (intro step_compiles_intro [OF assms(1), where new = "[]" and c' = "snd (push_action k AProbe c)"])
    (auto simp: compile_instruction_def step_ready_def compiles_as_def)

lemma compile_end_build_ok:
  assumes "step_ready b ctx t t' cd c i" and "operation i = EndBuildSetupConnection p"
  shows "step_compiles b ctx t' cd c k i"
proof -
  note r = step_ready_input [OF assms(1), of 0]
  from r(3) obtain s where s: "vals c ! (inputs i ! 0) = SetupConnectionVal s"
    "b \<longrightarrow> short_strings s"
    by (auto simp: assms(2) split: val.splits)
  with r(4) [where shape = as_setup] have "read_input as_setup c i 0 = Ok s"
    by (simp add: assms(2))
  then have c': "compile_instruction cd c k i =
      Ok (push_val (SetupConnectionVal (s\<lparr>protocol := p\<rparr>)) c)"
    by (simp add: compile_instruction_def assms(2))
  show ?thesis
    using assms success_frames_step(1) [of ctx t i t'] s(2)
    by (intro step_compiles_intro [OF assms(1) c', where
          new = "[SetupConnectionVal (s\<lparr>protocol := p\<rparr>)]"])
      (auto simp: step_ready_def compiles_as_def short_strings_def)
qed

lemma compile_setter_ok:
  assumes "step_ready b ctx t t' cd c i"
    and "compile_instruction cd c k i = update_input c i 0 f"
    and "operation i \<in> {SetVersions, SetFlags, SetEndpoint, SetDeviceInfo}"
    and "\<And>s. protocol (f s) = protocol s" "\<And>s. b \<Longrightarrow> short_strings s \<Longrightarrow> short_strings (f s)"
  shows "step_compiles b ctx t' cd c k i"
proof -
  have pre: "compiles_as b ctx t c" "wt_step ctx t i t'" "frames_below t"
    using assms(1) by (auto simp: step_ready_def)
  from assms(3) obtain tys where
    "get_input_variables (operation i) = VMutSetupConnection # tys"
    "\<not> is_nop (operation i)" "num_defined (operation i) = 0" "is_quiet (operation i)"
    by (elim insertE emptyE) (simp_all add: num_outputs_def num_inner_outputs_def)
  moreover have "success_frames (frames t') = success_frames (frames t)"
    using success_frames_step(1) [OF pre(2)] assms(3) by (elim insertE emptyE) simp_all
  ultimately show ?thesis
    using compile_setter [OF pre assms(2)] assms(4, 5) by (auto simp: step_compiles_def)
qed

lemma compile_set_versions_ok:
  assumes "step_ready b ctx t t' cd c i" and "operation i = SetVersions"
  shows "step_compiles b ctx t' cd c k i"
proof -
  note r = step_ready_input [OF assms(1), of 1] step_ready_input [OF assms(1), of 2]
  from r(3, 7) obtain lo hi where
    "as_version (vals c ! (inputs i ! 1)) = Some lo" "as_version (vals c ! (inputs i ! 2)) = Some hi"
    by (auto simp: assms(2))
  with r(4, 8) [where shape = as_version]
  have "compile_instruction cd c k i = update_input c i 0 (\<lambda>s. s\<lparr>min_version := lo, max_version := hi\<rparr>)"
    by (simp add: assms(2) compile_instruction_def)
  from compile_setter_ok [OF assms(1) this] show ?thesis
    by (simp add: assms(2) short_strings_def)
qed

lemma compile_set_flags_ok:
  assumes "step_ready b ctx t t' cd c i" and "operation i = SetFlags"
  shows "step_compiles b ctx t' cd c k i"
proof -
  note r = step_ready_input [OF assms(1), of 1]
  from r(3) obtain f where "as_flags (vals c ! (inputs i ! 1)) = Some f"
    by (auto simp: assms(2))
  with r(4) [where shape = as_flags]
  have "compile_instruction cd c k i = update_input c i 0 (\<lambda>s. s\<lparr>flags := f\<rparr>)"
    by (simp add: assms(2) compile_instruction_def)
  from compile_setter_ok [OF assms(1) this] show ?thesis
    by (simp add: assms(2) short_strings_def)
qed

lemma compile_set_endpoint_ok:
  assumes "step_ready b ctx t t' cd c i" and "operation i = SetEndpoint"
  shows "step_compiles b ctx t' cd c k i"
proof -
  note r = step_ready_input [OF assms(1), of 1] step_ready_input [OF assms(1), of 2]
  from r(3) obtain h where h: "vals c ! (inputs i ! 1) = StrVal h" "b \<longrightarrow> length h \<le> 255"
    by (auto simp: assms(2) split: val.splits)
  from r(7) obtain p where "as_port (vals c ! (inputs i ! 2)) = Some p"
    by (auto simp: assms(2))
  with h(1) r(4) [where shape = as_str] r(8) [where shape = as_port]
  have "compile_instruction cd c k i =
      update_input c i 0 (\<lambda>s. s\<lparr>endpoint_host := h, endpoint_port := p\<rparr>)"
    by (simp add: assms(2) compile_instruction_def)
  from compile_setter_ok [OF assms(1) this] show ?thesis
    using h(2) by (simp add: assms(2) short_strings_def)
qed

lemma compile_set_device_info_ok:
  assumes "step_ready b ctx t t' cd c i" and "operation i = SetDeviceInfo"
  shows "step_compiles b ctx t' cd c k i"
proof -
  have "\<exists>s. read_input as_str c i j = Ok s \<and> (b \<longrightarrow> length s \<le> 255)" if "j \<in> {1, 2, 3, 4}" for j
  proof -
    from that have j: "get_input_variables (operation i) ! j = VStr"
      "j < length (get_input_variables (operation i))" by (auto simp: assms(2))
    note r = step_ready_input [OF assms(1) j(2)]
    from r(3) [unfolded j(1)] obtain s where "vals c ! (inputs i ! j) = StrVal s"
      "b \<longrightarrow> length s \<le> 255" by (auto split: val.splits)
    with r(4) [where shape = as_str] show ?thesis by simp
  qed
  from this [of 1] this [of 2] this [of 3] this [of 4] obtain v h f d where
    *: "read_input as_str c i 1 = Ok v" "read_input as_str c i 2 = Ok h"
    "read_input as_str c i 3 = Ok f" "read_input as_str c i 4 = Ok d"
    and short: "b \<longrightarrow> (\<forall>s \<in> {v, h, f, d}. length s \<le> 255)" by auto
  then have "compile_instruction cd c k i =
      update_input c i 0 (\<lambda>s. s\<lparr>vendor := v, hardware_version := h, firmware := f, device_id := d\<rparr>)"
    by (simp add: assms(2) compile_instruction_def)
  from compile_setter_ok [OF assms(1) this] show ?thesis
    using short by (simp add: assms(2) short_strings_def)
qed

lemma compile_push_ok:
  assumes "step_ready b ctx t t' cd c i"
    and "compile_instruction cd c k i = Ok (push_val v c)"
    and "get_output_variables (operation i) @ get_inner_output_variables (operation i) = [ty]"
    and "typed_in b ctx c v ty"
    and "\<forall>p. operation i \<noteq> BeginOnSetupSuccess p" "operation i \<noteq> EndOnSetupSuccess"
  shows "step_compiles b ctx t' cd c k i"
proof -
  have pre: "compiles_as b ctx t c" "wt_step ctx t i t'" "frames_below t"
    using assms(1) by (auto simp: step_ready_def)
  have "success_frames (frames t') = success_frames (frames t)"
    using success_frames_step(1) [OF pre(2)] assms(5, 6) by (auto split: operation.splits)
  then show ?thesis
    using compile_pusher [OF pre assms(2-4)] by (auto simp: step_compiles_def)
qed

lemma compile_nop_ok:
  assumes "step_ready b ctx t t' cd c i" and "operation i = Nop n m"
  shows "step_compiles b ctx t' cd c k i"
  using assms success_frames_step(1) [of ctx t i t']
  by (intro step_compiles_intro [OF assms(1), where new = "replicate (n + m) NopVal"
        and c' = "c\<lparr>vals := vals c @ replicate (n + m) NopVal\<rparr>"])
    (auto simp: compile_instruction_def step_ready_def compiles_as_def)

lemma compile_step_ok:
  assumes "step_ready b ctx t t' cd c i"
  shows "step_compiles b ctx t' cd c k i"
proof -
  have ctx: "in_context ctx (operation i)" "num_connections ctx \<le> connections c"
    and str: "\<And>s. b \<Longrightarrow> operation i = LoadStr s \<Longrightarrow> length s \<le> 255"
    using assms wt_step_inputs(2) [of ctx t i t'] by (auto simp: step_ready_def compiles_as_def)
  note push = compile_push_ok [OF assms]
  show ?thesis
  proof (cases "operation i")
    case (Nop n m) then show ?thesis by (rule compile_nop_ok [OF assms])
  next
    case (LoadRole r)
    with ctx(1) show ?thesis by (intro push) (auto simp: compile_instruction_def)
  next
    case (LoadConnection n)
    with ctx show ?thesis by (intro push) (auto simp: compile_instruction_def)
  next
    case (LoadVersion v) then show ?thesis by (intro push) (auto simp: compile_instruction_def)
  next
    case (LoadFlags v) then show ?thesis by (intro push) (auto simp: compile_instruction_def)
  next
    case (LoadPort v) then show ?thesis by (intro push) (auto simp: compile_instruction_def)
  next
    case (LoadStr s)
    with str show ?thesis by (intro push) (auto simp: compile_instruction_def)
  next
    case (LoadBytes v) then show ?thesis by (intro push) (auto simp: compile_instruction_def)
  next
    case (LoadDuration v) then show ?thesis by (intro push) (auto simp: compile_instruction_def)
  next
    case BeginBuildSetupConnection
    then show ?thesis
      by (intro push) (auto simp: compile_instruction_def short_strings_def default_spec_def)
  qed (erule compile_connect_ok [OF assms] compile_set_versions_ok [OF assms]
      compile_set_flags_ok [OF assms] compile_set_endpoint_ok [OF assms]
      compile_set_device_info_ok [OF assms] compile_end_build_ok [OF assms]
      compile_send_setup_ok [OF assms] compile_begin_success_ok [OF assms]
      compile_end_success_ok [OF assms] compile_raw_frame_ok [OF assms]
      compile_advance_ok [OF assms] compile_probe_ok [OF assms])+
qed

section \<open>Whole programs\<close>

lemma compile_all_ok:
  assumes "wt_steps ctx t ins t'" and "compiles_as b ctx t c" and "frames_below t"
    and "codec_ok cd"
    and "b \<longrightarrow> (\<forall>i \<in> set ins. \<forall>s. operation i = LoadStr s \<longrightarrow> length s \<le> 255)"
  shows "(\<exists>c'. compile_all cd c k ins = Ok c' \<and> compiles_as b ctx t' c') \<or>
     \<not> b \<and> (\<exists>x. compile_all cd c k ins = Err (StringTooLong x))"
  using assms
proof (induction arbitrary: c k rule: wt_steps.induct)
  case (wt_cons t i t' ins t'')
  have "step_ready b ctx t t' cd c i"
    using wt_cons.prems wt_cons.hyps(1) by (auto simp: step_ready_def)
  from compile_step_ok [OF this, of k, unfolded step_compiles_def]
  consider c' where "compile_instruction cd c k i = Ok c'" "compiles_as b ctx t' c'"
    | x where "compile_instruction cd c k i = Err (StringTooLong x)" "\<not> b" by blast
  then show ?case
  proof cases
    case 1
    with wt_cons.IH [OF 1(2) wt_step_below [OF wt_cons.hyps(1) wt_cons.prems(2)] wt_cons.prems(3), of "k + 1"]
      wt_cons.prems(4) show ?thesis by auto
  qed auto
qed auto

lemma compiles_as_start: "compiles_as b ctx init_typing (start_compiler ctx)"
  by (auto simp: compiles_as_def init_typing_def values_typed_def in_scope_def success_frames_def
      intro: opened_none wn_nil)

definition strings_fit :: "program \<Rightarrow> bool" where
  "strings_fit p \<longleftrightarrow>
     (\<forall>i \<in> set (instructions p). case operation i of LoadStr s \<Rightarrow> length s \<le> 255 | _ \<Rightarrow> True)"

lemma compile_valid_cases:
  assumes "wt_program (prog_context p) (instructions p)" and "codec_ok cd" and "b \<longrightarrow> strings_fit p"
  obtains c where
    "compile_all cd (start_compiler (prog_context p)) 0 (instructions p) = Ok c"
    "opened (actions c) []" "blocks c = []"
  | x where "\<not> b" "compile cd p = Err (StringTooLong x)"
proof -
  obtain t F where t: "wt_steps (prog_context p) init_typing (instructions p) t" "frames t = [(None, F)]"
    using wt_program_end [OF assms(1)] .
  have fit: "b \<longrightarrow> (\<forall>i \<in> set (instructions p). \<forall>s. operation i = LoadStr s \<longrightarrow> length s \<le> 255)"
    using assms(3) by (force simp: strings_fit_def)
  have "\<exists>c. compile_all cd (start_compiler (prog_context p)) 0 (instructions p) = Ok c \<and>
      opened (actions c) [] \<and> blocks c = []" if "compiles_as b (prog_context p) t c"
    "compile_all cd (start_compiler (prog_context p)) 0 (instructions p) = Ok c" for c
    using that t(2) by (auto simp: compiles_as_def success_frames_def)
  with compile_all_ok [OF t(1) compiles_as_start [of b] frames_below_init assms(2) fit, where k = 0] that
  show ?thesis by (auto simp: compile_def)
qed

text \<open>A wire library that does what \<open>codec_ok\<close> asks, for the examples: every message takes
  two bytes.\<close>

definition tiny_codec :: codec where
  "tiny_codec =
     \<lparr>str0255_accepts = (\<lambda>s. length s \<le> 255), protocol_accepts = (\<lambda>i. i \<in> {0, 1, 2}),
      message_type_setup_connection = 0, get_size = (\<lambda>_. 2),
      to_writer = (\<lambda>m buf. Ok (take 2 (wire_protocol m # 7 # buf)))\<rparr>"

lemmas compile_evaluation =
  compile_def compile_instruction_def compile_connect_def compile_send_setup_def
  compile_begin_success_def compile_end_success_def compile_raw_frame_def read_input_def
  read_as_def val_at_def update_input_def update_setup_def index_def get_def Let_def
  push_val_def push_action_def note_violations_def encode_setup_connection_def encode_def
  str0_255_def default_spec_def start_compiler_def new_compiler_def default_metadata_def

lemma tiny_codec_ok: "codec_ok tiny_codec"
  by (auto simp: codec_ok_def tiny_codec_def)

text \<open>The program the witnesses run on, and what it compiles to.\<close>

definition demo_program :: program where
  "demo_program =
     \<lparr>prog_context = \<lparr>num_roles = 1, num_connections = 0, seed = 0\<rparr>,
      instructions =
        [Instruction (LoadRole 0) [], Instruction Connect [0],
         Instruction BeginBuildSetupConnection [], Instruction (LoadFlags 4) [],
         Instruction SetFlags [2, 3], Instruction (EndBuildSetupConnection Mining) [2],
         Instruction (SendSetupConnection Mining) [1, 4],
         Instruction (BeginOnSetupSuccess Mining) [5], Instruction (LoadBytes [1, 2]) [],
         Instruction (SendRawFrame 9 1) [1, 7], Instruction EndOnSetupSuccess [],
         Instruction (SendSetupConnection Mining) [1, 4], Instruction Probe []]\<rparr>"

lemma demo_valid: "is_statically_valid demo_program = Ok True"
proof -
  have "is_statically_valid demo_program = (Ok True :: (unit, bool) outcome)" by code_simp
  then show ?thesis by (simp add: statically_valid_iff)
qed

definition demo_actions :: "action list" where
  "demo_actions =
     [AConnect 0 0, ASend 0 0 0 False [0, 7], AAwaitSetupResponse 0 0 Mining True,
      AEnterOnSetupSuccess 0 5, ASend 0 1 9 False [1, 2], AExitBlock,
      ASend 0 0 0 False [0, 7], AAwaitSetupResponse 0 1 Mining False, AProbe]"

lemma demo_compiles:
  obtains q where "compile tiny_codec demo_program = Ok q" "comp_actions q = demo_actions"
    "comp_context q = prog_context demo_program"
    "action_instructions (comp_metadata q) = [1, 6, 6, 7, 9, 10, 11, 11, 12]"
proof -
  have "case compile tiny_codec demo_program of
      Ok q \<Rightarrow> comp_actions q = demo_actions \<and> comp_context q = prog_context demo_program \<and>
        action_instructions (comp_metadata q) = [1, 6, 6, 7, 9, 10, 11, 11, 12] | _ \<Rightarrow> False"
    by (simp add: demo_program_def demo_actions_def tiny_codec_def compile_evaluation)
  with that show ?thesis by (auto split: outcome.splits)
qed

section \<open>Properties\<close>



text \<open>C11: In the compiled form of a valid program the conditional blocks nest, and every enter
  action carries the position of the exit that closes its block (none keeps the placeholder).\<close>

theorem blocks_are_patched:
  assumes "is_statically_valid p = Ok True" and "codec_ok cd" and "compile cd p = Ok q"
    and "e < length (comp_actions q)" and "comp_actions q ! e = AEnterOnSetupSuccess s x"
  shows "\<exists>pre body post.
     comp_actions q = pre @ AEnterOnSetupSuccess s x # body @ AExitBlock # post \<and>
     length pre = e \<and> x = Suc (e + length body) \<and> well_nested (Suc e) body"
proof -
  from assms(1) have "wt_program (prog_context p) (instructions p)" by (simp add: statically_valid_iff)
  then have "opened (comp_actions q) []"
    by (rule compile_valid_cases [OF _ assms(2), where b = False])
      (use assms(3) in \<open>auto simp: compile_def\<close>)
  then have "well_nested 0 (comp_actions q)" by (rule opened_NilE) simp
  from well_nested_enter [OF this assms(4, 5)] show ?thesis by simp
qed

theorem blocks_are_patched_witness:
  "\<exists>q pre body post. compile tiny_codec demo_program = Ok q \<and>
     comp_actions q = pre @ AEnterOnSetupSuccess 0 5 # body @ AExitBlock # post \<and> length pre = 3"
proof (rule demo_compiles)
  fix q assume q: "compile tiny_codec demo_program = Ok q" "comp_actions q = demo_actions"
  have "3 < length (comp_actions q)" "comp_actions q ! 3 = AEnterOnSetupSuccess 0 5"
    by (simp_all add: q(2) demo_actions_def)
  from blocks_are_patched [OF demo_valid tiny_codec_ok q(1) this] q(1) show ?thesis by blast
qed

end
