(* ===== verification/Compiler_Log.thy ===== *)
theory Compiler_Log
  imports Compiler_Sound
begin

text \<open>
  What the compiler records beside the actions: the instruction each one came from, whether a
  \<open>SetupConnection\<close> was the first message on its connection, and the ways the client departed
  from the protocol. These facts hold of every program that compiles, valid or not.
\<close>

section \<open>Actions, their positions apart\<close>

text \<open>Patching an enter changes its \<open>end\<close> only; \<open>skeleton\<close> forgets it.\<close>

fun forget_end :: "action \<Rightarrow> action" where
  "forget_end (AEnterOnSetupSuccess s _) = AEnterOnSetupSuccess s 0"
| "forget_end a = a"

definition skeleton :: "action list \<Rightarrow> action list" where
  "skeleton acts = map forget_end acts"

lemma skeleton_simps [simp]:
  "skeleton [] = []" "skeleton (xs @ ys) = skeleton xs @ skeleton ys"
  "skeleton (a # xs) = forget_end a # skeleton xs" "length (skeleton xs) = length xs"
  by (simp_all add: skeleton_def)

lemma skeleton_patch:
  "e < length acts \<Longrightarrow> acts ! e = AEnterOnSetupSuccess s m \<Longrightarrow>
   skeleton (acts[e := AEnterOnSetupSuccess s x]) = skeleton acts"
  by (auto simp: skeleton_def nth_list_update intro!: nth_equalityI)

lemma forget_end_eq [simp]:
  "forget_end a = ASend n e m b u \<longleftrightarrow> a = ASend n e m b u"
  "forget_end a = AAwaitSetupResponse n s p f \<longleftrightarrow> a = AAwaitSetupResponse n s p f"
  "forget_end a = AConnect n r \<longleftrightarrow> a = AConnect n r"
  by (cases a; simp)+

fun sends_on :: "nat \<Rightarrow> action \<Rightarrow> bool" where
  "sends_on n (ASend m _ _ _ _) = (n = m)"
| "sends_on n _ = False"

lemma sends_on_forget [simp]: "sends_on n (forget_end a) = sends_on n a"
  by (cases a) auto

fun is_raw_frame :: "operation \<Rightarrow> bool" where
  "is_raw_frame (SendRawFrame _ _) = True"
| "is_raw_frame _ = False"

text \<open>Whether something, or a frame of the program's own, is sent on a connection before
  action \<open>j\<close>.\<close>

definition sent_before :: "action list \<Rightarrow> nat \<Rightarrow> nat \<Rightarrow> bool" where
  "sent_before acts n j \<longleftrightarrow> (\<exists>a \<in> set (take j acts). sends_on n a)"

definition raw_before :: "instruction list \<Rightarrow> nat list \<Rightarrow> action list \<Rightarrow> nat \<Rightarrow> nat \<Rightarrow> bool" where
  "raw_before ins ais acts n j \<longleftrightarrow>
     (\<exists>(k, a) \<in> set (take j (zip ais acts)). sends_on n a \<and> is_raw_frame (operation (ins ! k)))"

section \<open>The invariant\<close>

definition await_logged ::
  "codec \<Rightarrow> program_context \<Rightarrow> instruction list \<Rightarrow> action list \<Rightarrow> compiled_metadata \<Rightarrow> nat \<Rightarrow> bool" where
  "await_logged cd ctx ins acts md j \<longleftrightarrow>
     (case acts ! j of
        AAwaitSetupResponse n s p first_on \<Rightarrow>
          0 < j \<and>
          (\<exists>payload. acts ! (j - 1) = ASend n 0 (message_type_setup_connection cd) False payload) \<and>
          first_on = (num_connections ctx \<le> n \<and> \<not> sent_before acts n (j - 1)) \<and>
          violations md j =
            (let vs = setup_violations first_on (raw_before ins (action_instructions md) acts n (j - 1))
             in if vs = [] then None else Some vs) \<and>
          session_setups md s \<noteq> None
      | _ \<Rightarrow> violations md j = None)"

definition log_inv :: "codec \<Rightarrow> program_context \<Rightarrow> instruction list \<Rightarrow> nat \<Rightarrow> compiler \<Rightarrow> bool" where
  "log_inv cd ctx ins k c \<longleftrightarrow>
     (let acts = skeleton (actions c); md = metadata c in
      length (action_instructions md) = length acts \<and>
      (\<forall>j < length acts. action_instructions md ! j < k) \<and>
      sorted (action_instructions md) \<and>
      sent c = {0..<num_connections ctx} \<union> {n. sent_before acts n (length acts)} \<and>
      raw_framed c = {n. raw_before ins (action_instructions md) acts n (length acts)} \<and>
      (\<forall>j < length acts. await_logged cd ctx ins acts md j) \<and>
      (\<forall>j \<ge> length acts. violations md j = None) \<and>
      (\<forall>s \<ge> sessions c. session_setups md s = None))"

lemma sent_before_append [simp]:
  "j \<le> length xs \<Longrightarrow> sent_before (xs @ ys) n j = sent_before xs n j"
  by (simp add: sent_before_def)

lemma sent_before_snoc [simp]:
  "j = Suc (length xs) \<Longrightarrow>
   sent_before (xs @ [a]) n j \<longleftrightarrow> sent_before xs n (length xs) \<or> sends_on n a"
  by (auto simp: sent_before_def)

lemma raw_before_append [simp]:
  "j \<le> length xs \<Longrightarrow> length as = length xs \<Longrightarrow>
   raw_before ins (as @ bs) (xs @ ys) n j = raw_before ins as xs n j"
  by (simp add: raw_before_def)

lemma raw_before_snoc [simp]:
  "length as = length xs \<Longrightarrow> j = Suc (length xs) \<Longrightarrow>
   raw_before ins (as @ [k]) (xs @ [a]) n j \<longleftrightarrow>
   raw_before ins as xs n (length xs) \<or> sends_on n a \<and> is_raw_frame (operation (ins ! k))"
  by (auto simp: raw_before_def)

lemma sent_before_skeleton [simp]: "sent_before (skeleton acts) n j = sent_before acts n j"
  by (simp add: sent_before_def skeleton_def take_map)

lemma raw_before_skeleton [simp]:
  "raw_before ins ais (skeleton acts) n j = raw_before ins ais acts n j"
proof -
  have "zip ais (skeleton acts) = map (\<lambda>(k, a). (k, forget_end a)) (zip ais acts)"
    by (simp add: skeleton_def zip_map2)
  then show ?thesis by (auto simp: raw_before_def take_map case_prod_beta)
qed

text \<open>What is logged of an action stays when actions are added.\<close>

lemma await_logged_append:
  assumes "await_logged cd ctx ins xs md j" and "j < length xs"
    and "length (action_instructions md) = length xs"
    and "action_instructions md' = action_instructions md @ ks"
    and "violations md' j = violations md j"
    and "\<And>s. session_setups md s \<noteq> None \<Longrightarrow> session_setups md' s \<noteq> None"
  shows "await_logged cd ctx ins (xs @ ys) md' j"
proof (cases "\<exists>n s p f. xs ! j = AAwaitSetupResponse n s p f")
  case True
  then obtain n s p f where a: "xs ! j = AAwaitSetupResponse n s p f" by blast
  moreover have "j - Suc 0 < length xs" using assms(2) by simp
  ultimately show ?thesis using assms by (simp add: await_logged_def nth_append Let_def)
next
  case False
  with assms show ?thesis by (cases "xs ! j") (auto simp: await_logged_def nth_append)
qed

definition not_await :: "action \<Rightarrow> bool" where
  "not_await a \<longleftrightarrow> (\<forall>n s p f. a \<noteq> AAwaitSetupResponse n s p f)"

lemma await_logged_other:
  "not_await (acts ! j) \<Longrightarrow> await_logged cd ctx ins acts md j \<longleftrightarrow> violations md j = None"
  by (cases "acts ! j") (auto simp: await_logged_def not_await_def)

lemma log_inv_later: "log_inv cd ctx ins k c \<Longrightarrow> k \<le> k' \<Longrightarrow> log_inv cd ctx ins k' c"
  by (auto simp: log_inv_def Let_def dest: less_le_trans)

text \<open>One action that awaits nothing.\<close>

lemma log_inv_push:
  assumes inv: "log_inv cd ctx ins k c"
    and acts: "skeleton (actions c') = skeleton (actions c) @ [a]" and a: "not_await a"
    and md: "action_instructions (metadata c') = action_instructions (metadata c) @ [k]"
      "violations (metadata c') = violations (metadata c)"
      "session_setups (metadata c') = session_setups (metadata c)" "sessions c' = sessions c"
    and sets: "sent c' = sent c \<union> {n. sends_on n a}"
      "raw_framed c' = raw_framed c \<union> {n. sends_on n a \<and> is_raw_frame (operation (ins ! k))}"
  shows "log_inv cd ctx ins (Suc k) c'"
proof -
  let ?s = "skeleton (actions c)" and ?md = "metadata c" and ?md' = "metadata c'"
  from inv have len: "length (action_instructions ?md) = length ?s"
    and below: "\<forall>j < length ?s. action_instructions ?md ! j < k"
    and srt: "sorted (action_instructions ?md)"
    and aw: "\<forall>j < length ?s. await_logged cd ctx ins ?s ?md j"
    and none: "\<forall>j \<ge> length ?s. violations ?md j = None"
    by (auto simp: log_inv_def Let_def)
  have "await_logged cd ctx ins (?s @ [a]) ?md' j" if "j < Suc (length ?s)" for j
  proof (cases "j = length ?s")
    case True
    then show ?thesis using a none md(2) by (simp add: await_logged_other nth_append)
  next
    case False
    with that aw md len show ?thesis by (intro await_logged_append [of _ _ _ _ ?md]) auto
  qed
  moreover have "sorted (action_instructions ?md @ [k])"
    using srt below len by (auto simp: sorted_append in_set_conv_nth less_imp_le)
  ultimately show ?thesis
    using inv below unfolding log_inv_def acts md sets Let_def
    by (auto simp: nth_append less_Suc_eq)
qed

lemma log_inv_start: "log_inv cd ctx ins 0 (start_compiler ctx)"
  by (auto simp: log_inv_def default_metadata_def sent_before_def raw_before_def)

lemma log_inv_quiet:
  assumes "log_inv cd ctx ins k c" and "compile_operation cd c k i op = Ok c'" and "is_quiet op"
  shows "log_inv cd ctx ins (Suc k) c'"
  using log_inv_later [OF assms(1), of "Suc k"] quiet_same [OF assms(2, 3)]
  by (simp add: log_inv_def Let_def)

lemma log_inv_setup:
  assumes inv: "log_inv cd ctx ins k c"
    and op: "compile_operation cd c k i (SendSetupConnection p) = Ok c'"
    and ins: "\<not> is_raw_frame (operation (ins ! k))"
  shows "log_inv cd ctx ins (Suc k) c'"
proof -
  let ?s = "skeleton (actions c)" and ?md = "metadata c" and ?md' = "metadata c'"
  from inv have len: "length (action_instructions ?md) = length ?s"
    and below: "\<forall>j < length ?s. action_instructions ?md ! j < k"
    and srt: "sorted (action_instructions ?md)"
    and aw: "\<forall>j < length ?s. await_logged cd ctx ins ?s ?md j"
    and none: "\<forall>j \<ge> length ?s. violations ?md j = None"
    and sent: "sent c = {0..<num_connections ctx} \<union> {n. sent_before ?s n (length ?s)}"
    and raw: "raw_framed c = {n. raw_before ins (action_instructions ?md) ?s n (length ?s)}"
    and fresh: "\<forall>s \<ge> sessions c. session_setups ?md s = None"
    by (auto simp: log_inv_def Let_def)
  obtain n spec u where eq: "c' = c\<lparr>vals := vals c @ [SetupAttemptVal (sessions c) n],
            actions := actions c @
              [ASend n 0 (message_type_setup_connection cd) False u,
               AAwaitSetupResponse n (sessions c) p (n \<notin> sent c)],
            metadata := (metadata c)
              \<lparr>action_instructions := action_instructions (metadata c) @ [k, k],
               session_variables := (session_variables (metadata c))(sessions c \<mapsto> length (vals c)),
               session_setups := (session_setups (metadata c))(sessions c \<mapsto> spec),
               violations :=
                 (let vs = setup_violations (n \<notin> sent c) (n \<in> raw_framed c)
                  in if vs = [] then violations (metadata c)
                     else (violations (metadata c))(Suc (length (actions c)) \<mapsto> vs))\<rparr>,
            sessions := sessions c + 1, sent := insert n (sent c)\<rparr>"
    using op by (rule send_setup_effect)
  let ?a = "ASend n 0 (message_type_setup_connection cd) False u"
  let ?b = "AAwaitSetupResponse n (sessions c) p (n \<notin> sent c)"
  have acts: "skeleton (actions c') = ?s @ [?a, ?b]" by (simp add: eq)
  have md: "action_instructions ?md' = action_instructions ?md @ [k, k]"
    "session_setups ?md' = (session_setups ?md)(sessions c \<mapsto> spec)"
    and viol: "violations ?md' j = (if j = Suc (length ?s) then
        (let vs = setup_violations (n \<notin> sent c) (n \<in> raw_framed c)
         in if vs = [] then None else Some vs) else violations ?md j)" for j
    using none by (auto simp: eq Let_def)
  have "await_logged cd ctx ins (?s @ [?a, ?b]) ?md' j" if j: "j < length ?s + 2" for j
  proof -
    consider "j < length ?s" | "j = length ?s" | "j = Suc (length ?s)"
      using j by linarith
    then show ?thesis
    proof cases
      case 1
      with aw len viol show ?thesis
        by (intro await_logged_append [of _ _ _ _ ?md]) (auto simp: md)
    next
      case 2
      then show ?thesis using none viol by (simp add: await_logged_other not_await_def nth_append)
    next
      case 3
      then show ?thesis
        using viol len by (simp add: await_logged_def nth_append md sent raw Let_def not_less)
    qed
  qed
  moreover have "sorted (action_instructions ?md @ [k, k])"
    using srt below len by (auto simp: sorted_append in_set_conv_nth less_imp_le)
  moreover have "sent c' = {0..<num_connections ctx} \<union> {m. sent_before (?s @ [?a, ?b]) m (length ?s + 2)}"
    by (auto simp: eq sent sent_before_def)
  moreover have "raw_framed c' =
      {m. raw_before ins (action_instructions ?md @ [k, k]) (?s @ [?a, ?b]) m (length ?s + 2)}"
    using len ins by (auto simp: eq raw raw_before_def)
  ultimately show ?thesis
    using below len fresh none viol unfolding log_inv_def acts md(1) Let_def
    by (auto simp: nth_append less_Suc_eq eq)
qed

lemma log_inv_step:
  assumes inv: "log_inv cd ctx ins k c" and opn: "opened (actions c) (blocks c)"
    and ok: "compile_instruction cd c k (ins ! k) = Ok c'"
  shows "log_inv cd ctx ins (Suc k) c'"
proof -
  let ?i = "ins ! k"
  note op = ok [unfolded compile_instruction_def]
  note push = log_inv_push [OF inv]
  consider (quiet) "is_quiet (operation ?i)" | (conn) "operation ?i = Connect"
    | (send) p where "operation ?i = SendSetupConnection p"
    | (enter) p where "operation ?i = BeginOnSetupSuccess p"
    | (exit) "operation ?i = EndOnSetupSuccess"
    | (raw) m e where "operation ?i = SendRawFrame m e"
    | (adv) "operation ?i = AdvanceTime" | (probe) "operation ?i = Probe"
    by (cases "operation ?i") auto
  then show ?thesis
  proof cases
    case quiet
    then show ?thesis by (rule log_inv_quiet [OF inv op])
  next
    case conn
    from op [unfolded conn] show ?thesis
      by (rule connect_effect, intro push) (auto simp: not_await_def)
  next
    case send
    show ?thesis by (rule log_inv_setup [OF inv op [unfolded send]]) (simp add: send)
  next
    case enter
    from op [unfolded enter] show ?thesis
      by (rule begin_success_effect, intro push) (auto simp: not_await_def)
  next
    case exit
    from op [unfolded exit] obtain e rest s m where *: "blocks c = e # rest"
      "(actions c @ [AExitBlock]) ! e = AEnterOnSetupSuccess s m"
      "c' = c\<lparr>actions := (actions c @ [AExitBlock])[e := AEnterOnSetupSuccess s (length (actions c))],
            metadata := (metadata c)
              \<lparr>action_instructions := action_instructions (metadata c) @ [k]\<rparr>,
            blocks := rest\<rparr>"
      by (rule end_success_effect) blast
    from opn [unfolded *(1)] have "e < length (actions c)" by (rule opened_exit)
    then have "skeleton (actions c') = skeleton (actions c) @ [AExitBlock]"
      using *(2) skeleton_patch [of e "actions c @ [AExitBlock]" s m] by (simp add: *(3))
    then show ?thesis by (rule push) (auto simp: not_await_def *(3))
  next
    case raw
    from op [unfolded raw] show ?thesis
      by (rule raw_frame_effect, intro push) (auto simp: not_await_def raw)
  next
    case adv
    from op [unfolded adv] show ?thesis
      by (rule advance_effect, intro push) (auto simp: not_await_def)
  next
    case probe
    from probe_effect [OF op [unfolded probe]] show ?thesis
      by (intro push) (auto simp: not_await_def)
  qed
qed

lemma compile_log:
  assumes "compile cd p = Ok q"
  obtains c where "comp_actions q = actions c" "comp_metadata q = metadata c"
    "comp_context q = prog_context p"
    "log_inv cd (prog_context p) (instructions p) (length (instructions p)) c"
proof -
  from assms obtain c where c: "compile_all cd (start_compiler (prog_context p)) 0 (instructions p) = Ok c"
    "comp_actions q = actions c" "comp_metadata q = metadata c" "comp_context q = prog_context p"
    by (auto simp: compile_def)
  let ?I = "\<lambda>k c. log_inv cd (prog_context p) (instructions p) k c \<and> opened (actions c) (blocks c)"
  have "?I (0 + length (instructions p)) c"
    by (rule compile_all_invariant [OF c(1), where I = ?I])
      (auto simp: log_inv_start intro: opened_none wn_nil log_inv_step compile_instruction_opened)
  with c that show ?thesis by simp
qed

lemma action_instructions_ok:
  assumes "compile cd p = Ok q"
  shows "length (action_instructions (comp_metadata q)) = length (comp_actions q)"
    "sorted (action_instructions (comp_metadata q))"
    "\<forall>k \<in> set (action_instructions (comp_metadata q)). k < length (instructions p)"
  by (rule compile_log [OF assms], auto simp: log_inv_def Let_def in_set_conv_nth)+

text \<open>What is logged of an await of a compiled program.\<close>

lemma compile_await_logged:
  assumes "compile cd p = Ok q" and "j < length (comp_actions q)"
    and "comp_actions q ! j = AAwaitSetupResponse n s pr first_on"
  shows "0 < j" "\<exists>u. comp_actions q ! (j - 1) = ASend n 0 (message_type_setup_connection cd) False u"
    "first_on = (num_connections (prog_context p) \<le> n \<and> \<not> sent_before (comp_actions q) n (j - 1))"
    "\<exists>spec. session_setups (comp_metadata q) s = Some spec"
proof -
  from compile_log [OF assms(1)] obtain c where c: "comp_actions q = actions c"
    "comp_metadata q = metadata c"
    "log_inv cd (prog_context p) (instructions p) (length (instructions p)) c" .
  then have "await_logged cd (prog_context p) (instructions p) (skeleton (comp_actions q))
      (comp_metadata q) j"
    using assms(2) by (simp add: log_inv_def Let_def)
  moreover have "skeleton (comp_actions q) ! j = AAwaitSetupResponse n s pr first_on"
    using assms(2, 3) by (simp add: skeleton_def)
  ultimately have *: "0 < j" "\<exists>u. skeleton (comp_actions q) ! (j - 1) =
      ASend n 0 (message_type_setup_connection cd) False u"
    "first_on = (num_connections (prog_context p) \<le> n \<and> \<not> sent_before (comp_actions q) n (j - 1))"
    "session_setups (comp_metadata q) s \<noteq> None"
    by (auto simp: await_logged_def)
  moreover have "j - 1 < length (comp_actions q)" using assms(2) by simp
  ultimately show "0 < j"
    "\<exists>u. comp_actions q ! (j - 1) = ASend n 0 (message_type_setup_connection cd) False u"
    "first_on = (num_connections (prog_context p) \<le> n \<and> \<not> sent_before (comp_actions q) n (j - 1))"
    "\<exists>spec. session_setups (comp_metadata q) s = Some spec"
    by (auto simp: skeleton_def)
qed

section \<open>Properties\<close>

text \<open>C12: The compiler pairs every await with the \<open>SetupConnection\<close> frame right before it,
  says that it was the first message exactly when the program opened the connection and nothing
  was sent on it earlier, and keeps the message sent for the session.\<close>

theorem first_on_connection_exact:
  assumes "compile cd p = Ok q" and "j < length (comp_actions q)"
    and "comp_actions q ! j = AAwaitSetupResponse n s pr first_on"
  shows "0 < j \<and>
     (\<exists>u. comp_actions q ! (j - 1) = ASend n 0 (message_type_setup_connection cd) False u) \<and>
     first_on = (num_connections (prog_context p) \<le> n \<and> \<not> sent_before (comp_actions q) n (j - 1)) \<and>
     session_setups (comp_metadata q) s \<noteq> None"
  using compile_await_logged [OF assms] by simp

theorem first_on_connection_exact_witness:
  "\<exists>q n s pr f. compile tiny_codec demo_program = Ok q \<and>
     comp_actions q ! 2 = AAwaitSetupResponse n s pr f \<and>
     f = (0 \<le> n \<and> \<not> sent_before (comp_actions q) n 1)"
proof (rule demo_compiles)
  fix q assume q: "compile tiny_codec demo_program = Ok q" "comp_actions q = demo_actions"
  have a: "2 < length (comp_actions q)" "comp_actions q ! 2 = AAwaitSetupResponse 0 0 Mining True"
    by (simp_all add: q(2) demo_actions_def)
  from first_on_connection_exact [OF q(1) a] q(1) a show ?thesis by (auto simp: demo_program_def)
qed


end
