(* ===== verification/Compiler_Sessions.thy ===== *)
theory Compiler_Sessions
  imports Compiler_Log
begin

text \<open>
  What the compiler's actions say of sessions and roles, for the runner: every session is
  awaited once, before anything that depends on it, and connections go to the roles the
  program loads.
\<close>

section \<open>Blocks and sessions of an action list\<close>

text \<open>Every enter ends later, at an exit of the list, and the blocks within it end before it does.\<close>

definition blocks_ok :: "action list \<Rightarrow> bool" where
  "blocks_ok acts \<longleftrightarrow>
     (\<forall>e s x. e < length acts \<longrightarrow> acts ! e = AEnterOnSetupSuccess s x \<longrightarrow>
        e < x \<and> x < length acts \<and> acts ! x = AExitBlock \<and>
        (\<forall>f t y. e < f \<longrightarrow> f < x \<longrightarrow> acts ! f = AEnterOnSetupSuccess t y \<longrightarrow> y < x))"

fun awaits :: "nat \<Rightarrow> action \<Rightarrow> bool" where
  "awaits s (AAwaitSetupResponse _ s' _ _) = (s = s')"
| "awaits s _ = False"

fun enters :: "nat \<Rightarrow> action \<Rightarrow> bool" where
  "enters s (AEnterOnSetupSuccess s' _) = (s = s')"
| "enters s _ = False"

text \<open>A session is awaited once, and before each block that waits for it.\<close>

definition sessions_ok :: "action list \<Rightarrow> bool" where
  "sessions_ok acts \<longleftrightarrow>
     (\<forall>s i j. i < length acts \<longrightarrow> awaits s (acts ! i) \<longrightarrow> j < length acts \<longrightarrow>
        (awaits s (acts ! j) \<longrightarrow> i = j) \<and> (enters s (acts ! j) \<longrightarrow> i < j))"

lemma well_nested_blocks_ok:
  assumes "well_nested 0 acts"
  shows "blocks_ok acts"
  unfolding blocks_ok_def
proof (intro allI impI)
  fix e s x assume e: "e < length acts" "acts ! e = AEnterOnSetupSuccess s x"
  from well_nested_enter [OF assms this] obtain pre b post where
    acts: "acts = pre @ AEnterOnSetupSuccess s x # b @ AExitBlock # post" "length pre = e"
    "x = Suc (e + length b)" "well_nested (Suc e) b" by auto
  have "y < x" if f: "e < f" "f < x" "acts ! f = AEnterOnSetupSuccess t y" for f t y
  proof -
    define g where "g = f - Suc e"
    with f(1) have g: "f = Suc (e + g)" by simp
    with f(2) acts(3) have "g < length b" by simp
    moreover from f(3) have "b ! g = AEnterOnSetupSuccess t y"
      using acts(1, 2) g \<open>g < length b\<close> by (simp add: nth_append)
    ultimately show ?thesis using well_nested_enter [OF acts(4), of g t y] acts(3) by auto
  qed
  moreover have "acts ! x = AExitBlock" by (simp add: acts nth_append)
  ultimately show "e < x \<and> x < length acts \<and> acts ! x = AExitBlock \<and>
      (\<forall>f t y. e < f \<longrightarrow> f < x \<longrightarrow> acts ! f = AEnterOnSetupSuccess t y \<longrightarrow> y < x)"
    using acts by auto
qed

section \<open>The invariant of the compiler\<close>

definition loads_role :: "instruction list \<Rightarrow> nat \<Rightarrow> bool" where
  "loads_role ins r \<longleftrightarrow> LoadRole r \<in> operation ` set ins"

text \<open>A value that is known to the rest of the program: an attempt at a session there is, a role
  it loads.\<close>

fun val_known :: "instruction list \<Rightarrow> nat \<Rightarrow> val \<Rightarrow> bool" where
  "val_known ins n (SetupAttemptVal s _) = (s < n)"
| "val_known ins n (RoleVal r) = loads_role ins r"
| "val_known ins n _ = True"

fun action_known :: "instruction list \<Rightarrow> nat \<Rightarrow> action \<Rightarrow> bool" where
  "action_known ins n (AAwaitSetupResponse _ s _ _) = (s < n)"
| "action_known ins n (AEnterOnSetupSuccess s _) = (s < n)"
| "action_known ins n (AConnect _ r) = loads_role ins r"
| "action_known ins n _ = True"

definition known :: "instruction list \<Rightarrow> compiler \<Rightarrow> bool" where
  "known ins c \<longleftrightarrow>
     (\<forall>v \<in> set (vals c). val_known ins (sessions c) v) \<and>
     (\<forall>a \<in> set (skeleton (actions c)). action_known ins (sessions c) a) \<and>
     sessions_ok (skeleton (actions c))"

lemma awaits_forget [simp]: "awaits s (forget_end a) = awaits s a"
  "enters s (forget_end a) = enters s a" "action_known ins n (forget_end a) = action_known ins n a"
  by (cases a; simp)+

lemma sessions_ok_skeleton [simp]: "sessions_ok (skeleton acts) = sessions_ok acts"
  by (auto simp: sessions_ok_def skeleton_def)

lemma action_known_skeleton [simp]:
  "(\<forall>a \<in> set (skeleton acts). action_known ins n a) \<longleftrightarrow> (\<forall>a \<in> set acts. action_known ins n a)"
  by (auto simp: skeleton_def)

lemma known_iff:
  "known ins c \<longleftrightarrow>
     (\<forall>v \<in> set (vals c). val_known ins (sessions c) v) \<and>
     (\<forall>a \<in> set (actions c). action_known ins (sessions c) a) \<and> sessions_ok (actions c)"
  by (simp add: known_def)

lemma val_known_more: "val_known ins n v \<Longrightarrow> n \<le> m \<Longrightarrow> val_known ins m v"
  by (cases v) auto

lemma action_known_more: "action_known ins n a \<Longrightarrow> n \<le> m \<Longrightarrow> action_known ins m a"
  by (cases a) auto

lemma action_known_awaits: "action_known ins n a \<Longrightarrow> awaits s a \<Longrightarrow> s < n"
  "action_known ins n a \<Longrightarrow> enters s a \<Longrightarrow> s < n"
  by (cases a; simp)+

lemma sessions_ok_plain:
  assumes "sessions_ok acts" and "\<And>s. \<not> awaits s a"
  shows "sessions_ok (acts @ [a])"
  using assms unfolding sessions_ok_def by (auto simp: nth_append less_Suc_eq)

lemma sessions_ok_await:
  assumes "sessions_ok acts" and "\<forall>a \<in> set acts. action_known ins n a"
  shows "sessions_ok (acts @ [AAwaitSetupResponse c n p f])"
proof -
  have "\<not> awaits n (acts ! j) \<and> \<not> enters n (acts ! j)" if "j < length acts" for j
    using assms(2) that action_known_awaits by (metis less_irrefl nth_mem)
  with assms(1) show ?thesis unfolding sessions_ok_def
    by (auto simp: nth_append less_Suc_eq split: if_splits)
qed

lemma known_start: "known ins (start_compiler ctx)"
  by (simp add: known_def sessions_ok_def)

lemma read_input_known:
  assumes "known ins c" and "read_input shape c i k = Ok a"
  shows "\<exists>v \<in> set (vals c). shape v = Some a \<and> val_known ins (sessions c) v"
proof -
  from assms(2) obtain x v where "get (vals c) x = Some v" "shape v = Some a"
    by (auto simp: read_input_def read_as_def val_at_def split: option.splits)
  with assms(1) show ?thesis by (auto simp: known_def get_eq_Some)
qed

text \<open>A quiet operation adds values that are known.\<close>

lemma quiet_vals:
  assumes "compile_operation cd c k i op = Ok c'" and "is_quiet op" and "v \<in> set (vals c')"
  shows "v \<in> set (vals c) \<or> (\<exists>r. v = RoleVal r \<and> op = LoadRole r) \<or>
    (\<forall>ins n. val_known ins n v)"
proof -
  have upd: "v \<in> set (vals c) \<or> (\<forall>ins n. val_known ins n v)"
    if "update_input c i j f = Ok c'" for j f
    using that assms(3) set_update_subset_insert
    by (fastforce simp: update_input_def update_setup_Ok)
  show ?thesis
    using assms upd by (cases op) auto
qed

lemma known_quiet:
  assumes "known ins c" and "compile_operation cd c k i op = Ok c'" and "is_quiet op"
    and "\<And>r. op = LoadRole r \<Longrightarrow> loads_role ins r"
  shows "known ins c'"
proof -
  have "val_known ins (sessions c) v" if "v \<in> set (vals c')" for v
    using quiet_vals [OF assms(2, 3) that] assms(1, 4) by (auto simp: known_iff)
  with assms(1) show ?thesis by (simp add: known_iff quiet_same [OF assms(2, 3)])
qed

text \<open>An instruction that adds known values and one action that awaits nothing.\<close>

lemma known_push:
  assumes "known ins c" and "vals c' = vals c @ vs" and "skeleton (actions c') = skeleton (actions c) @ [a]"
    and "sessions c' = sessions c" and "\<And>s. \<not> awaits s a"
    and "\<forall>v \<in> set vs. val_known ins (sessions c) v" and "action_known ins (sessions c) a"
  shows "known ins c'"
  using assms by (auto simp: known_def sessions_ok_plain simp del: sessions_ok_skeleton action_known_skeleton)

lemma known_setup:
  assumes "known ins c" and "compile_operation cd c k i (SendSetupConnection p) = Ok c'"
  shows "known ins c'"
  using assms(2)
proof (rule send_setup_effect)
  fix conn spec payload
  let ?n = "sessions c"
  assume c': "c' = c\<lparr>vals := vals c @ [SetupAttemptVal ?n conn],
            actions := actions c @
              [ASend conn 0 (message_type_setup_connection cd) False payload,
               AAwaitSetupResponse conn ?n p (conn \<notin> sent c)],
            metadata := (metadata c)
              \<lparr>action_instructions := action_instructions (metadata c) @ [k, k],
               session_variables := (session_variables (metadata c))(?n \<mapsto> length (vals c)),
               session_setups := (session_setups (metadata c))(?n \<mapsto> spec),
               violations :=
                 (let vs = setup_violations (conn \<notin> sent c) (conn \<in> raw_framed c)
                  in if vs = [] then violations (metadata c)
                     else (violations (metadata c))(Suc (length (actions c)) \<mapsto> vs))\<rparr>,
            sessions := ?n + 1, sent := insert conn (sent c)\<rparr>"
  let ?a = "ASend conn 0 (message_type_setup_connection cd) False payload"
  let ?b = "AAwaitSetupResponse conn ?n p (conn \<notin> sent c)"
  from assms(1) have old: "\<forall>v \<in> set (vals c). val_known ins ?n v"
    "\<forall>a \<in> set (actions c). action_known ins ?n a" "sessions_ok (actions c)"
    by (simp_all add: known_def)
  have "sessions_ok (actions c @ [?a])" using old(3) by (rule sessions_ok_plain) simp
  moreover have "\<forall>a \<in> set (actions c @ [?a]). action_known ins ?n a" using old(2) by auto
  ultimately have "sessions_ok ((actions c @ [?a]) @ [?b])" by (rule sessions_ok_await)
  with old show ?thesis
    by (auto simp: known_iff c' intro: val_known_more action_known_more)
qed

lemma known_step:
  assumes inv: "known ins c" and op: "compile_operation cd c k i (operation i) = Ok c'"
    and i: "i \<in> set ins"
  shows "known ins c'"
proof (cases "is_quiet (operation i)")
  case True
  have "\<And>r. operation i = LoadRole r \<Longrightarrow> loads_role ins r" using i by (force simp: loads_role_def)
  with known_quiet [OF inv op True] show ?thesis by blast
next
  case False
  note push = known_push [OF inv]
  from False consider (conn) "operation i = Connect" | (send) p where "operation i = SendSetupConnection p"
    | (enter) p where "operation i = BeginOnSetupSuccess p" | (leave) "operation i = EndOnSetupSuccess"
    | (raw) m e where "operation i = SendRawFrame m e" | (adv) "operation i = AdvanceTime"
    | (probe) "operation i = Probe"
    by (cases "operation i") auto
  then show ?thesis
  proof cases
    case conn
    from op [unfolded conn] show ?thesis
    proof (rule connect_effect)
      fix r assume r: "read_input as_role c i 0 = Ok r"
        and c': "c' = c\<lparr>vals := vals c @ [ConnectionVal (connections c)],
            actions := actions c @ [AConnect (connections c) r],
            metadata := (metadata c)
              \<lparr>action_instructions := action_instructions (metadata c) @ [k],
               connection_variables :=
                 (connection_variables (metadata c))(connections c \<mapsto> length (vals c))\<rparr>,
            connections := connections c + 1\<rparr>"
      from read_input_known [OF inv r] obtain v where "as_role v = Some r" "val_known ins (sessions c) v"
        by blast
      then have "loads_role ins r" by (cases v) auto
      then show ?thesis
        by (intro push [of _ "[ConnectionVal (connections c)]" "AConnect (connections c) r"])
          (simp_all add: c')
    qed
  next
    case send
    with op known_setup [OF inv] show ?thesis by metis
  next
    case enter
    from op [unfolded enter] show ?thesis
    proof (rule begin_success_effect)
      fix s conn assume r: "read_input as_attempt c i 0 = Ok (s, conn)"
        and c': "c' = c\<lparr>vals := vals c @ [SessionVal],
            actions := actions c @ [AEnterOnSetupSuccess s action_id_max],
            metadata := (metadata c)
              \<lparr>action_instructions := action_instructions (metadata c) @ [k]\<rparr>,
            blocks := length (actions c) # blocks c\<rparr>"
      from read_input_known [OF inv r] obtain v where
        "as_attempt v = Some (s, conn)" "val_known ins (sessions c) v" by blast
      then have "s < sessions c" by (cases v) auto
      then show ?thesis
        by (intro push [of _ "[SessionVal]" "AEnterOnSetupSuccess s 0"]) (simp_all add: c')
    qed
  next
    case leave
    from op [unfolded leave] show ?thesis
    proof (rule end_success_effect)
      fix e rest s m
      assume *: "e < Suc (length (actions c))"
        "(actions c @ [AExitBlock]) ! e = AEnterOnSetupSuccess s m"
        "c' = c\<lparr>actions := (actions c @ [AExitBlock])
                         [e := AEnterOnSetupSuccess s (length (actions c))],
            metadata := (metadata c)
              \<lparr>action_instructions := action_instructions (metadata c) @ [k]\<rparr>,
            blocks := rest\<rparr>"
      then have "skeleton (actions c') = skeleton (actions c) @ [AExitBlock]"
        using skeleton_patch [of e "actions c @ [AExitBlock]" s m] by simp
      then show ?thesis by (intro push [of _ "[]" AExitBlock]) (simp_all add: *(3))
    qed
  next
    case raw
    from op [unfolded raw] show ?thesis
      by (rule raw_frame_effect, intro push [of _ "[]"]) auto
  next
    case adv
    from op [unfolded adv] show ?thesis
      by (rule advance_effect, intro push [of _ "[]"]) auto
  next
    case probe
    from probe_effect [OF op [unfolded probe]] show ?thesis
      by (intro push [of _ "[]" AProbe]) auto
  qed
qed

lemma compile_known:
  assumes "compile cd p = Ok q"
  shows "sessions_ok (comp_actions q)"
    "\<And>n r. AConnect n r \<in> set (comp_actions q) \<Longrightarrow> loads_role (instructions p) r"
proof -
  from assms obtain c where c: "compile_all cd (start_compiler (prog_context p)) 0 (instructions p) = Ok c"
    "comp_actions q = actions c"
    by (auto simp: compile_def)
  have "known (instructions p) c"
    by (rule compile_all_invariant [OF c(1), where I = "\<lambda>_. known (instructions p)"])
      (auto simp: known_start compile_instruction_def intro: known_step)
  then show "sessions_ok (comp_actions q)"
    "\<And>n r. AConnect n r \<in> set (comp_actions q) \<Longrightarrow> loads_role (instructions p) r"
    by (auto simp: known_def c(2))
qed

section \<open>Compiled programs\<close>

text \<open>What the runner needs of its program, and what every valid program compiles to.\<close>

definition runnable :: "compiled_program \<Rightarrow> bool" where
  "runnable q \<longleftrightarrow> blocks_ok (comp_actions q) \<and> sessions_ok (comp_actions q) \<and>
     (\<forall>n r. AConnect n r \<in> set (comp_actions q) \<longrightarrow> r < num_roles (comp_context q))"

lemma loads_role_bound:
  assumes "wt_program ctx ins" and "loads_role ins r"
  shows "r < num_roles ctx"
proof -
  obtain t where t: "wt_steps ctx init_typing ins t" using assms(1) by (auto simp: wt_program_def)
  have "in_context ctx (operation i)" if "wt_steps ctx t0 is' t" "i \<in> set is'" for t0 is' i
    using that by (induction rule: wt_steps.induct) (auto dest: wt_step_inputs(2))
  with t have "\<forall>i \<in> set ins. in_context ctx (operation i)" by blast
  moreover obtain i where "i \<in> set ins" "operation i = LoadRole r"
    using assms(2) unfolding loads_role_def by (metis imageE)
  ultimately show ?thesis by force
qed

lemma compiled_runnable:
  assumes "wt_program (prog_context p) (instructions p)" and "codec_ok cd" and "compile cd p = Ok q"
  shows "runnable q" "comp_context q = prog_context p"
proof -
  have "opened (comp_actions q) []"
    by (rule compile_valid_cases [OF assms(1, 2), where b = False])
      (use assms(3) in \<open>auto simp: compile_def\<close>)
  then have "blocks_ok (comp_actions q)" by (auto elim: opened_NilE intro: well_nested_blocks_ok)
  moreover from assms(3) show "comp_context q = prog_context p" by (auto simp: compile_def)
  ultimately show "runnable q"
    using compile_known [OF assms(3)] loads_role_bound [OF assms(1)] by (auto simp: runnable_def)
qed

end
