(* ===== verification/Texts.thy ===== *)
theory Texts
  imports Prelude
begin

text \<open>
  The formatting of numbers the sources print with: \<open>{}\<close>, \<open>{:02x}\<close>, \<open>{:04x}\<close> and \<open>{:08x}\<close>.
\<close>

fun decimal :: "nat \<Rightarrow> string" where
  "decimal n = (if n < 10 then [char_of (48 + n)] else decimal (n div 10) @ [char_of (48 + n mod 10)])"

declare decimal.simps [simp del]

definition hex_digit :: "nat \<Rightarrow> char" where
  "hex_digit n = char_of (if n < 10 then 48 + n else 87 + n)"

text \<open>The last \<open>k\<close> hexadecimal digits of a number, which are all of them for a word of \<open>4 * k\<close> bits.\<close>

fun hex_digits :: "nat \<Rightarrow> nat \<Rightarrow> string" where
  "hex_digits 0 n = []"
| "hex_digits (Suc k) n = hex_digits k (n div 16) @ [hex_digit (n mod 16)]"

definition hex2 :: "u8 \<Rightarrow> string" where "hex2 b = hex_digits 2 (unat b)"
definition hex4 :: "u16 \<Rightarrow> string" where "hex4 w = hex_digits 4 (unat w)"
definition hex8 :: "u32 \<Rightarrow> string" where "hex8 w = hex_digits 8 (unat w)"

text \<open>\<open>join(", ")\<close>.\<close>

fun joined :: "string list \<Rightarrow> string" where
  "joined [] = []"
| "joined [x] = x"
| "joined (x # y # xs) = x @ '', '' @ joined (y # xs)"

end
