(* ===== verification/Ir_Text.thy ===== *)
theory Ir_Text
  imports Static_Validity Compiler Texts
begin

text \<open>
  How programs and errors of the intermediate representation print: the \<open>Display\<close>
  implementations of \<open>operation.rs\<close>, \<open>errors.rs\<close>, \<open>lib.rs\<close> and \<open>compiler.rs\<close>. The \<open>{:?}\<close> of a
  string and of a duration are the standard library's, the record \<open>debug_texts\<close>.
\<close>

record debug_texts =
  debug_str :: "string \<Rightarrow> string"
  debug_duration :: "duration \<Rightarrow> string"

fun operation_display :: "debug_texts \<Rightarrow> operation \<Rightarrow> string" where
  "operation_display t (Nop _ _) = ''Nop''"
| "operation_display t (LoadRole i) = ''LoadRole('' @ decimal i @ '')''"
| "operation_display t (LoadConnection i) = ''LoadConnection('' @ decimal i @ '')''"
| "operation_display t (LoadVersion v) = ''LoadVersion('' @ decimal (unat v) @ '')''"
| "operation_display t (LoadFlags v) = ''LoadFlags(0x'' @ hex8 v @ '')''"
| "operation_display t (LoadPort v) = ''LoadPort('' @ decimal (unat v) @ '')''"
| "operation_display t (LoadStr v) = ''LoadStr('' @ debug_str t v @ '')''"
| "operation_display t (LoadBytes v) = ''LoadBytes('' @ decimal (length v) @ '' bytes)''"
| "operation_display t (LoadDuration v) = ''LoadDuration('' @ debug_duration t v @ '')''"
| "operation_display t Connect = ''Connect''"
| "operation_display t BeginBuildSetupConnection = ''BeginBuildSetupConnection''"
| "operation_display t SetVersions = ''SetVersions''"
| "operation_display t SetFlags = ''SetFlags''"
| "operation_display t SetEndpoint = ''SetEndpoint''"
| "operation_display t SetDeviceInfo = ''SetDeviceInfo''"
| "operation_display t (EndBuildSetupConnection p) =
     ''EndBuildSetupConnection<'' @ protocol_display p @ ''>''"
| "operation_display t (SendSetupConnection p) = ''SendSetupConnection<'' @ protocol_display p @ ''>''"
| "operation_display t (BeginOnSetupSuccess p) = ''BeginOnSetupSuccess<'' @ protocol_display p @ ''>''"
| "operation_display t EndOnSetupSuccess = ''EndOnSetupSuccess''"
| "operation_display t (SendRawFrame m e) = ''SendRawFrame(0x'' @ hex2 m @ '', 0x'' @ hex4 e @ '')''"
| "operation_display t AdvanceTime = ''AdvanceTime''"
| "operation_display t Probe = ''Probe''"

fun validation_error_display :: "debug_texts \<Rightarrow> program_validation_error \<Rightarrow> string" where
  "validation_error_display t (InvalidNumberOfInputs got expected) =
     ''expected '' @ decimal expected @ '' inputs, got '' @ decimal got"
| "validation_error_display t (InvalidVariableType got expected) =
     ''expected a '' @ variable_display expected @ '' input, got a '' @ variable_display got"
| "validation_error_display t (VariableNotDefined i) = ''v'' @ decimal i @ '' is not in scope''"
| "validation_error_display t (RoleNotFound i) = ''role '' @ decimal i @ '' is not in the context''"
| "validation_error_display t (ConnectionNotFound i) =
     ''connection '' @ decimal i @ '' is not in the context''"
| "validation_error_display t (InvalidBlockEnd b e) =
     operation_display t e @ '' does not close '' @ operation_display t b"
| "validation_error_display t (UnfinishedBlock op) = operation_display t op @ '' is never closed''"

fun compiler_error_display :: "compiler_error \<Rightarrow> string" where
  "compiler_error_display (MissingValue i) = ''v'' @ decimal i @ '' has no value''"
| "compiler_error_display (UnexpectedValue i) = ''v'' @ decimal i @ '' has the wrong type''"
| "compiler_error_display (StringTooLong i) = ''v'' @ decimal i @ '' is longer than 255 bytes''"
| "compiler_error_display UnbalancedBlock = ''a block ends that never began''"
| "compiler_error_display (Encoding e) = ''encoding failed: '' @ e"

section \<open>Programs\<close>

definition newline :: string where "newline = [char_of (10 :: nat)]"

definition variable_name :: "nat \<Rightarrow> string" where "variable_name i = ''v'' @ decimal i"

definition variable_names :: "nat \<Rightarrow> nat \<Rightarrow> string list" where
  "variable_names var n = map variable_name [var..<var + n]"

text \<open>A line of the listing, for the number of the next variable and the indentation.\<close>

definition display_line :: "debug_texts \<Rightarrow> nat \<Rightarrow> nat \<Rightarrow> instruction \<Rightarrow> string" where
  "display_line t var indent i =
     (let op = operation i; outs = num_outputs op; inner = num_inner_outputs op in
      concat (replicate indent ''  '') @
      (if 0 < outs then joined (variable_names var outs) @ '' <- '' else []) @
      operation_display t op @
      (if inputs i \<noteq> [] then ''('' @ joined (map variable_name (inputs i)) @ '')'' else []) @
      (if 0 < inner then '' -> '' @ joined (variable_names (var + outs) inner) else []) @
      newline)"

fun display_lines :: "debug_texts \<Rightarrow> nat \<Rightarrow> nat \<Rightarrow> instruction list \<Rightarrow> string" where
  "display_lines t var indent [] = []"
| "display_lines t var indent (i # ins) =
     (let op = operation i;
          indent1 = (if is_block_end op then indent - 1 else indent);
          indent2 = (if is_block_begin op then indent1 + 1 else indent1)
      in display_line t var indent1 i @ display_lines t (var + num_outputs op + num_inner_outputs op) indent2 ins)"

definition display_program :: "debug_texts \<Rightarrow> program \<Rightarrow> string" where
  "display_program t p =
     ''// roles='' @ decimal (num_roles (prog_context p)) @
     '' connections='' @ decimal (num_connections (prog_context p)) @
     '' seed='' @ decimal (seed (prog_context p)) @ newline @
     display_lines t 0 0 (instructions p)"

section \<open>The listing names the variables there are\<close>

text \<open>The indentation of a program is the depth of its blocks.\<close>

fun indent_after :: "nat \<Rightarrow> instruction list \<Rightarrow> nat" where
  "indent_after d [] = d"
| "indent_after d (i # ins) =
     (let d1 = (if is_block_end (operation i) then d - 1 else d)
      in indent_after (if is_block_begin (operation i) then d1 + 1 else d1) ins)"

lemma display_lines_append:
  "display_lines t var d (xs @ ys) =
   display_lines t var d xs @ display_lines t (var + variable_total xs) (indent_after d xs) ys"
  by (induction xs arbitrary: var d) (simp_all add: Let_def add.assoc)

lemma display_lines_Cons:
  "\<exists>rest. display_lines t var d (i # ins) =
     display_line t var (d - (if is_block_end (operation i) then 1 else 0)) i @ rest"
  by (auto simp: Let_def)

lemma wt_steps_indent:
  "wt_steps ctx t ins t' \<Longrightarrow> frames t \<noteq> [] \<Longrightarrow>
   indent_after (length (frames t) - 1) ins = length (frames t') - 1"
proof (induction rule: wt_steps.induct)
  case (wt_cons t i t' ins t'')
  have "frames t' \<noteq> []" using wt_cons.hyps(1) by (rule wt_step_frames_ne)
  moreover from wt_cons.hyps(1) wt_cons.prems have
    "indent_after (length (frames t) - 1) (i # ins) = indent_after (length (frames t') - 1) ins"
    by (cases rule: wt_step.cases) (auto simp: Let_def)
  ultimately show ?case using wt_cons.IH by simp
qed simp

section \<open>Properties\<close>

text \<open>In the listing of a valid program the line of each instruction is indented by the blocks
  open around it and names exactly the variables the builder defines for it, outputs before the
  arrow and inner outputs after it, so the names in the inputs of later lines refer to what they
  show.\<close>

theorem listing_names_variables:
  assumes "is_statically_valid p = Ok True" and "instructions p = pre @ i # post"
  shows "\<exists>b vs b'. from_prefix (prog_context p) pre = Ok b \<and> append i b = (Ok vs, b') \<and>
    map variable_name (map iv_index vs) =
      variable_names (length (variables b)) (num_outputs (operation i)) @
      variable_names (length (variables b) + num_outputs (operation i)) (num_inner_outputs (operation i)) \<and>
    (\<exists>above below. display_program t p = above @
       display_line t (length (variables b))
         (length (active_scopes b) - 1 - (if is_block_end (operation i) then 1 else 0)) i @ below)"
proof -
  let ?c = "prog_context p"
  obtain u where "wt_steps ?c init_typing (pre @ i # post) u"
    using assms by (auto simp: statically_valid_iff wt_program_def)
  then obtain v w where v: "wt_steps ?c init_typing pre v" "wt_step ?c v i w"
    unfolding wt_steps_append by (metis wt_steps_ConsE)
  obtain b where b: "from_prefix ?c pre = Ok b" "builder_inv b" "abs_typing b = v" "b_context b = ?c"
    using from_prefix_complete [OF v(1)] from_prefix_Ok by metis
  from append_complete [OF b(2)] v(2) b(3, 4) obtain b' where
    app: "append i b = (Ok (defined_vars (length (variables b)) (operation i)), b')" by metis
  have names: "map variable_name (map iv_index (defined_vars (length (variables b)) (operation i))) =
      variable_names (length (variables b)) (num_outputs (operation i)) @
      variable_names (length (variables b) + num_outputs (operation i)) (num_inner_outputs (operation i))"
    by (rule nth_equalityI)
      (auto simp: defined_vars_def variable_names_def num_outputs_def num_inner_outputs_def
        nth_append nth_enumerate_eq)
  have len: "length (variables b) = variable_total pre"
    using wt_steps_next [OF v(1)] b(3) by (auto simp: init_typing_def)
  have indent: "indent_after 0 pre = length (active_scopes b) - 1"
    using wt_steps_indent [OF v(1)] b(3) by (auto simp: init_typing_def)
  obtain rest where rest: "display_lines t (0 + variable_total pre) (indent_after 0 pre) (i # post) =
      display_line t (length (variables b))
        (length (active_scopes b) - 1 - (if is_block_end (operation i) then 1 else 0)) i @ rest"
    using display_lines_Cons unfolding len indent add_0 by metis
  have "\<exists>above below. display_program t p = above @
       display_line t (length (variables b))
         (length (active_scopes b) - 1 - (if is_block_end (operation i) then 1 else 0)) i @ below"
    unfolding display_program_def assms(2) display_lines_append rest by (metis append.assoc)
  with b(1) app names show ?thesis by blast
qed

theorem listing_names_variables_witness:
  "\<exists>above below. display_program
     \<lparr>debug_str = (\<lambda>s. s), debug_duration = decimal\<rparr>
     \<lparr>prog_context = \<lparr>num_roles = 1, num_connections = 0, seed = 0\<rparr>,
      instructions = [Instruction (LoadRole 0) [], Instruction Connect [0]]\<rparr> =
     above @ ''v1 <- Connect(v0)'' @ below"
proof -
  let ?p = "\<lparr>prog_context = \<lparr>num_roles = 1, num_connections = 0, seed = 0\<rparr>,
      instructions = [Instruction (LoadRole 0) [], Instruction Connect [0]]\<rparr>"
  let ?i = "Instruction Connect [0]"
  let ?t = "\<lparr>debug_str = (\<lambda>s. s), debug_duration = decimal\<rparr>"
  have v: "is_statically_valid ?p = (Ok True :: (unit, bool) outcome)" by code_simp
  have ins: "instructions ?p = [Instruction (LoadRole 0) []] @ ?i # []" by simp
  have one: "decimal (Suc 0) = ''1''" "decimal 0 = ''0''" by (simp_all add: decimal.simps char_of_def bit_simps)
  from listing_names_variables [OF v ins, of ?t] obtain b above below where
    b: "from_prefix (prog_context ?p) [Instruction (LoadRole 0) []] = Ok b"
    and listing: "display_program ?t ?p = above @ display_line ?t (length (variables b))
      (length (active_scopes b) - 1 - (if is_block_end (operation ?i) then 1 else 0)) ?i @ below"
    by blast
  from b have "length (variables b) = 1" "length (active_scopes b) = 1"
    by (auto simp: from_prefix_def append_def append_checks_def num_inputs_def check_input_types_def
      append_close_def append_define_def current_scope_def new_builder_def enter_scope_def
      scoped_vars_def)
  with listing have "display_program ?t ?p = above @ ''v1 <- Connect(v0)'' @ newline @ below"
    by (simp add: display_line_def variable_names_def variable_name_def num_outputs_def
        num_inner_outputs_def one Let_def)
  then show ?thesis by blast
qed

end
