(* ===== verification/Generators.thy ===== *)
theory Generators
  imports Program_Ops
begin

text \<open>
  The generators of \<open>generators/\<close>, which append a fragment to a program under construction.
  A generator is a function on the builder and the random generator's state; the methods that
  return a \<open>Result\<close> are chained with \<open>gbind\<close>, which leaves with the builder as it is when one
  fails, as the question mark operator does.
\<close>

section \<open>Chaining\<close>

type_synonym ('r, 'a) gen =
  "builder \<times> 'r \<Rightarrow> (program_validation_error, 'a) outcome \<times> builder \<times> 'r"

definition gret :: "'a \<Rightarrow> ('r, 'a) gen" where
  "gret a = (\<lambda>s. (Ok a, s))"

definition gbind :: "('r, 'a) gen \<Rightarrow> ('a \<Rightarrow> ('r, 'b) gen) \<Rightarrow> ('r, 'b) gen" where
  "gbind m f = (\<lambda>s. case m s of
       (Ok a, s') \<Rightarrow> f a s'
     | (Err e, s') \<Rightarrow> (Err e, s')
     | (Panic, s') \<Rightarrow> (Panic, s'))"

definition draw :: "('r \<Rightarrow> 'a \<times> 'r) \<Rightarrow> ('r, 'a) gen" where
  "draw f = (\<lambda>(b, r). let (a, r') = f r in (Ok a, b, r'))"

definition emit :: "operation \<Rightarrow> indexed_variable list \<Rightarrow> ('r, indexed_variable list) gen" where
  "emit op ins = (\<lambda>(b, r). let (res, b') = append_op op ins b in (res, b', r))"

text \<open>\<open>one(...)\<close>: the single variable an operation produces; the assertion panics otherwise.\<close>

definition one :: "indexed_variable list \<Rightarrow> (program_validation_error, indexed_variable) outcome" where
  "one vs = (case vs of [v] \<Rightarrow> Ok v | _ \<Rightarrow> Panic)"

definition emit_one :: "operation \<Rightarrow> indexed_variable list \<Rightarrow> ('r, indexed_variable) gen" where
  "emit_one op ins = gbind (emit op ins) (\<lambda>vs s. (one vs, s))"

definition random_variable :: "'r rng_ops \<Rightarrow> variable \<Rightarrow> ('r, indexed_variable option) gen" where
  "random_variable g var = (\<lambda>(b, r). let (v, r') = get_random_variable g b var r in (Ok v, b, r'))"

text \<open>\<open>*array.choose(rng).expect(...)\<close>.\<close>

definition choose_expect :: "'r rng_ops \<Rightarrow> 'a list \<Rightarrow> ('r, 'a) gen" where
  "choose_expect g xs = gbind (draw (choose_from g xs))
     (\<lambda>a s. case a of None \<Rightarrow> (Panic, s) | Some x \<Rightarrow> (Ok x, s))"

section \<open>Setting a connection up\<close>

definition protocols :: "protocol list" where
  "protocols = [Mining, JobDeclaration, TemplateDistribution]"

definition current_version :: u16 where
  "current_version = 2"

fun defined_flags :: "protocol \<Rightarrow> u32" where
  "defined_flags Mining = 7"
| "defined_flags JobDeclaration = 1"
| "defined_flags TemplateDistribution = 0"

datatype connection_choice = Fresh | Reuse | AnyConnection

definition open_connection :: "nat \<Rightarrow> ('r, indexed_variable) gen" where
  "open_connection role =
     gbind (emit_one (LoadRole role) []) (\<lambda>r. emit_one Connect [r])"

definition connection ::
  "'r rng_ops \<Rightarrow> nat \<Rightarrow> connection_choice \<Rightarrow> ('r, indexed_variable) gen" where
  "connection g role choice =
     gbind (case choice of
              Fresh \<Rightarrow> gret None
            | Reuse \<Rightarrow> random_variable g VConnection
            | AnyConnection \<Rightarrow> gbind (draw (random_bool g (1 / 2)))
                (\<lambda>yes. if yes then random_variable g VConnection else gret None))
       (\<lambda>reuse. case reuse of Some c \<Rightarrow> gret c | None \<Rightarrow> open_connection role)"

definition set_endpoint :: "indexed_variable \<Rightarrow> ('r, unit) gen" where
  "set_endpoint setup =
     gbind (emit_one (LoadStr ''0.0.0.0'') []) (\<lambda>host.
     gbind (emit_one (LoadPort 0) []) (\<lambda>port.
     gbind (emit SetEndpoint [setup, host, port]) (\<lambda>_. gret ())))"

definition set_device_info :: "indexed_variable \<Rightarrow> ('r, unit) gen" where
  "set_device_info setup =
     gbind (emit_one (LoadStr ''stratamoto'') []) (\<lambda>v.
     gbind (emit_one (LoadStr []) []) (\<lambda>h.
     gbind (emit_one (LoadStr []) []) (\<lambda>f.
     gbind (emit_one (LoadStr []) []) (\<lambda>d.
     gbind (emit SetDeviceInfo [setup, v, h, f, d]) (\<lambda>_. gret ())))))"

definition setup_connection ::
  "'r rng_ops \<Rightarrow> indexed_variable \<Rightarrow> protocol \<Rightarrow> u16 \<Rightarrow> u16 \<Rightarrow> u32 \<Rightarrow> ('r, indexed_variable) gen" where
  "setup_connection g conn p lo hi fl =
     gbind (emit_one (LoadVersion lo) []) (\<lambda>vlo.
     gbind (emit_one (LoadVersion hi) []) (\<lambda>vhi.
     gbind (emit_one (LoadFlags fl) []) (\<lambda>vfl.
     gbind (emit_one BeginBuildSetupConnection []) (\<lambda>setup.
     gbind (emit SetVersions [setup, vlo, vhi]) (\<lambda>_.
     gbind (emit SetFlags [setup, vfl]) (\<lambda>_.
     gbind (draw (random_bool g (1 / 2))) (\<lambda>endpoint.
     gbind (if endpoint then set_endpoint setup else gret ()) (\<lambda>_.
     gbind (draw (random_bool g (1 / 2))) (\<lambda>device.
     gbind (if device then set_device_info setup else gret ()) (\<lambda>_.
     gbind (emit_one (EndBuildSetupConnection p) [setup]) (\<lambda>done_setup.
       emit_one (SendSetupConnection p) [conn, done_setup])))))))))))"

record setup_generator =
  sg_role :: nat
  sg_protocol :: "protocol option"
  sg_connection :: connection_choice

definition new_setup_generator :: "nat \<Rightarrow> setup_generator" where
  "new_setup_generator role = \<lparr>sg_role = role, sg_protocol = None, sg_connection = Fresh\<rparr>"

definition pick_protocol :: "'r rng_ops \<Rightarrow> protocol option \<Rightarrow> ('r, protocol) gen" where
  "pick_protocol g p = (case p of Some q \<Rightarrow> gret q | None \<Rightarrow> choose_expect g protocols)"

definition generate_setup :: "'r rng_ops \<Rightarrow> setup_generator \<Rightarrow> ('r, unit) gen" where
  "generate_setup g sg =
     gbind (pick_protocol g (sg_protocol sg)) (\<lambda>p.
     gbind (connection g (sg_role sg) (sg_connection sg)) (\<lambda>conn.
     gbind (draw (random_u32 g)) (\<lambda>bits.
     gbind (setup_connection g conn p current_version current_version (and bits (defined_flags p)))
       (\<lambda>_. gret ()))))"

section \<open>Violating one constraint\<close>

datatype setup_violation =
  EmptyVersionRange | UnknownVersion | UndefinedFlags | AfterRawFrame | SecondSetup

definition all_violations :: "setup_violation list" where
  "all_violations = [EmptyVersionRange, UnknownVersion, UndefinedFlags, AfterRawFrame, SecondSetup]"

definition any_violation :: "'r rng_ops \<Rightarrow> ('r, setup_violation) gen" where
  "any_violation g = choose_expect g all_violations"

record adversarial_generator =
  ag_role :: nat
  ag_protocol :: "protocol option"
  ag_violation :: setup_violation

text \<open>\<open>u32::isolate_lowest_one\<close>.\<close>

definition isolate_lowest_one :: "u32 \<Rightarrow> u32" where
  "isolate_lowest_one w = and w (- w)"

definition undefined_flags :: "u32 \<Rightarrow> u32 \<Rightarrow> u32 \<Rightarrow> u32" where
  "undefined_flags fl bits undef =
     (let fl1 = or fl (and bits undef)
      in if and fl1 undef = 0 then or fl1 (isolate_lowest_one undef) else fl1)"

definition violate ::
  "'r rng_ops \<Rightarrow> setup_violation \<Rightarrow> nat \<Rightarrow> protocol \<Rightarrow> u32 \<Rightarrow> ('r, unit) gen" where
  "violate g v role p fl =
     (case v of
        EmptyVersionRange \<Rightarrow>
          gbind (connection g role Fresh) (\<lambda>conn.
          gbind (setup_connection g conn p (current_version + 1) current_version fl) (\<lambda>_. gret ()))
      | UnknownVersion \<Rightarrow>
          gbind (connection g role Fresh) (\<lambda>conn.
          gbind (choose_expect g [0, 1, current_version + 1, 65535]) (\<lambda>ver.
          gbind (setup_connection g conn p ver ver fl) (\<lambda>_. gret ())))
      | UndefinedFlags \<Rightarrow>
          gbind (connection g role Fresh) (\<lambda>conn.
          gbind (draw (random_u32 g)) (\<lambda>bits.
          gbind (setup_connection g conn p current_version current_version
                   (undefined_flags fl bits (not (defined_flags p)))) (\<lambda>_. gret ())))
      | AfterRawFrame \<Rightarrow>
          gbind (connection g role Fresh) (\<lambda>conn.
          gbind (emit_one (LoadBytes (replicate 6 0)) []) (\<lambda>bytes.
          gbind (draw (random_u8 g)) (\<lambda>msg.
          gbind (emit (SendRawFrame msg 0) [conn, bytes]) (\<lambda>_.
          gbind (setup_connection g conn p current_version current_version fl) (\<lambda>_. gret ())))))
      | SecondSetup \<Rightarrow>
          gbind (connection g role Fresh) (\<lambda>conn.
          gbind (setup_connection g conn p current_version current_version fl) (\<lambda>_.
          gbind (setup_connection g conn p current_version current_version fl) (\<lambda>_. gret ()))))"

definition generate_adversarial :: "'r rng_ops \<Rightarrow> adversarial_generator \<Rightarrow> ('r, unit) gen" where
  "generate_adversarial g ag =
     gbind (pick_protocol g (ag_protocol ag)) (\<lambda>p.
     gbind (draw (random_u32 g)) (\<lambda>bits.
       violate g (ag_violation ag) (ag_role ag) p (and bits (defined_flags p))))"

section \<open>Raw frames\<close>

fun draw_bytes :: "'r rng_ops \<Rightarrow> nat \<Rightarrow> 'r \<Rightarrow> u8 list \<times> 'r" where
  "draw_bytes g 0 r = ([], r)"
| "draw_bytes g (Suc n) r =
     (let (x, r1) = random_u8 g r; (xs, r2) = draw_bytes g n r1 in (x # xs, r2))"

definition draw_extension :: "'r rng_ops \<Rightarrow> ('r, u16) gen" where
  "draw_extension g = gbind (draw (random_bool g (1 / 4)))
     (\<lambda>yes. if yes then gbind (draw (random_range g 1 0x8000)) (\<lambda>n. gret (of_nat n)) else gret 0)"

definition generate_raw_frame :: "'r rng_ops \<Rightarrow> nat \<Rightarrow> ('r, unit) gen" where
  "generate_raw_frame g role =
     gbind (random_variable g VConnection) (\<lambda>c.
     gbind (case c of Some conn \<Rightarrow> gret conn | None \<Rightarrow> open_connection role) (\<lambda>conn.
     gbind (draw (random_range g 0 64)) (\<lambda>len.
     gbind (draw (draw_bytes g len)) (\<lambda>payload.
     gbind (emit_one (LoadBytes payload) []) (\<lambda>bytes.
     gbind (draw_extension g) (\<lambda>ext.
     gbind (draw (random_u8 g)) (\<lambda>msg.
     gbind (emit (SendRawFrame msg ext) [conn, bytes]) (\<lambda>_. gret ()))))))))"

section \<open>Reasoning about generators\<close>

text \<open>
  A site describes the open frames a generator works in: the opener of each and the variables
  it knows to be visible there, above frames it leaves alone.
\<close>

type_synonym site = "(operation option \<times> indexed_variable list) list"

definition visible :: "frame list \<Rightarrow> indexed_variable \<Rightarrow> bool" where
  "visible fs v \<longleftrightarrow> in_scope fs (iv_index v) (iv_var v)"

fun at_site :: "site \<Rightarrow> frame list \<Rightarrow> frame list \<Rightarrow> bool" where
  "at_site [] below fs = (fs = below)"
| "at_site ((opener, vs) # st) below fs =
     (\<exists>F gs. fs = (opener, F) # gs \<and> at_site st below gs \<and> (\<forall>v \<in> set vs. visible fs v))"

definition site_vars :: "site \<Rightarrow> indexed_variable set" where
  "site_vars st = set (concat (map snd st))"

definition grew :: "builder \<Rightarrow> builder \<Rightarrow> bool" where
  "grew b b' \<longleftrightarrow> builder_inv b' \<and> b_context b' = b_context b \<and>
     (\<exists>new. b_instructions b' = b_instructions b @ new \<and>
        wt_steps (b_context b) (abs_typing b) new (abs_typing b'))"

text \<open>
  \<open>runs ctx below st m Q\<close>: started at site \<open>st\<close>, the generator succeeds, has only appended
  well-typed instructions, and ends with a result and a site that satisfy \<open>Q\<close>.
\<close>

definition runs ::
  "program_context \<Rightarrow> frame list \<Rightarrow> site \<Rightarrow> ('r, 'a) gen \<Rightarrow> ('a \<Rightarrow> site \<Rightarrow> bool) \<Rightarrow> bool" where
  "runs ctx below st m Q \<longleftrightarrow>
     (\<forall>b r. builder_inv b \<longrightarrow> b_context b = ctx \<longrightarrow> at_site st below (frames (abs_typing b)) \<longrightarrow>
        (\<exists>a b' r' st'. m (b, r) = (Ok a, b', r') \<and> grew b b' \<and>
           at_site st' below (frames (abs_typing b')) \<and> Q a st'))"

lemma grew_refl: "builder_inv b \<Longrightarrow> grew b b"
  by (auto simp: grew_def intro: wt_nil)

lemma grew_trans: "grew b c \<Longrightarrow> grew c d \<Longrightarrow> grew b d"
  unfolding grew_def by (metis append.assoc wt_steps_append)

lemma runsD:
  assumes "runs ctx below st m Q" and "builder_inv b" "b_context b = ctx"
    and "at_site st below (frames (abs_typing b))"
  obtains a b' r' st' where "m (b, r) = (Ok a, b', r')" "grew b b'"
    "at_site st' below (frames (abs_typing b'))" "Q a st'"
  using assms unfolding runs_def by metis

lemma runs_ret: "Q a st \<Longrightarrow> runs ctx below st (gret a) Q"
  by (auto simp: runs_def gret_def intro: grew_refl)

lemma runs_bind:
  assumes "runs ctx below st m P" and "\<And>a st'. P a st' \<Longrightarrow> runs ctx below st' (f a) Q"
  shows "runs ctx below st (gbind m f) Q"
  unfolding runs_def
proof (intro allI impI)
  fix b r assume b: "builder_inv b" "b_context b = ctx" "at_site st below (frames (abs_typing b))"
  from assms(1) b obtain a c r1 st1 where 1: "m (b, r) = (Ok a, c, r1)" "grew b c"
    "at_site st1 below (frames (abs_typing c))" "P a st1"
    by (rule runsD)
  from 1(2) b(2) have "builder_inv c" "b_context c = ctx" by (auto simp: grew_def)
  from assms(2) [OF 1(4)] this 1(3) obtain a' d r2 st2 where "f a (c, r1) = (Ok a', d, r2)" "grew c d"
    "at_site st2 below (frames (abs_typing d))" "Q a' st2"
    by (rule runsD)
  moreover from this 1 have "gbind m f (b, r) = (Ok a', d, r2)" by (simp add: gbind_def)
  moreover from calculation 1 have "grew b d" by (blast intro: grew_trans)
  ultimately show "\<exists>a b' r' st'. gbind m f (b, r) = (Ok a, b', r') \<and> grew b b' \<and>
      at_site st' below (frames (abs_typing b')) \<and> Q a st'"
    by (intro exI conjI)
qed

lemma runs_weaken: "runs ctx below st m P \<Longrightarrow> (\<And>a st'. P a st' \<Longrightarrow> Q a st') \<Longrightarrow> runs ctx below st m Q"
  unfolding runs_def by blast

lemma runs_draw: "(\<And>r. Q (fst (f r)) st) \<Longrightarrow> runs ctx below st (draw f) Q"
  by (auto simp: runs_def draw_def case_prod_beta intro: grew_refl)

lemma runs_choose:
  assumes "rng_ok g" and "xs \<noteq> []" and "\<And>x. x \<in> set xs \<Longrightarrow> Q x st"
  shows "runs ctx below st (choose_expect g xs) Q"
  unfolding runs_def
proof (intro allI impI)
  fix b r assume "builder_inv b" "at_site st below (frames (abs_typing b))"
  moreover obtain o1 r' where c: "choose_from g xs r = (o1, r')" by fastforce
  with choose_from_None [OF assms(1)] assms(2) obtain x where "o1 = Some x" by (cases o1) auto
  ultimately show "\<exists>a b' r' st'. choose_expect g xs (b, r) = (Ok a, b', r') \<and> grew b b' \<and>
      at_site st' below (frames (abs_typing b')) \<and> Q a st'"
    using c assms(3) choose_from_in [of g xs r x r']
    by (auto simp: choose_expect_def gbind_def draw_def intro: grew_refl)
qed

lemma site_vars_Cons [simp]: "site_vars ((k, vs) # st) = set vs \<union> site_vars st"
  by (simp add: site_vars_def)

lemma visible_Cons: "visible gs v \<Longrightarrow> visible (fr # gs) v"
  by (auto simp: visible_def in_scope_def)

lemma visible_site: "at_site st below fs \<Longrightarrow> v \<in> site_vars st \<Longrightarrow> visible fs v"
  by (induction st below fs rule: at_site.induct) (auto simp: site_vars_def intro: visible_Cons)

lemma visible_mono: "visible ((k, F) # gs) v \<Longrightarrow> visible ((k, F \<union> G) # gs) v"
  by (auto simp: visible_def in_scope_def)

text \<open>The step that appends an operation, from its typing step.\<close>

lemma runs_emit:
  assumes "\<And>t. at_site st below (frames t) \<Longrightarrow> \<exists>t'. wt_step ctx t (Instruction op (map iv_index ins)) t' \<and>
      (\<exists>st'. at_site st' below (frames t') \<and> Q (defined_vars (next_var t) op) st')"
  shows "runs ctx below st (emit op ins) Q"
  unfolding runs_def
proof (intro allI impI)
  fix b r assume b: "builder_inv b" "b_context b = ctx" "at_site st below (frames (abs_typing b))"
  from assms [OF b(3)] obtain t' st' where
    t': "wt_step (b_context b) (abs_typing b) (Instruction op (map iv_index ins)) t'"
    "at_site st' below (frames t')" "Q (defined_vars (length (variables b)) op) st'"
    using b(2) by auto
  from append_complete [OF b(1) t'(1)] obtain b' where
    b': "append (Instruction op (map iv_index ins)) b =
      (Ok (defined_vars (length (variables b)) op), b')" "abs_typing b' = t'" by auto
  from append_Ok_cases [OF b(1) b'(1)] b'(2) t'(1) have "grew b b'"
    by (auto simp: grew_def simp del: abs_typing_simps intro: wt_steps.intros)
  with b' t' show "\<exists>a b' r' st'. emit op ins (b, r) = (Ok a, b', r') \<and> grew b b' \<and>
      at_site st' below (frames (abs_typing b')) \<and> Q a st'"
    by (auto simp: emit_def append_op_def)
qed

lemma inputs_visible:
  assumes "at_site st below fs" and "set ins \<subseteq> site_vars st"
    and "map iv_var ins = get_input_variables op"
  shows "wt_inputs fs (Instruction op (map iv_index ins))"
proof -
  have "in_scope fs (iv_index (ins ! k)) (iv_var (ins ! k))" if "k < length ins" for k
    using visible_site [OF assms(1)] subsetD [OF assms(2) nth_mem [OF that]]
    by (simp add: visible_def)
  then show ?thesis
    by (simp add: wt_inputs_def list_all2_conv_all_nth assms(3) [symmetric])
qed

lemma emit_site_intro:
  assumes "wt_step ctx t i \<lparr>frames = fs, next_var = n\<rparr>" and "at_site st' below fs" and "Q xs st'"
  shows "\<exists>t'. wt_step ctx t i t' \<and> (\<exists>st'. at_site st' below (frames t') \<and> Q xs st')"
  using assms by (intro exI [of _ "\<lparr>frames = fs, next_var = n\<rparr>"]) auto

text \<open>Appending a plain operation, one that opens a block, and one that closes it.\<close>

lemma runs_emit_plain:
  assumes "\<not> is_block_begin op" "\<not> is_block_end op" "\<not> is_nop op" "in_context ctx op"
    and "set ins \<subseteq> site_vars ((k, vs) # st)" "map iv_var ins = get_input_variables op"
    and "\<And>n. Q (defined_vars n op) ((k, defined_vars n op @ vs) # st)"
  shows "runs ctx below ((k, vs) # st) (emit op ins) Q"
proof (rule runs_emit)
  fix t :: typing_state assume site: "at_site ((k, vs) # st) below (frames t)"
  then obtain F gs where fr: "frames t = (k, F) # gs" "at_site st below gs"
    "\<forall>v \<in> set vs. visible (frames t) v" by auto
  have "wt_inputs (frames t) (Instruction op (map iv_index ins))"
    using inputs_visible [OF site assms(5, 6)] .
  with wt_step.wt_plain [of "Instruction op (map iv_index ins)" t ctx k F gs]
  have step: "wt_step ctx t (Instruction op (map iv_index ins))
      \<lparr>frames = (k, F \<union> outer_vars (next_var t) op) # gs, next_var = next_var t + num_defined op\<rparr>"
    using assms(1-4) fr(1) by simp
  have "visible ((k, F \<union> outer_vars (next_var t) op) # gs) v"
    if "v \<in> set (defined_vars (next_var t) op)" for v
    using that assms(1, 3) inner_outputs_not_begin [of op]
    by (auto simp: defined_vars_def outer_vars_def visible_def in_scope_def)
  moreover have "visible ((k, F \<union> outer_vars (next_var t) op) # gs) v" if "v \<in> set vs" for v
    using fr(1, 3) that visible_mono by metis
  ultimately have "at_site ((k, defined_vars (next_var t) op @ vs) # st) below
      ((k, F \<union> outer_vars (next_var t) op) # gs)" using fr(2) by auto
  from emit_site_intro [OF step this, where Q = Q, OF assms(7)]
  show "\<exists>t'. wt_step ctx t (Instruction op (map iv_index ins)) t' \<and>
      (\<exists>st'. at_site st' below (frames t') \<and> Q (defined_vars (next_var t) op) st')" .
qed

lemma runs_emit_begin:
  assumes "is_block_begin op" "in_context ctx op"
    and "set ins \<subseteq> site_vars st" "map iv_var ins = get_input_variables op"
    and "\<And>n. Q (defined_vars n op) ((Some op, defined_vars n op) # st)"
  shows "runs ctx below st (emit op ins) Q"
proof (rule runs_emit)
  fix t :: typing_state assume site: "at_site st below (frames t)"
  have "wt_inputs (frames t) (Instruction op (map iv_index ins))"
    using inputs_visible [OF site assms(3, 4)] .
  with wt_step.wt_begin [of "Instruction op (map iv_index ins)" t ctx]
  have step: "wt_step ctx t (Instruction op (map iv_index ins))
      \<lparr>frames = (Some op, inner_vars (next_var t) op) # frames t,
       next_var = next_var t + num_defined op\<rparr>"
    using assms(1, 2) by simp
  have "visible ((Some op, inner_vars (next_var t) op) # frames t) v"
    if "v \<in> set (defined_vars (next_var t) op)" for v
    using that assms(1) by (auto simp: defined_vars_def inner_vars_def visible_def in_scope_def
        dest: nop_not_block)
  with site have "at_site ((Some op, defined_vars (next_var t) op) # st) below
      ((Some op, inner_vars (next_var t) op) # frames t)" by auto
  from emit_site_intro [OF step this, where Q = Q, OF assms(5)]
  show "\<exists>t'. wt_step ctx t (Instruction op (map iv_index ins)) t' \<and>
      (\<exists>st'. at_site st' below (frames t') \<and> Q (defined_vars (next_var t) op) st')" .
qed

lemma runs_emit_end:
  assumes "is_block_end op" "in_context ctx op" "is_matching_block_begin op bg"
    and "set ins \<subseteq> site_vars ((Some bg, us) # (k, vs) # st)"
    and "map iv_var ins = get_input_variables op"
    and "\<And>n. Q (defined_vars n op) ((k, defined_vars n op @ vs) # st)"
  shows "runs ctx below ((Some bg, us) # (k, vs) # st) (emit op ins) Q"
proof (rule runs_emit)
  fix t :: typing_state assume site: "at_site ((Some bg, us) # (k, vs) # st) below (frames t)"
  then obtain F G gs where fr: "frames t = (Some bg, F) # (k, G) # gs" "at_site st below gs"
    "\<forall>v \<in> set vs. visible ((k, G) # gs) v" by auto
  have "wt_inputs (frames t) (Instruction op (map iv_index ins))"
    using inputs_visible [OF site assms(4, 5)] .
  with wt_step.wt_end [of "Instruction op (map iv_index ins)" t ctx bg F k G gs]
  have step: "wt_step ctx t (Instruction op (map iv_index ins))
      \<lparr>frames = (k, G \<union> outer_vars (next_var t) op) # gs, next_var = next_var t + num_defined op\<rparr>"
    using assms(1-3) fr(1) by simp
  have "visible ((k, G \<union> outer_vars (next_var t) op) # gs) v"
    if "v \<in> set (defined_vars (next_var t) op)" for v
    using that assms(1) inner_outputs_not_begin [of op]
    by (auto simp: defined_vars_def outer_vars_def visible_def in_scope_def dest: nop_not_block)
  moreover have "visible ((k, G \<union> outer_vars (next_var t) op) # gs) v" if "v \<in> set vs" for v
    using fr(3) that visible_mono by metis
  ultimately have "at_site ((k, defined_vars (next_var t) op @ vs) # st) below
      ((k, G \<union> outer_vars (next_var t) op) # gs)" using fr(2) by auto
  from emit_site_intro [OF step this, where Q = Q, OF assms(6)]
  show "\<exists>t'. wt_step ctx t (Instruction op (map iv_index ins)) t' \<and>
      (\<exists>st'. at_site st' below (frames t') \<and> Q (defined_vars (next_var t) op) st')" .
qed

text \<open>The same for an operation that defines one variable.\<close>

lemma defined_vars_one:
  "get_output_variables op @ get_inner_output_variables op = [ty] \<Longrightarrow>
   defined_vars n op = [\<lparr>iv_var = ty, iv_index = n\<rparr>]"
  by (simp add: defined_vars_def)

lemma runs_emit_one:
  assumes "runs ctx below st (emit op ins :: ('r, indexed_variable list) gen)
             (\<lambda>vs st'. \<exists>v. vs = [v] \<and> Q v st')"
  shows "runs ctx below st (emit_one op ins :: ('r, indexed_variable) gen) Q"
  unfolding emit_one_def
  by (rule runs_bind [OF assms]) (auto simp: runs_def one_def intro: grew_refl)

lemma runs_load:
  assumes "\<not> is_block_begin op" "\<not> is_block_end op" "\<not> is_nop op" "in_context ctx op"
    and "set ins \<subseteq> site_vars ((k, vs) # st)" "map iv_var ins = get_input_variables op"
    and "get_output_variables op @ get_inner_output_variables op = [ty]"
    and "\<And>v. iv_var v = ty \<Longrightarrow> Q v ((k, v # vs) # st)"
  shows "runs ctx below ((k, vs) # st) (emit_one op ins) Q"
  by (rule runs_emit_one, rule runs_emit_plain [OF assms(1-6)])
    (simp add: defined_vars_one [OF assms(7)] assms(8))

lemma runs_set:
  assumes "\<not> is_block_begin op" "\<not> is_block_end op" "\<not> is_nop op" "in_context ctx op"
    and "set ins \<subseteq> site_vars ((k, vs) # st)" "map iv_var ins = get_input_variables op"
    and "get_output_variables op @ get_inner_output_variables op = []"
    and "\<And>xs. Q xs ((k, vs) # st)"
  shows "runs ctx below ((k, vs) # st) (emit op ins) Q"
proof -
  have "defined_vars n op = []" for n using assms(7) by (simp add: defined_vars_def)
  with assms show ?thesis by (intro runs_emit_plain) auto
qed

text \<open>A variable drawn from those in scope may be added to what is known of a site.\<close>

lemma runs_random_variable:
  assumes "Q None ((k, vs) # st)" and "\<And>v. iv_var v = ty \<Longrightarrow> Q (Some v) ((k, v # vs) # st)"
  shows "runs ctx below ((k, vs) # st) (random_variable g ty) Q"
  unfolding runs_def
proof (intro allI impI)
  fix b r assume b: "builder_inv b" "at_site ((k, vs) # st) below (frames (abs_typing b))"
  obtain o1 r' where v: "get_random_variable g b ty r = (o1, r')" by fastforce
  show "\<exists>a b' r' st'. random_variable g ty (b, r) = (Ok a, b', r') \<and> grew b b' \<and>
      at_site st' below (frames (abs_typing b')) \<and> Q a st'"
  proof (cases o1)
    case None
    with v b assms(1) show ?thesis
      by (auto simp: random_variable_def simp del: abs_typing_simps at_site.simps intro: grew_refl)
  next
    case (Some w)
    with v have "w \<in> set (variables_of_type b ty)"
      by (auto simp: get_random_variable_def dest: choose_from_in)
    then have w: "iv_var w = ty" "\<exists>i. get_variable b i = Some w"
      by (auto simp: variables_of_type_def List.map_filter_def)
    from w(2) have "visible (frames (abs_typing b)) w"
      unfolding visible_def in_scope_abs [OF b(1)]
      by (auto simp: get_variable_def get_def split: option.splits if_splits)
    with b(2) have "at_site ((k, w # vs) # st) below (frames (abs_typing b))"
      by (auto simp del: abs_typing_simps)
    with v b(1) Some assms(2) [OF w(1)] show ?thesis
      by (auto simp: random_variable_def simp del: abs_typing_simps at_site.simps intro: grew_refl)
  qed
qed

section \<open>The generators succeed\<close>

text \<open>
  One operation at a time. The rules keep the site as it is known, its newest variable first;
  the simplifier settles which variables are known and of what type.
\<close>

definition fits :: "program_context \<Rightarrow> site \<Rightarrow> operation \<Rightarrow> indexed_variable list \<Rightarrow> bool" where
  "fits ctx st op ins \<longleftrightarrow> in_context ctx op \<and> set ins \<subseteq> site_vars st \<and>
     map iv_var ins = get_input_variables op"

abbreviation the_output :: "operation \<Rightarrow> variable" where
  "the_output op \<equiv> hd (get_output_variables op @ get_inner_output_variables op)"

lemma one_output:
  "length (get_output_variables op @ get_inner_output_variables op) = 1 \<Longrightarrow>
   get_output_variables op @ get_inner_output_variables op = [the_output op]"
  by (cases "get_output_variables op @ get_inner_output_variables op") auto

lemma runs_bind_load:
  assumes "\<not> is_block_begin op \<and> \<not> is_block_end op \<and> \<not> is_nop op" "fits ctx ((k, vs) # st) op ins"
    and "length (get_output_variables op @ get_inner_output_variables op) = 1"
    and "\<And>v. iv_var v = the_output op \<Longrightarrow> runs ctx below ((k, v # vs) # st) (f v) Q"
  shows "runs ctx below ((k, vs) # st) (gbind (emit_one op ins) f) Q"
proof (rule runs_bind)
  show "runs ctx below ((k, vs) # st) (emit_one op ins)
      (\<lambda>v st'. iv_var v = the_output op \<and> st' = (k, v # vs) # st)"
    by (rule runs_load [OF _ _ _ _ _ _ one_output [OF assms(3)]])
      (use assms(1, 2) in \<open>simp_all add: fits_def\<close>)
qed (use assms(4) in blast)

lemma runs_bind_set:
  assumes "\<not> is_block_begin op \<and> \<not> is_block_end op \<and> \<not> is_nop op" "fits ctx ((k, vs) # st) op ins"
    and "get_output_variables op @ get_inner_output_variables op = []"
    and "\<And>xs. runs ctx below ((k, vs) # st) (f xs) Q"
  shows "runs ctx below ((k, vs) # st) (gbind (emit op ins) f) Q"
proof (rule runs_bind)
  show "runs ctx below ((k, vs) # st) (emit op ins) (\<lambda>_ st'. st' = (k, vs) # st)"
    by (rule runs_set) (use assms(1-3) in \<open>simp_all add: fits_def\<close>)
qed (use assms(4) in blast)

lemma runs_bind_begin:
  assumes "is_block_begin op" "fits ctx st op ins"
    and "length (get_output_variables op @ get_inner_output_variables op) = 1"
    and "\<And>v. iv_var v = the_output op \<Longrightarrow> runs ctx below ((Some op, [v]) # st) (f v) Q"
  shows "runs ctx below st (gbind (emit_one op ins) f) Q"
proof (rule runs_bind)
  show "runs ctx below st (emit_one op ins)
      (\<lambda>v st'. iv_var v = the_output op \<and> st' = (Some op, [v]) # st)"
    by (rule runs_emit_one, rule runs_emit_begin [OF assms(1)])
      (use assms(2) in \<open>simp_all add: fits_def defined_vars_one [OF one_output [OF assms(3)]]\<close>)
qed (use assms(4) in blast)

lemma runs_bind_end:
  assumes "is_block_end op" "is_matching_block_begin op bg"
    and "fits ctx ((Some bg, us) # (k, vs) # st) op ins"
    and "length (get_output_variables op @ get_inner_output_variables op) = 1"
    and "\<And>v. iv_var v = the_output op \<Longrightarrow> runs ctx below ((k, v # vs) # st) (f v) Q"
  shows "runs ctx below ((Some bg, us) # (k, vs) # st) (gbind (emit_one op ins) f) Q"
proof (rule runs_bind)
  show "runs ctx below ((Some bg, us) # (k, vs) # st) (emit_one op ins)
      (\<lambda>v st'. iv_var v = the_output op \<and> st' = (k, v # vs) # st)"
    by (rule runs_emit_one, rule runs_emit_end [OF assms(1) _ assms(2)])
      (use assms(3) in \<open>simp_all add: fits_def defined_vars_one [OF one_output [OF assms(4)]]\<close>)
qed (use assms(5) in blast)

lemma runs_bind_draw:
  "(\<And>x. runs ctx below st (f x) Q) \<Longrightarrow> runs ctx below st (gbind (draw d) f) Q"
  by (rule runs_bind [where P = "\<lambda>_ st'. st' = st"]) (auto intro: runs_draw)

text \<open>A generator that ends where it began, with more variables known there.\<close>

definition stays :: "operation option \<Rightarrow> indexed_variable list \<Rightarrow> site \<Rightarrow> site \<Rightarrow> bool" where
  "stays k vs st st' \<longleftrightarrow> (\<exists>us. st' = (k, us @ vs) # st)"

lemma stays_intro: "stays k vs st ((k, vs) # st)" "stays k vs st ((k, v # vs) # st)"
  "stays k vs st ((k, ws) # st) \<Longrightarrow> stays k vs st ((k, v # ws) # st)"
  "stays k vs st ((k, ws) # st) \<Longrightarrow> stays k vs st ((k, us @ ws) # st)"
  by (auto simp: stays_def)

lemma runs_open_connection:
  assumes "role < num_roles ctx"
  shows "runs ctx below ((k, vs) # st) (open_connection role)
    (\<lambda>v st'. iv_var v = VConnection \<and> v \<in> site_vars st' \<and> stays k vs st st')"
  unfolding open_connection_def
  by (intro runs_bind_load runs_load [where ty = VConnection])
    (use assms in \<open>auto simp: fits_def stays_def\<close>)

lemma runs_connection:
  assumes "role < num_roles ctx"
  shows "runs ctx below ((k, vs) # st) (connection g role choice)
    (\<lambda>v st'. iv_var v = VConnection \<and> v \<in> site_vars st' \<and> stays k vs st st')"
proof -
  let ?P = "\<lambda>r st'. (case r of None \<Rightarrow> st' = (k, vs) # st
      | Some v \<Rightarrow> iv_var v = VConnection \<and> st' = (k, v # vs) # st)"
  have var: "runs ctx below ((k, vs) # st) (random_variable g VConnection) ?P"
    by (rule runs_random_variable) auto
  have none: "runs ctx below ((k, vs) # st) (gret None) ?P" by (rule runs_ret) simp
  show ?thesis
    unfolding connection_def
  proof (rule runs_bind [where P = ?P])
    show "runs ctx below ((k, vs) # st) (case choice of Fresh \<Rightarrow> gret None
        | Reuse \<Rightarrow> random_variable g VConnection
        | AnyConnection \<Rightarrow> gbind (draw (random_bool g (1 / 2)))
            (\<lambda>yes. if yes then random_variable g VConnection else gret None)) ?P"
      using var none by (cases choice) (auto intro: runs_bind_draw)
    fix r st' assume r: "?P r st'"
    show "runs ctx below st' (case r of Some c \<Rightarrow> gret c | None \<Rightarrow> open_connection role)
        (\<lambda>v st'. iv_var v = VConnection \<and> v \<in> site_vars st' \<and> stays k vs st st')"
      using r runs_open_connection [OF assms]
      by (cases r) (auto intro!: runs_ret simp: stays_def)
  qed
qed

lemma runs_set_endpoint:
  assumes "setup \<in> set vs" "iv_var setup = VMutSetupConnection"
  shows "runs ctx below ((k, vs) # st) (set_endpoint setup) (\<lambda>_. stays k vs st)"
  unfolding set_endpoint_def
  by (intro runs_bind_load runs_bind_set runs_ret)
    (use assms in \<open>auto simp: fits_def stays_def\<close>)

lemma runs_set_device_info:
  assumes "setup \<in> set vs" "iv_var setup = VMutSetupConnection"
  shows "runs ctx below ((k, vs) # st) (set_device_info setup) (\<lambda>_. stays k vs st)"
  unfolding set_device_info_def
  by (intro runs_bind_load runs_bind_set runs_ret)
    (use assms in \<open>auto simp: fits_def stays_def\<close>)

lemma runs_if_stays:
  assumes "runs ctx below ((k, vs) # st) m (\<lambda>_. stays k vs st)"
    and "\<And>us. runs ctx below ((k, us @ vs) # st) (f ()) Q"
  shows "runs ctx below ((k, vs) # st) (gbind (if yes then m else gret ()) f) Q"
proof (rule runs_bind)
  show "runs ctx below ((k, vs) # st) (if yes then m else gret ()) (\<lambda>_. stays k vs st)"
    using assms(1) by (auto intro: runs_ret stays_intro)
  fix a st' assume "stays k vs st st'"
  with assms(2) show "runs ctx below st' (f a) Q" by (auto simp: stays_def)
qed

lemma runs_setup_connection:
  assumes "conn \<in> set vs" "iv_var conn = VConnection"
  shows "runs ctx below ((k, vs) # st) (setup_connection g conn p lo hi fl)
    (\<lambda>v st'. iv_var v = VSetupAttempt p \<and> v \<in> site_vars st' \<and> stays k vs st st')"
  unfolding setup_connection_def
  apply (rule runs_bind_load, simp, simp add: fits_def, simp)+
  apply (rule runs_bind_begin, simp, simp add: fits_def, simp)
  apply (rule runs_bind_set, simp, simp add: fits_def, simp)+
  apply (rule runs_bind_draw, rule runs_if_stays [OF runs_set_endpoint], simp, simp)
  apply (rule runs_bind_draw, rule runs_if_stays [OF runs_set_device_info], simp, simp)
  apply (rule runs_bind_end, simp, simp, simp add: fits_def, simp)
  apply (rule runs_load [where ty = "VSetupAttempt p"])
  using assms apply (auto simp: stays_def)
  done

lemma runs_pick_protocol:
  assumes "rng_ok g"
  shows "runs ctx below st (pick_protocol g p) (\<lambda>_ st'. st' = st)"
  by (cases p) (auto simp: pick_protocol_def protocols_def intro: runs_ret runs_choose [OF assms])

text \<open>Running a setup for its effect alone.\<close>

lemma runs_do_setup:
  assumes "conn \<in> set vs" "iv_var conn = VConnection"
    and "\<And>v us. runs ctx below ((k, us @ vs) # st) (f v) Q"
  shows "runs ctx below ((k, vs) # st) (gbind (setup_connection g conn p lo hi fl) f) Q"
proof (rule runs_bind [OF runs_setup_connection [OF assms(1, 2)]])
  fix v st' assume "iv_var v = VSetupAttempt p \<and> v \<in> site_vars st' \<and> stays k vs st st'"
  with assms(3) show "runs ctx below st' (f v) Q" by (auto simp: stays_def)
qed

lemma runs_do_connection:
  assumes "role < num_roles ctx"
    and "\<And>c us. iv_var c = VConnection \<Longrightarrow> c \<in> set (us @ vs) \<Longrightarrow>
           runs ctx below [(k, us @ vs)] (f c) Q"
  shows "runs ctx below [(k, vs)] (gbind (connection g role choice) f) Q"
proof (rule runs_bind [OF runs_connection [OF assms(1)]])
  fix c st' assume "iv_var c = VConnection \<and> c \<in> site_vars st' \<and> stays k vs [] st'"
  with assms(2) [of c] show "runs ctx below st' (f c) Q"
    by (auto simp: stays_def site_vars_def)
qed

lemma runs_generate_setup:
  assumes "rng_ok g" and "sg_role sg < num_roles ctx"
  shows "runs ctx below [(k, vs)] (generate_setup g sg) (\<lambda>_. stays k vs [])"
  unfolding generate_setup_def
  by (rule runs_bind [OF runs_pick_protocol [OF assms(1)]], hypsubst)
    (intro runs_do_connection [OF assms(2)] runs_bind_draw runs_do_setup runs_ret stays_intro;
      assumption)

lemma runs_bind_choose:
  assumes "rng_ok g" and "xs \<noteq> []" and "\<And>x. runs ctx below st (f x) Q"
  shows "runs ctx below st (gbind (choose_expect g xs) f) Q"
  by (rule runs_bind [where P = "\<lambda>_ st'. st' = st"])
    (use assms in \<open>auto intro: runs_choose\<close>)

lemma runs_violate:
  assumes "rng_ok g" and "role < num_roles ctx"
  shows "runs ctx below [(k, vs)] (violate g v role p fl) (\<lambda>_. stays k vs [])"
proof (cases v)
  case EmptyVersionRange
  then show ?thesis
    by (simp add: violate_def)
      (intro runs_do_connection [OF assms(2)] runs_do_setup runs_ret stays_intro; assumption)
next
  case UnknownVersion
  then show ?thesis
    by (simp add: violate_def)
      (intro runs_do_connection [OF assms(2)] runs_bind_choose [OF assms(1)] list.distinct(2)
        runs_do_setup runs_ret stays_intro; assumption)
next
  case UndefinedFlags
  then show ?thesis
    by (simp add: violate_def)
      (intro runs_do_connection [OF assms(2)] runs_bind_draw runs_do_setup runs_ret stays_intro;
        assumption)
next
  case AfterRawFrame
  show ?thesis
    apply (simp only: AfterRawFrame violate_def setup_violation.case)
    apply (rule runs_do_connection [OF assms(2)])
    apply (rule runs_bind_load, simp, simp add: fits_def, simp)
    apply (rule runs_bind_draw)
    apply (rule runs_bind_set, simp, simp add: fits_def, simp)
    apply (rule runs_do_setup, simp, assumption)
    apply (intro runs_ret stays_intro)
    done
next
  case SecondSetup
  show ?thesis
    apply (simp only: SecondSetup violate_def setup_violation.case)
    apply (rule runs_do_connection [OF assms(2)])
    apply (rule runs_do_setup, assumption, assumption)
    apply (rule runs_do_setup, simp, assumption)
    apply (intro runs_ret stays_intro)
    done
qed

lemma runs_generate_adversarial:
  assumes "rng_ok g" and "ag_role ag < num_roles ctx"
  shows "runs ctx below [(k, vs)] (generate_adversarial g ag) (\<lambda>_. stays k vs [])"
  unfolding generate_adversarial_def
  by (rule runs_bind [OF runs_pick_protocol [OF assms(1)]], hypsubst)
    (intro runs_bind_draw runs_violate [OF assms])

lemma runs_generate_raw_frame:
  assumes "role < num_roles ctx"
  shows "runs ctx below [(k, vs)] (generate_raw_frame g role) (\<lambda>_. stays k vs [])"
proof -
  let ?P = "\<lambda>r st'. (case r of None \<Rightarrow> st' = [(k, vs)]
      | Some v \<Rightarrow> iv_var v = VConnection \<and> st' = [(k, v # vs)])"
  have ext: "runs ctx below st (draw_extension g) (\<lambda>_ st'. st' = st)" for st
    unfolding draw_extension_def by (rule runs_bind_draw) (auto intro: runs_bind_draw runs_ret)
  show ?thesis
    unfolding generate_raw_frame_def
  proof (rule runs_bind [where P = ?P])
    show "runs ctx below [(k, vs)] (random_variable g VConnection) ?P"
      by (rule runs_random_variable) auto
    fix r st' assume r: "?P r st'"
    have conn: "runs ctx below st' (case r of Some c \<Rightarrow> gret c | None \<Rightarrow> open_connection role)
        (\<lambda>v st'. iv_var v = VConnection \<and> v \<in> site_vars st' \<and> stays k vs [] st')"
      using r runs_open_connection [OF assms]
      by (cases r) (auto intro!: runs_ret simp: stays_def)
    let ?rest = "\<lambda>conn. gbind (draw (random_range g 0 64)) (\<lambda>len.
     gbind (draw (draw_bytes g len)) (\<lambda>payload.
     gbind (emit_one (LoadBytes payload) []) (\<lambda>bytes.
     gbind (draw_extension g) (\<lambda>ext.
     gbind (draw (random_u8 g)) (\<lambda>msg.
     gbind (emit (SendRawFrame msg ext) [conn, bytes]) (\<lambda>_. gret ()))))))"
    show "runs ctx below st' (gbind (case r of Some c \<Rightarrow> gret c | None \<Rightarrow> open_connection role) ?rest)
        (\<lambda>_. stays k vs [])"
    proof (rule runs_bind [OF conn])
      fix c st2 assume "iv_var c = VConnection \<and> c \<in> site_vars st2 \<and> stays k vs [] st2"
      then obtain us where c: "iv_var c = VConnection" "c \<in> set (us @ vs)" "st2 = [(k, us @ vs)]"
        by (auto simp: stays_def site_vars_def)
      show "runs ctx below st2 (?rest c) (\<lambda>_. stays k vs [])"
        unfolding c(3)
        apply (rule runs_bind_draw, rule runs_bind_draw)
        apply (rule runs_bind_load, simp, simp add: fits_def, simp)
        apply (rule runs_bind [OF ext], hypsubst, rule runs_bind_draw)
        apply (rule runs_bind_set, simp, use c in \<open>simp add: fits_def\<close>, simp)
        apply (intro runs_ret stays_intro)
        done
    qed
  qed
qed

section \<open>The contract\<close>

text \<open>
  What the mutators rely on: in the global scope of a deployment the generator is meant for, it
  succeeds, appends well-typed instructions, closes what it opens, and takes no variable away.
\<close>

locale generator =
  fixes gen :: "('r, unit) gen" and ready :: "program_context \<Rightarrow> bool"
  assumes generates: "builder_inv b \<Longrightarrow> ready (b_context b) \<Longrightarrow> frames (abs_typing b) = [(None, F)] \<Longrightarrow>
    \<exists>b' r' F'. gen (b, r) = (Ok (), b', r') \<and> grew b b' \<and>
       frames (abs_typing b') = [(None, F')] \<and> F \<subseteq> F'"

text \<open>A generator that runs at every site satisfies it.\<close>

lemma runs_generates:
  assumes gen: "\<And>k vs. runs ctx [] [(k, vs)] gen (\<lambda>_. stays k vs [])"
    and inv: "builder_inv b" "b_context b = ctx" and fr: "frames (abs_typing b) = [(None, F)]"
  shows "\<exists>b' r' F'. gen (b, r) = (Ok (), b', r') \<and> grew b b' \<and>
    frames (abs_typing b') = [(None, F')] \<and> F \<subseteq> F'"
proof -
  have site: "at_site [(None, vs)] [] (frames (abs_typing b)) \<longleftrightarrow> (\<forall>v \<in> set vs. visible [(None, F)] v)"
    for vs by (simp add: fr del: abs_typing_simps)
  have run: "\<exists>b' r' F'. gen (b, r) = (Ok (), b', r') \<and> grew b b' \<and>
      frames (abs_typing b') = [(None, F')] \<and> (\<forall>v \<in> set vs. visible [(None, F')] v)"
    if "\<forall>v \<in> set vs. visible [(None, F)] v" for vs
    using gen [of None vs] inv that site [of vs]
    by (elim runsD [where r = r]) (auto simp: stays_def simp del: abs_typing_simps)
  from run [of "[]"] obtain b' r' F' where b': "gen (b, r) = (Ok (), b', r')" "grew b b'"
    "frames (abs_typing b') = [(None, F')]" by auto
  have "(i, v) \<in> F'" if "(i, v) \<in> F" for i v
    using run [of "[\<lparr>iv_var = v, iv_index = i\<rparr>]"] that b'(1, 3)
    by (auto simp: visible_def in_scope_def simp del: abs_typing_simps)
  with b' show ?thesis by auto
qed

interpretation setup_gen: generator "generate_setup g sg"
    "\<lambda>ctx. rng_ok g \<and> sg_role sg < num_roles ctx" for g sg
proof unfold_locales
  fix b F r assume b: "builder_inv b" "rng_ok g \<and> sg_role sg < num_roles (b_context b)"
    "frames (abs_typing b) = [(None, F)]"
  then show "\<exists>b' r' F'. generate_setup g sg (b, r) = (Ok (), b', r') \<and> grew b b' \<and>
      frames (abs_typing b') = [(None, F')] \<and> F \<subseteq> F'"
    by (intro runs_generates [OF runs_generate_setup]) auto
qed

interpretation adversarial_gen: generator "generate_adversarial g ag"
    "\<lambda>ctx. rng_ok g \<and> ag_role ag < num_roles ctx" for g ag
proof unfold_locales
  fix b F r assume b: "builder_inv b" "rng_ok g \<and> ag_role ag < num_roles (b_context b)"
    "frames (abs_typing b) = [(None, F)]"
  then show "\<exists>b' r' F'. generate_adversarial g ag (b, r) = (Ok (), b', r') \<and> grew b b' \<and>
      frames (abs_typing b') = [(None, F')] \<and> F \<subseteq> F'"
    by (intro runs_generates [OF runs_generate_adversarial]) auto
qed

interpretation raw_frame_gen: generator "generate_raw_frame g role"
    "\<lambda>ctx. role < num_roles ctx" for g role
proof unfold_locales
  fix b F r assume b: "builder_inv b" "role < num_roles (b_context b)"
    "frames (abs_typing b) = [(None, F)]"
  then show "\<exists>b' r' F'. generate_raw_frame g role (b, r) = (Ok (), b', r') \<and> grew b b' \<and>
      frames (abs_typing b') = [(None, F')] \<and> F \<subseteq> F'"
    by (intro runs_generates [OF runs_generate_raw_frame]) auto
qed

section \<open>The flags\<close>

lemma and_or_absorb: "and (or a b) c = 0 \<Longrightarrow> and b c = (0 :: u32)"
  by (metis and.commute bit.conj_disj_distrib or_eq_0_iff)

section \<open>Properties\<close>

text \<open>A conforming setup asks for flags its subprotocol defines only; the adversarial one
  that is to ask for an undefined flag does, whatever the draws.\<close>

theorem flags_as_promised:
  "and (and bits (defined_flags p)) (not (defined_flags p)) = 0 \<and>
   and (undefined_flags fl bits (not (defined_flags p))) (not (defined_flags p)) \<noteq> 0"
proof
  let ?d = "defined_flags p"
  show "and (and bits ?d) (not ?d) = 0" by (simp add: and.assoc)
  have low: "and (isolate_lowest_one (not ?d)) (not ?d) \<noteq> 0"
    by (cases p) (simp_all add: isolate_lowest_one_def)
  let ?f = "or fl (and bits (not ?d))"
  show "and (undefined_flags fl bits (not ?d)) (not ?d) \<noteq> 0"
  proof (cases "and ?f (not ?d) = 0")
    case True
    have "and (or ?f (isolate_lowest_one (not ?d))) (not ?d) \<noteq> 0"
      using and_or_absorb [of ?f] low by metis
    with True show ?thesis by (simp only: undefined_flags_def Let_def simp_thms if_True)
  next
    case False
    then show ?thesis by (simp only: undefined_flags_def Let_def if_False not_False_eq_True)
  qed
qed

end
