(* ===== verification/Mutators.thy ===== *)
theory Mutators
  imports Generators
begin

text \<open>
  The mutators of \<open>mutators/\<close>. A mutator rewrites a program in place and reports an error when
  it has nothing to change or made an invalid program: here a function to the new program or
  the error. Only \<open>OperationMutator\<close> can fail to return, when the values it draws never differ
  from the one it has: its loops are partial functions, \<open>None\<close> is a loop that does not end.
\<close>

datatype mutator_error = NoMutationsAvailable | CreatedInvalidProgram

type_synonym 'r mutation = "program \<Rightarrow> 'r \<Rightarrow> (mutator_error, program) outcome \<times> 'r"

section \<open>Concatenation\<close>

definition program_variable_count :: "program \<Rightarrow> nat" where
  "program_variable_count p =
     sum_list (map (\<lambda>i. num_outputs (operation i) + num_inner_outputs (operation i)) (instructions p))"

definition splice :: "program \<Rightarrow> program \<Rightarrow> (mutator_error, program) outcome" where
  "splice p other =
     (if instructions other = [] then Err NoMutationsAvailable
      else
        let offset = program_variable_count p;
            appended = map (\<lambda>i. i\<lparr>inputs := map (\<lambda>x. x + offset) (inputs i)\<rparr>) (instructions other);
            ins = instructions p @ appended
        in case andThen (from_prefix (prog_context p) ins) finalize of
             Ok _ \<Rightarrow> Ok (p\<lparr>instructions := ins\<rparr>)
           | Err _ \<Rightarrow> Err CreatedInvalidProgram
           | Panic \<Rightarrow> Panic)"

definition concat_mutate :: "'r mutation" where
  "concat_mutate p r = (splice p p, r)"

section \<open>Generation\<close>

definition generator_mutate :: "('r, unit) gen \<Rightarrow> 'r mutation" where
  "generator_mutate gen p r =
     (case from_prefix (prog_context p) (instructions p) of
        Panic \<Rightarrow> (Panic, r)
      | Err _ \<Rightarrow> (Err CreatedInvalidProgram, r)
      | Ok b \<Rightarrow>
          (case gen (b, r) of
             (Panic, _, r') \<Rightarrow> (Panic, r')
           | (Err _, _, r') \<Rightarrow> (Err CreatedInvalidProgram, r')
           | (Ok _, b', r') \<Rightarrow>
               (case finalize b' of
                  Panic \<Rightarrow> (Panic, r')
                | Err _ \<Rightarrow> (Err CreatedInvalidProgram, r')
                | Ok q \<Rightarrow> (Ok q, r'))))"

section \<open>Inputs\<close>

definition replace_input :: "program \<Rightarrow> nat \<Rightarrow> nat \<Rightarrow> nat \<Rightarrow> program" where
  "replace_input p k slot x =
     (let i = instructions p ! k
      in p\<lparr>instructions := (instructions p)[k := i\<lparr>inputs := (inputs i)[slot := x]\<rparr>]\<rparr>)"

definition input_candidates :: "program \<Rightarrow> nat list" where
  "input_candidates p =
     map fst (filter (\<lambda>(k, i). inputs i \<noteq> []) (enumerate 0 (instructions p)))"

definition input_mutate :: "'r rng_ops \<Rightarrow> 'r mutation" where
  "input_mutate g p r =
     (case choose_from g (input_candidates p) r of
        (None, r1) \<Rightarrow> (Err NoMutationsAvailable, r1)
      | (Some k, r1) \<Rightarrow>
          (case from_prefix (prog_context p) (take k (instructions p)) of
             Panic \<Rightarrow> (Panic, r1)
           | Err _ \<Rightarrow> (Err CreatedInvalidProgram, r1)
           | Ok b \<Rightarrow>
               (let ins = inputs (instructions p ! k);
                    (slot, r2) = random_range g 0 (length ins) r1
                in case index ins slot of
                     Panic \<Rightarrow> (Panic, r2)
                   | Err e \<Rightarrow> (Err e, r2)
                   | Ok current \<Rightarrow>
                       (case get_variable b current of
                          None \<Rightarrow> (Err CreatedInvalidProgram, r2)
                        | Some v \<Rightarrow>
                            (case get_random_variable g b (iv_var v) r2 of
                               (None, r3) \<Rightarrow> (Err NoMutationsAvailable, r3)
                             | (Some w, r3) \<Rightarrow>
                                 if iv_index w = current then (Err NoMutationsAvailable, r3)
                                 else (Ok (replace_input p k slot (iv_index w)), r3))))))"

section \<open>Operations\<close>

text \<open>The loop that draws until the candidate differs from the value it replaces.\<close>

type_synonym ('r, 'a) pick = "'r \<Rightarrow> (unit, 'a) outcome \<times> 'r"

partial_function (option) retry ::
  "('r, 'a) pick \<Rightarrow> 'a \<Rightarrow> 'r \<Rightarrow> ((unit, 'a) outcome \<times> 'r) option" where
  "retry pick v r =
     (case pick r of
        (Ok c, r') \<Rightarrow> if c \<noteq> v then Some (Ok c, r') else retry pick v r'
      | (Err e, r') \<Rightarrow> Some (Err e, r')
      | (Panic, r') \<Rightarrow> Some (Panic, r'))"

definition pick_from :: "'r rng_ops \<Rightarrow> 'a list \<Rightarrow> ('r, 'a) pick" where
  "pick_from g xs r =
     (case choose_from g xs r of
        (None, r') \<Rightarrow> (Panic, r')
      | (Some x, r') \<Rightarrow> (Ok x, r'))"

text \<open>The macro \<open>word_mutation\<close>, for a width and the draw of a random word of that width.\<close>

definition pick_word ::
  "'r rng_ops \<Rightarrow> ('r \<Rightarrow> 'w::len word \<times> 'r) \<Rightarrow> 'w word \<Rightarrow> 'w word list \<Rightarrow> ('r, 'w word) pick" where
  "pick_word g rand v edges r =
     (let (k, r1) = random_range g 0 3 r in
      if k = 0 then pick_from g edges r1
      else if k = 1 then
        (let (n, r2) = random_range g 0 LENGTH('w) r1 in (Ok (xor v (push_bit n 1)), r2))
      else (let (w, r2) = rand r1 in (Ok w, r2)))"

definition mutate_word ::
  "'r rng_ops \<Rightarrow> ('r \<Rightarrow> 'w::len word \<times> 'r) \<Rightarrow> 'w word \<Rightarrow> 'w word list \<Rightarrow> 'r \<Rightarrow>
   ((unit, 'w word) outcome \<times> 'r) option" where
  "mutate_word g rand v edges r = retry (pick_word g rand v edges) v r"

definition versions :: "u16 list" where "versions = [0, 1, 2, 3, 65534, 65535]"
definition flag_words :: "u32 list" where "flag_words = [0, 1, 2, 4, 7, 8, 0x80000000, 0xffffffff]"
definition ports :: "u16 list" where "ports = [0, 1, 1023, 1024, 65534, 65535]"
definition message_types :: "u8 list" where
  "message_types = [0x00, 0x01, 0x02, 0x03, 0x04, 0x10, 0x7f, 0xff]"
definition extension_types :: "u16 list" where
  "extension_types = [0, 1, 0x7fff, 0x8000, 65535]"
definition durations :: "duration list" where
  "durations = [0, nanos_per_milli, nanos_per_sec, 10 * nanos_per_sec, 60 * nanos_per_sec,
     3600 * nanos_per_sec]"

definition pick_string :: "'r rng_ops \<Rightarrow> string \<Rightarrow> ('r, string) pick" where
  "pick_string g v r =
     (let (k, r1) = random_range g 0 4 r in
      if k = 0 then (Ok [], r1)
      else if k = 1 then (Ok (replicate 255 (CHR ''a'')), r1)
      else if k = 2 then (Ok (replicate 256 (CHR ''a'')), r1)
      else (let (c, r2) = random_range g 97 123 r1 in (Ok (v @ [char_of c]), r2)))"

definition pick_bytes :: "'r rng_ops \<Rightarrow> u8 list \<Rightarrow> ('r, u8 list) pick" where
  "pick_bytes g v r =
     (let (k, r1) = random_range g 0 3 r in
      if k = 0 \<and> v \<noteq> [] then
        (let (pos, r2) = random_range g 0 (length v) r1; (n, r3) = random_range g 0 8 r2
         in (andThen (index v pos) (\<lambda>x. Ok (v[pos := xor x (push_bit n 1)])), r3))
      else if k = 1 then (let (x, r2) = random_u8 g r1 in (Ok (v @ [x]), r2))
      else (Ok (butlast v), r1))"

definition pick_duration :: "'r rng_ops \<Rightarrow> ('r, duration) pick" where
  "pick_duration g r =
     (let (yes, r1) = random_bool g (1 / 2) r in
      if yes then pick_from g durations r1
      else (let (n, r2) = random_range g 0 60000 r1 in (Ok (n * nanos_per_milli), r2)))"

definition other_index :: "'r rng_ops \<Rightarrow> nat \<Rightarrow> nat \<Rightarrow> 'r \<Rightarrow> nat option \<times> 'r" where
  "other_index g current bound r =
     (if bound = 0 then (None, r)
      else if bound \<le> current then
        (let (n, r1) = random_range g 0 bound r in (Some n, r1))
      else if bound = 1 then (None, r)
      else
        (let (pick, r1) = random_range g 0 (bound - 1) r
         in (Some (if current \<le> pick then pick + 1 else pick), r1)))"

text \<open>A drawn value becomes the operation that carries it.\<close>

definition rewrap ::
  "('a \<Rightarrow> operation) \<Rightarrow> ((unit, 'a) outcome \<times> 'r) option \<Rightarrow>
   ((unit, operation option) outcome \<times> 'r) option" where
  "rewrap f res = map_option (\<lambda>(x, r). (andThen x (\<lambda>v. Ok (Some (f v))), r)) res"

fun mutate_operation ::
  "'r rng_ops \<Rightarrow> program_context \<Rightarrow> operation \<Rightarrow> 'r \<Rightarrow>
   ((unit, operation option) outcome \<times> 'r) option" where
  "mutate_operation g ctx (LoadRole i) r =
     (let (x, r1) = other_index g i (num_roles ctx) r in Some (Ok (map_option LoadRole x), r1))"
| "mutate_operation g ctx (LoadConnection i) r =
     (let (x, r1) = other_index g i (num_connections ctx) r
      in Some (Ok (map_option LoadConnection x), r1))"
| "mutate_operation g ctx (LoadVersion v) r =
     rewrap LoadVersion (mutate_word g (random_u16 g) v versions r)"
| "mutate_operation g ctx (LoadFlags v) r =
     rewrap LoadFlags (mutate_word g (random_u32 g) v flag_words r)"
| "mutate_operation g ctx (LoadPort v) r =
     rewrap LoadPort (mutate_word g (random_u16 g) v ports r)"
| "mutate_operation g ctx (LoadStr v) r = rewrap LoadStr (retry (pick_string g v) v r)"
| "mutate_operation g ctx (LoadBytes v) r = rewrap LoadBytes (retry (pick_bytes g v) v r)"
| "mutate_operation g ctx (LoadDuration v) r = rewrap LoadDuration (retry (pick_duration g) v r)"
| "mutate_operation g ctx (SendRawFrame m e) r =
     (let (yes, r1) = random_bool g (1 / 2) r in
      if yes then rewrap (\<lambda>m'. SendRawFrame m' e) (mutate_word g (random_u8 g) m message_types r1)
      else rewrap (\<lambda>e'. SendRawFrame m e') (mutate_word g (random_u16 g) e extension_types r1))"
| "mutate_operation g ctx _ r = Some (Ok None, r)"

text \<open>The loop over the shuffled order; the index and the debug assertion panic.\<close>

fun try_operations ::
  "'r rng_ops \<Rightarrow> program \<Rightarrow> nat list \<Rightarrow> 'r \<Rightarrow> ((mutator_error, program) outcome \<times> 'r) option" where
  "try_operations g p [] r = Some (Err NoMutationsAvailable, r)"
| "try_operations g p (k # order) r =
     (case get (instructions p) k of
        None \<Rightarrow> Some (Panic, r)
      | Some i \<Rightarrow>
          (case mutate_operation g (prog_context p) (operation i) r of
             None \<Rightarrow> None
           | Some (Panic, r') \<Rightarrow> Some (Panic, r')
           | Some (Err _, r') \<Rightarrow> Some (Panic, r')
           | Some (Ok None, r') \<Rightarrow> try_operations g p order r'
           | Some (Ok (Some op), r') \<Rightarrow>
               if op = operation i then Some (Panic, r')
               else Some (Ok (p\<lparr>instructions := (instructions p)[k := i\<lparr>operation := op\<rparr>]\<rparr>), r')))"

definition operation_mutate ::
  "'r rng_ops \<Rightarrow> program \<Rightarrow> 'r \<Rightarrow> ((mutator_error, program) outcome \<times> 'r) option" where
  "operation_mutate g p r =
     (let (order, r1) = shuffle_indices g (length (instructions p)) r
      in try_operations g p order r1)"

section \<open>Concatenation and generation keep validity\<close>

lemma program_variable_count: "program_variable_count p = variable_total (instructions p)"
  by (simp add: program_variable_count_def variable_total_def)

lemma from_prefix_wt:
  assumes "wt_steps ctx init_typing ins t"
  obtains b where "from_prefix ctx ins = Ok b" "builder_inv b" "abs_typing b = t"
    "b_context b = ctx" "b_instructions b = ins"
  using from_prefix_complete [OF assms] from_prefix_Ok by metis

lemma finalize_wt:
  assumes "builder_inv b" and "length (frames (abs_typing b)) = 1"
  shows "finalize b = Ok \<lparr>prog_context = b_context b, instructions = b_instructions b\<rparr>"
  using assms finalize_cases [OF assms(1)] by simp

lemma splice_ok:
  assumes "wt_program (prog_context p) (instructions p)"
    and "wt_program (prog_context other) (instructions other)"
    and "\<forall>i \<in> set (instructions other). in_context (prog_context p) (operation i)"
    and "instructions other \<noteq> []"
  obtains q where "splice p other = Ok q" "wt_program (prog_context q) (instructions q)"
    "prog_context q = prog_context p"
    "instructions q = instructions p @
       map (rename_inputs (\<lambda>x. x + variable_total (instructions p))) (instructions other)"
proof -
  let ?c = "prog_context p" and ?f = "\<lambda>x. x + variable_total (instructions p)"
  let ?new = "map (rename_inputs ?f) (instructions other)"
  obtain t F where t: "wt_steps ?c init_typing (instructions p) t" "frames t = [(None, F)]"
    using wt_program_end [OF assms(1)] .
  obtain u G where u: "wt_steps (prog_context other) init_typing (instructions other) u"
    "frames u = [(None, G)]" using wt_program_end [OF assms(2)] .
  have "\<forall>j. ?f (next_var init_typing + j) = next_var t + j"
    using wt_steps_next [OF t(1)] by (simp add: init_typing_def)
  from wt_steps_rename [OF u(1) covers_init [OF t(2)] this assms(3)]
  obtain w where w: "wt_steps ?c t ?new w" "covers ?f u w" by blast
  with t(1) have steps: "wt_steps ?c init_typing (instructions p @ ?new) w"
    by (auto simp: wt_steps_append)
  have len: "length (frames w) = 1" using covers_length [OF w(2)] u(2) by simp
  obtain b where b: "from_prefix ?c (instructions p @ ?new) = Ok b" "builder_inv b"
    "abs_typing b = w" using from_prefix_wt [OF steps] by metis
  have "(\<lambda>i. i\<lparr>inputs := map ?f (inputs i)\<rparr>) = rename_inputs ?f"
    by (simp add: rename_inputs_def fun_eq_iff)
  with b finalize_wt [OF b(2)] len assms(4)
  have "splice p other = Ok (p\<lparr>instructions := instructions p @ ?new\<rparr>)"
    by (simp add: splice_def Let_def program_variable_count del: abs_typing_simps)
  moreover have "wt_program ?c (instructions p @ ?new)"
    using steps len by (auto simp: wt_program_def)
  ultimately show ?thesis using that [of "p\<lparr>instructions := instructions p @ ?new\<rparr>"] by simp
qed

context generator
begin

lemma generator_mutate_ok:
  assumes "wt_program (prog_context p) (instructions p)" and "ready (prog_context p)"
  obtains q r' new where "generator_mutate gen p r = (Ok q, r')"
    "wt_program (prog_context q) (instructions q)" "prog_context q = prog_context p"
    "instructions q = instructions p @ new"
proof -
  let ?c = "prog_context p"
  obtain t F where t: "wt_steps ?c init_typing (instructions p) t" "frames t = [(None, F)]"
    using wt_program_end [OF assms(1)] .
  obtain b where b: "from_prefix ?c (instructions p) = Ok b" "builder_inv b" "abs_typing b = t"
    "b_context b = ?c" "b_instructions b = instructions p"
    using from_prefix_wt [OF t(1)] .
  from generates [OF b(2), of F r] assms(2) b(3, 4) t(2) obtain b' r' F' where
    g: "gen (b, r) = (Ok (), b', r')" "grew b b'" "frames (abs_typing b') = [(None, F')]"
    by auto
  from g(2) b(3, 4, 5) obtain new where new: "builder_inv b'" "b_context b' = ?c"
    "b_instructions b' = instructions p @ new" "wt_steps ?c t new (abs_typing b')"
    by (auto simp: grew_def)
  have "length (frames (abs_typing b')) = 1" by (simp only: g(3)) simp
  from finalize_wt [OF new(1) this]
  have fin: "finalize b' = Ok \<lparr>prog_context = ?c, instructions = instructions p @ new\<rparr>"
    by (simp only: new(2, 3))
  have "wt_program ?c (instructions p @ new)"
    using t(1) new(4) g(3) unfolding wt_program_def wt_steps_append
    by (metis length_Cons list.size(3) One_nat_def)
  with b(1) g(1) fin that show ?thesis by (simp add: generator_mutate_def)
qed

end

section \<open>Rewiring an input keeps validity\<close>

lemma list_all2_update_one:
  "list_all2 P xs ys \<Longrightarrow> k < length xs \<Longrightarrow> P x (ys ! k) \<Longrightarrow> list_all2 P (xs[k := x]) ys"
  by (auto simp: list_all2_conv_all_nth nth_list_update)

lemma wt_step_same_operation:
  assumes "wt_step ctx t i t'" and "operation j = operation i" and "wt_inputs (frames t) j"
  shows "wt_step ctx t j t'"
  using assms(1)
proof cases
  case (wt_plain o1 F fs)
  with wt_step.wt_plain [of j t ctx o1 F fs] assms(2, 3) show ?thesis by simp
next
  case wt_begin
  with wt_step.wt_begin [of j t ctx] assms(2, 3) show ?thesis by simp
next
  case (wt_end b F o1 G fs)
  with wt_step.wt_end [of j t ctx b F o1 G fs] assms(2, 3) show ?thesis by simp
qed

lemma input_candidates_iff:
  "k \<in> set (input_candidates p) \<longleftrightarrow> k < length (instructions p) \<and> inputs (instructions p ! k) \<noteq> []"
  by (force simp: input_candidates_def in_set_enumerate)

lemma replace_input_ok:
  assumes "wt_steps ctx init_typing (instructions p) t" and "k < length (instructions p)"
    and "wt_steps ctx init_typing (take k (instructions p)) u"
    and "slot < length (inputs (instructions p ! k))"
    and "in_scope (frames u) x (get_input_variables (operation (instructions p ! k)) ! slot)"
  shows "wt_steps ctx init_typing (instructions (replace_input p k slot x)) t"
proof -
  let ?i = "instructions p ! k" and ?post = "drop (Suc k) (instructions p)"
  let ?j = "?i\<lparr>inputs := (inputs ?i)[slot := x]\<rparr>"
  have "wt_steps ctx init_typing (take k (instructions p) @ ?i # ?post) t"
    using assms(1, 2) by (simp add: id_take_nth_drop [symmetric])
  then obtain v where v: "wt_step ctx u ?i v" "wt_steps ctx v ?post t"
    using wt_steps_det [OF assms(3)] unfolding wt_steps_append by (metis wt_steps_ConsE)
  have "wt_inputs (frames u) ?j"
    using wt_step_inputs(1) [OF v(1)] assms(4, 5)
    by (auto simp: wt_inputs_def intro: list_all2_update_one)
  from wt_step_same_operation [OF v(1) _ this]
  have "wt_step ctx u ?j v" by simp
  from wt_steps.wt_cons [OF this v(2)] have "wt_steps ctx u (?j # ?post) t" .
  with assms(3) have "wt_steps ctx init_typing (take k (instructions p) @ ?j # ?post) t"
    unfolding wt_steps_append by metis
  with assms(2) show ?thesis
    by (simp add: replace_input_def Let_def upd_conv_take_nth_drop)
qed

lemma input_mutate_cases:
  assumes "rng_ok g" and "wt_program (prog_context p) (instructions p)"
  shows "(\<exists>r'. input_mutate g p r = (Err NoMutationsAvailable, r')) \<or>
    (\<exists>k slot x r'. input_mutate g p r = (Ok (replace_input p k slot x), r') \<and>
       k < length (instructions p) \<and> slot < length (inputs (instructions p ! k)) \<and>
       x \<noteq> inputs (instructions p ! k) ! slot \<and>
       wt_program (prog_context p) (instructions (replace_input p k slot x)))"
proof (cases "choose_from g (input_candidates p) r")
  case (Pair o1 r1)
  show ?thesis
  proof (cases o1)
    case None
    with Pair show ?thesis by (simp add: input_mutate_def)
  next
    case (Some k)
    with Pair choose_from_in have "k \<in> set (input_candidates p)" by metis
    then have k: "k < length (instructions p)" "inputs (instructions p ! k) \<noteq> []"
      by (auto simp: input_candidates_iff)
    let ?c = "prog_context p" and ?i = "instructions p ! k"
    obtain t where t: "wt_steps ?c init_typing (instructions p) t" "length (frames t) = 1"
      using assms(2) by (auto simp: wt_program_def)
    have "wt_steps ?c init_typing (take k (instructions p) @ ?i # drop (Suc k) (instructions p)) t"
      using t(1) k(1) by (simp add: id_take_nth_drop [symmetric])
    then obtain u v where u: "wt_steps ?c init_typing (take k (instructions p)) u" "wt_step ?c u ?i v"
      unfolding wt_steps_append by (metis wt_steps_ConsE)
    obtain b where b: "from_prefix ?c (take k (instructions p)) = Ok b" "builder_inv b"
      "abs_typing b = u" using from_prefix_wt [OF u(1)] by metis
    obtain slot r2 where sl: "random_range g 0 (length (inputs ?i)) r1 = (slot, r2)" by fastforce
    with rng_okD(2) [OF assms(1), of 0 "length (inputs ?i)" r1] k(2)
    have slot: "slot < length (inputs ?i)" by simp
    let ?x = "inputs ?i ! slot" and ?ty = "get_input_variables (operation ?i) ! slot"
    from wt_step_inputs(1) [OF u(2)] slot have "in_scope (frames u) ?x ?ty"
      by (auto simp: wt_inputs_def list_all2_conv_all_nth)
    then have gv: "get_variable b ?x = Some \<lparr>iv_var = ?ty, iv_index = ?x\<rparr>"
      using in_scope_abs [OF b(2), of ?x ?ty] b(3)
      by (auto simp: get_variable_def get_def simp del: abs_typing_simps)
    obtain w r3 where w: "get_random_variable g b ?ty r2 = (w, r3)" by fastforce
    show ?thesis
    proof (cases w)
      case None
      with Pair Some b(1) sl slot gv w show ?thesis
        by (simp add: input_mutate_def index_def)
    next
      case (Some y)
      with w have "y \<in> set (variables_of_type b ?ty)"
        by (auto simp: get_random_variable_def dest: choose_from_in)
      then have "in_scope (frames (abs_typing b)) (iv_index y) ?ty"
        unfolding in_scope_abs [OF b(2)]
        by (auto simp: variables_of_type_def List.map_filter_def get_variable_def get_def
            split: option.splits if_splits)
      then have y: "in_scope (frames u) (iv_index y) ?ty" by (simp only: b(3))
      note q = replace_input_ok [OF t(1) k(1) u(1) slot y]
      have eq: "input_mutate g p r = (if iv_index y = ?x then (Err NoMutationsAvailable, r3)
          else (Ok (replace_input p k slot (iv_index y)), r3))"
        using Pair \<open>o1 = Some k\<close> b(1) sl slot gv w Some by (simp add: input_mutate_def index_def)
      show ?thesis
        using eq q t(2) k(1) slot by (cases "iv_index y = ?x") (auto simp: wt_program_def)
    qed
  qed
qed

section \<open>Changing an operation keeps validity\<close>

text \<open>What of an operation the typing of a program depends on.\<close>

definition same_shape :: "operation \<Rightarrow> operation \<Rightarrow> bool" where
  "same_shape a b \<longleftrightarrow>
     get_input_variables a = get_input_variables b \<and> get_output_variables a = get_output_variables b \<and>
     get_inner_output_variables a = get_inner_output_variables b \<and> is_nop a = is_nop b \<and>
     \<not> is_block_begin a \<and> \<not> is_block_begin b \<and> \<not> is_block_end a \<and> \<not> is_block_end b"

lemma wt_step_same_shape:
  assumes "wt_step ctx t i t'" and "same_shape (operation i) op" and "in_context ctx op"
  shows "wt_step ctx t (i\<lparr>operation := op\<rparr>) t'"
  using assms(1)
proof cases
  case (wt_plain o1 F fs)
  have "outer_vars n op = outer_vars n (operation i)" "num_defined op = num_defined (operation i)"
    for n
    using assms(2)
    by (simp_all add: same_shape_def outer_vars_def num_outputs_def num_inner_outputs_def)
  with wt_plain assms(2, 3) wt_step.wt_plain [of "i\<lparr>operation := op\<rparr>" t ctx o1 F fs]
  show ?thesis by (simp add: same_shape_def wt_inputs_def)
qed (use assms(2) in \<open>simp_all add: same_shape_def\<close>)

lemma change_operation_valid:
  assumes "wt_program ctx ins" and "k < length ins"
    and "same_shape (operation (ins ! k)) op" and "in_context ctx op"
  shows "wt_program ctx (ins[k := (ins ! k)\<lparr>operation := op\<rparr>])"
proof -
  obtain t where t: "wt_steps ctx init_typing (take k ins @ ins ! k # drop (Suc k) ins) t"
    "length (frames t) = 1"
    using assms(1, 2) by (auto simp: wt_program_def simp flip: id_take_nth_drop)
  then obtain u v where u: "wt_steps ctx init_typing (take k ins) u" "wt_step ctx u (ins ! k) v"
    "wt_steps ctx v (drop (Suc k) ins) t"
    unfolding wt_steps_append by (metis wt_steps_ConsE)
  from wt_steps.wt_cons [OF wt_step_same_shape [OF u(2) assms(3, 4)] u(3)] u(1)
  have "wt_steps ctx init_typing
      (take k ins @ (ins ! k)\<lparr>operation := op\<rparr> # drop (Suc k) ins) t"
    unfolding wt_steps_append by metis
  with t(2) assms(2) show ?thesis by (auto simp: wt_program_def upd_conv_take_nth_drop)
qed

text \<open>A loop whose draws do not fail returns a value that differs, if it returns.\<close>

definition draws_ok :: "('r, 'a) pick \<Rightarrow> bool" where
  "draws_ok pick \<longleftrightarrow> (\<forall>r. \<exists>c r'. pick r = (Ok c, r'))"

lemma retry_differs:
  fixes pick :: "('r, 'a) pick"
  assumes "retry pick v r = Some (res, r')" and "draws_ok pick"
  shows "\<exists>c. res = Ok c \<and> c \<noteq> v"
proof -
  let ?P = "\<lambda>(p :: ('r, 'a) pick) w s y. draws_ok p \<longrightarrow> (\<exists>c. fst y = Ok c \<and> c \<noteq> w)"
  have "?P pick v r (res, r')"
  proof (rule retry.raw_induct [where P = ?P, OF _ assms(1)], intro impI)
    fix again :: "('r, 'a) pick \<Rightarrow> 'a \<Rightarrow> 'r \<Rightarrow> ((unit, 'a) outcome \<times> 'r) option" and p w s y
    assume hyp: "\<And>p w s y. again p w s = Some y \<Longrightarrow> ?P p w s y"
      and eq: "(case p s of (Ok c, r') \<Rightarrow> if c \<noteq> w then Some (Ok c, r') else again p w r'
         | (Err e, r') \<Rightarrow> Some (Err e, r') | (Panic, r') \<Rightarrow> Some (Panic, r')) = Some y"
      and ok: "draws_ok p"
    from ok obtain c s' where "p s = (Ok c, s')" by (metis draws_ok_def)
    with eq hyp [of p w s' y] ok show "\<exists>c. fst y = Ok c \<and> c \<noteq> w" by (cases "c = w") auto
  qed
  with assms(2) show ?thesis by simp
qed

text \<open>It returns exactly when some round draws a different value.\<close>

fun after_rounds :: "('r, 'a) pick \<Rightarrow> nat \<Rightarrow> 'r \<Rightarrow> 'r" where
  "after_rounds pick 0 r = r"
| "after_rounds pick (Suc n) r = after_rounds pick n (snd (pick r))"

lemma retry_returns:
  assumes "draws_ok pick" and "fst (pick (after_rounds pick n r)) \<noteq> Ok v"
  shows "\<exists>c r'. retry pick v r = Some (Ok c, r') \<and> c \<noteq> v"
  using assms(2)
proof (induction n arbitrary: r)
  case 0
  obtain c s where "pick r = (Ok c, s)" using assms(1) by (metis draws_ok_def)
  with 0 show ?case by (subst retry.simps) auto
next
  case (Suc n)
  obtain c s where c: "pick r = (Ok c, s)" using assms(1) by (metis draws_ok_def)
  show ?case
  proof (cases "c = v")
    case True
    with Suc c show ?thesis by (subst retry.simps) auto
  next
    case False
    with c show ?thesis by (subst retry.simps) auto
  qed
qed

lemma pick_from_ok: "rng_ok g \<Longrightarrow> xs \<noteq> [] \<Longrightarrow> draws_ok (pick_from g xs)"
  by (fastforce simp: draws_ok_def pick_from_def dest: choose_from_None split: option.splits prod.splits)

lemma draws_okE:
  assumes "draws_ok pick"
  obtains c r' where "pick r = (Ok c, r')"
  using assms by (metis draws_ok_def)

lemma pick_word_ok:
  assumes "rng_ok g" and "edges \<noteq> []"
  shows "draws_ok (pick_word g rand v edges)"
proof -
  have "\<exists>c r'. pick_from g edges r = (Ok c, r')" for r
    using pick_from_ok [OF assms] by (auto simp: draws_ok_def)
  then show ?thesis by (auto simp: draws_ok_def pick_word_def Let_def split: prod.splits)
qed

lemma pick_string_ok: "draws_ok (pick_string g v)"
  by (auto simp: draws_ok_def pick_string_def Let_def split: prod.splits)

lemma pick_bytes_ok:
  assumes "rng_ok g"
  shows "draws_ok (pick_bytes g v)"
proof -
  have "v \<noteq> [] \<Longrightarrow> random_range g 0 (length v) r = (pos, r') \<Longrightarrow> pos < length v" for r r' pos
    using rng_okD(2) [OF assms, of 0 "length v" r] by simp
  then show ?thesis
    by (auto simp: draws_ok_def pick_bytes_def Let_def index_def split: prod.splits)
qed

lemma pick_duration_ok:
  assumes "rng_ok g"
  shows "draws_ok (pick_duration g)"
proof -
  have "\<exists>c r'. pick_from g durations r = (Ok c, r')" for r
    using pick_from_ok [OF assms, of durations] by (auto simp: draws_ok_def durations_def)
  then show ?thesis by (auto simp: draws_ok_def pick_duration_def Let_def split: prod.splits)
qed

lemmas picks_ok = pick_word_ok pick_string_ok pick_bytes_ok pick_duration_ok

lemma rewrap_differs:
  assumes "rewrap f (retry pick v r) = Some (res, r')" and "draws_ok pick"
  obtains c where "res = Ok (Some (f c))" "c \<noteq> v"
  using assms retry_differs [of pick v r _ r'] by (fastforce simp: rewrap_def)

lemma other_index_other:
  assumes "rng_ok g" and "other_index g i n r = (Some k, r')"
  shows "k < n \<and> k \<noteq> i"
proof -
  have "0 < m \<Longrightarrow> random_range g 0 m r = (k', s) \<Longrightarrow> k' < m" for m k' s
    using rng_okD(2) [OF assms(1), of 0 m r] by simp
  from this [of n] this [of "n - 1"] assms(2) show ?thesis
    by (auto simp: other_index_def Let_def split: if_splits prod.splits)
qed

text \<open>A new operation differs from the old one, has its shape, and is in the deployment.\<close>

definition replaces :: "program_context \<Rightarrow> operation \<Rightarrow> operation \<Rightarrow> bool" where
  "replaces ctx old new \<longleftrightarrow> new \<noteq> old \<and> same_shape old new \<and> in_context ctx new"

definition mutated_ok ::
  "program_context \<Rightarrow> operation \<Rightarrow> (unit, operation option) outcome \<Rightarrow> bool" where
  "mutated_ok ctx op res \<longleftrightarrow>
     (\<exists>new. res = Ok new \<and> (\<forall>op'. new = Some op' \<longrightarrow> replaces ctx op op'))"

lemma rewrap_mutated:
  assumes "rewrap f (retry pick v r) = Some (res, r')" and "draws_ok pick"
    and "\<And>c. c \<noteq> v \<Longrightarrow> replaces ctx op (f c)"
  shows "mutated_ok ctx op res"
  by (rule rewrap_differs [OF assms(1, 2)]) (simp add: mutated_ok_def assms(3))

lemma rewrap_word_mutated:
  assumes "rewrap f (mutate_word g rand v edges r) = Some (res, r')" and "rng_ok g"
    and "edges \<noteq> []" and "\<And>c. c \<noteq> v \<Longrightarrow> replaces ctx op (f c)"
  shows "mutated_ok ctx op res"
  using rewrap_mutated assms pick_word_ok unfolding mutate_word_def by metis

lemma mutate_operation_ok:
  assumes "rng_ok g" and "mutate_operation g ctx op r = Some (res, r')"
  shows "mutated_ok ctx op res"
proof (cases op)
  case (LoadRole i)
  with assms(2) other_index_other [OF assms(1), of i "num_roles ctx" r] show ?thesis
    by (auto simp: mutated_ok_def replaces_def same_shape_def split: prod.splits)
next
  case (LoadConnection i)
  with assms(2) other_index_other [OF assms(1), of i "num_connections ctx" r] show ?thesis
    by (auto simp: mutated_ok_def replaces_def same_shape_def split: prod.splits)
next
  case (LoadVersion v)
  with assms show ?thesis
    by (auto elim!: rewrap_word_mutated simp: versions_def replaces_def same_shape_def)
next
  case (LoadFlags v)
  with assms show ?thesis
    by (auto elim!: rewrap_word_mutated simp: flag_words_def replaces_def same_shape_def)
next
  case (LoadPort v)
  with assms show ?thesis
    by (auto elim!: rewrap_word_mutated simp: ports_def replaces_def same_shape_def)
next
  case (LoadStr v)
  with assms show ?thesis
    by (auto elim!: rewrap_mutated intro: picks_ok simp: replaces_def same_shape_def)
next
  case (LoadBytes v)
  with assms show ?thesis
    by (auto elim!: rewrap_mutated intro: picks_ok simp: replaces_def same_shape_def)
next
  case (LoadDuration v)
  with assms show ?thesis
    by (auto elim!: rewrap_mutated intro: picks_ok simp: replaces_def same_shape_def)
next
  case (SendRawFrame m e)
  with assms show ?thesis
    by (auto elim!: rewrap_word_mutated split: prod.splits if_splits
        simp: message_types_def extension_types_def replaces_def same_shape_def)
qed (use assms in \<open>auto simp: mutated_ok_def\<close>)

lemma try_operations_ok:
  assumes "rng_ok g" and "\<forall>k \<in> set order. k < length (instructions p)"
    and "try_operations g p order r = Some (res, r')"
  shows "res = Err NoMutationsAvailable \<or>
    (\<exists>k \<in> set order. \<exists>op. replaces (prog_context p) (operation (instructions p ! k)) op \<and>
       res = Ok (p\<lparr>instructions := (instructions p)
                     [k := (instructions p ! k)\<lparr>operation := op\<rparr>]\<rparr>))"
  using assms(2, 3)
proof (induction order arbitrary: r)
  case (Cons k order)
  let ?op = "operation (instructions p ! k)"
  have k: "get (instructions p) k = Some (instructions p ! k)" using Cons.prems(1) by (simp add: get_def)
  obtain x s where x: "mutate_operation g (prog_context p) ?op r = Some (x, s)"
    using Cons.prems(2) k by (cases "mutate_operation g (prog_context p) ?op r") auto
  from mutate_operation_ok [OF assms(1) x] obtain new where new: "x = Ok new"
    "\<forall>op'. new = Some op' \<longrightarrow> replaces (prog_context p) ?op op'" by (auto simp: mutated_ok_def)
  show ?case
  proof (cases new)
    case None
    with Cons.prems k x new(1) have "try_operations g p order s = Some (res, r')" by simp
    from Cons.IH [OF _ this] Cons.prems(1) show ?thesis by auto
  next
    case (Some op)
    with new(2) have op: "replaces (prog_context p) ?op op" by simp
    then have "op \<noteq> ?op" by (simp add: replaces_def)
    with Cons.prems(2) k x new(1) Some op show ?thesis by auto
  qed
qed auto

lemma operation_mutate_ok:
  assumes "rng_ok g" and "wt_program (prog_context p) (instructions p)"
    and "operation_mutate g p r = Some (res, r')"
  shows "res = Err NoMutationsAvailable \<or>
    (\<exists>k op. k < length (instructions p) \<and> op \<noteq> operation (instructions p ! k) \<and>
       res = Ok (p\<lparr>instructions := (instructions p)
                     [k := (instructions p ! k)\<lparr>operation := op\<rparr>]\<rparr>) \<and>
       wt_program (prog_context p)
         ((instructions p)[k := (instructions p ! k)\<lparr>operation := op\<rparr>]))"
proof -
  obtain order s where order: "shuffle_indices g (length (instructions p)) r = (order, s)"
    by fastforce
  with rng_ok_shuffle_set [OF assms(1), of "length (instructions p)" r]
  have below: "\<forall>k \<in> set order. k < length (instructions p)" by simp
  from order assms(3) have "try_operations g p order s = Some (res, r')"
    by (simp add: operation_mutate_def)
  from try_operations_ok [OF assms(1) below this] below
  show ?thesis
    using change_operation_valid [OF assms(2)] by (fastforce simp: replaces_def)
qed

text \<open>Flipping a bit changes the word.\<close>

lemma flip_differs: "n < LENGTH('w) \<Longrightarrow> xor v (push_bit n 1) \<noteq> (v :: 'w::len word)"
proof
  assume n: "n < LENGTH('w)" and "xor v (push_bit n 1) = v"
  then have "bit (xor v (push_bit n 1)) n = bit v n" by simp
  with n show False by (simp add: bit_simps)
qed

section \<open>Properties\<close>



text \<open>The generation mutator with any of the three generators extends a valid program to a
  valid program with the old one as its beginning, whatever the draws, when the role the
  generator talks to exists.\<close>

theorem generation_keeps_validity:
  assumes "is_statically_valid p = Ok True" and "rng_ok g" and "role < num_roles (prog_context p)"
    and "gen = generate_raw_frame g role \<or>
         (\<exists>sg. sg_role sg = role \<and> gen = generate_setup g sg) \<or>
         (\<exists>ag. ag_role ag = role \<and> gen = generate_adversarial g ag)"
  shows "\<exists>q r' new. generator_mutate gen p r = (Ok q, r') \<and> is_statically_valid q = Ok True \<and>
    prog_context q = prog_context p \<and> instructions q = instructions p @ new"
  using assms(4)
proof (elim disjE exE conjE)
  have v: "wt_program (prog_context p) (instructions p)"
    using assms(1) by (simp add: statically_valid_iff)
  show ?thesis if "gen = generate_raw_frame g role"
    by (rule raw_frame_gen.generator_mutate_ok [OF v assms(3), of g r])
      (use that in \<open>auto simp: statically_valid_iff\<close>)
  show ?thesis if "sg_role sg = role" "gen = generate_setup g sg" for sg
    by (rule setup_gen.generator_mutate_ok [OF v, of g sg r])
      (use that assms(2, 3) in \<open>auto simp: statically_valid_iff\<close>)
  show ?thesis if "ag_role ag = role" "gen = generate_adversarial g ag" for ag
    by (rule adversarial_gen.generator_mutate_ok [OF v, of g ag r])
      (use that assms(2, 3) in \<open>auto simp: statically_valid_iff\<close>)
qed

theorem generation_keeps_validity_witness:
  "\<exists>q r' new. generator_mutate (generate_setup counting_rng (new_setup_generator 0))
     \<lparr>prog_context = \<lparr>num_roles = 1, num_connections = 0, seed = 0\<rparr>,
      instructions = [Instruction (LoadRole 0) []]\<rparr> 5 = (Ok q, r') \<and>
   instructions q = [Instruction (LoadRole 0) []] @ new"
proof -
  let ?p = "\<lparr>prog_context = \<lparr>num_roles = 1, num_connections = 0, seed = 0\<rparr>,
      instructions = [Instruction (LoadRole 0) []]\<rparr>"
  have v: "is_statically_valid ?p = (Ok True :: (unit, bool) outcome)" by code_simp
  have d: "\<exists>sg. sg_role sg = 0 \<and> generate_setup counting_rng (new_setup_generator 0) =
      generate_setup counting_rng sg"
    by (rule exI [of _ "new_setup_generator 0"]) (simp add: new_setup_generator_def)
  have "0 < num_roles (prog_context ?p)" by simp
  from generation_keeps_validity [OF v counting_rng_ok this disjI2 [OF disjI1 [OF d]], of 5]
  obtain q r' new where "generator_mutate (generate_setup counting_rng (new_setup_generator 0)) ?p 5 =
      (Ok q, r')" "instructions q = instructions ?p @ new" by blast
  then show ?thesis by simp
qed

text \<open>Rewiring an input of a valid program either finds nothing to change or replaces one
  input by another variable and the program stays valid; it never reports an invalid program
  and never panics.\<close>

theorem input_mutation_keeps_validity:
  assumes "rng_ok g" and "is_statically_valid p = Ok True"
  shows "(\<exists>r'. input_mutate g p r = (Err NoMutationsAvailable, r')) \<or>
    (\<exists>k slot x r'. input_mutate g p r = (Ok (replace_input p k slot x), r') \<and>
       k < length (instructions p) \<and> slot < length (inputs (instructions p ! k)) \<and>
       x \<noteq> inputs (instructions p ! k) ! slot \<and>
       is_statically_valid (replace_input p k slot x) = Ok True)"
proof -
  have c: "prog_context (replace_input p k slot x) = prog_context p" for k slot x
    by (simp add: replace_input_def Let_def)
  show ?thesis
    using input_mutate_cases [OF assms(1), of p r] assms(2) unfolding statically_valid_iff c by blast
qed

theorem input_mutation_keeps_validity_witness:
  "\<exists>k slot x r'. input_mutate counting_rng
      \<lparr>prog_context = \<lparr>num_roles = 2, num_connections = 0, seed = 0\<rparr>,
       instructions = [Instruction (LoadRole 0) [], Instruction (LoadRole 1) [],
                       Instruction Connect [0]]\<rparr> 1 =
     (Ok (replace_input \<lparr>prog_context = \<lparr>num_roles = 2, num_connections = 0, seed = 0\<rparr>,
       instructions = [Instruction (LoadRole 0) [], Instruction (LoadRole 1) [],
                       Instruction Connect [0]]\<rparr> k slot x), r')"
proof -
  let ?p = "\<lparr>prog_context = \<lparr>num_roles = 2, num_connections = 0, seed = 0\<rparr>,
       instructions = [Instruction (LoadRole 0) [], Instruction (LoadRole 1) [],
                       Instruction Connect [0]]\<rparr>"
  have v: "is_statically_valid ?p = (Ok True :: (unit, bool) outcome)" by code_simp
  have "is_ok (fst (input_mutate counting_rng ?p 1))" by code_simp
  with input_mutation_keeps_validity [OF counting_rng_ok v, of 1] show ?thesis by auto
qed

text \<open>C16: Changing an operation of a valid program either finds nothing to change or replaces
  one operation by a different one and the program stays valid; when it returns it has not
  panicked: in particular the debug assertion on the new operation holds.\<close>

theorem operation_mutation_keeps_validity:
  assumes "rng_ok g" and "is_statically_valid p = Ok True"
    and "operation_mutate g p r = Some (res, r')"
  shows "res = Err NoMutationsAvailable \<or>
    (\<exists>k op. k < length (instructions p) \<and> op \<noteq> operation (instructions p ! k) \<and>
       res = Ok (p\<lparr>instructions := (instructions p)
                     [k := (instructions p ! k)\<lparr>operation := op\<rparr>]\<rparr>) \<and>
       is_statically_valid (p\<lparr>instructions := (instructions p)
                     [k := (instructions p ! k)\<lparr>operation := op\<rparr>]\<rparr>) = Ok True)"
  using operation_mutate_ok [OF assms(1) _ assms(3)] assms(2) unfolding statically_valid_iff
  by simp

theorem operation_mutation_keeps_validity_witness:
  "operation_mutate counting_rng \<lparr>prog_context = \<lparr>num_roles = 3, num_connections = 0, seed = 0\<rparr>,
      instructions = [Instruction (LoadRole 0) []]\<rparr> 0 =
   Some (Ok \<lparr>prog_context = \<lparr>num_roles = 3, num_connections = 0, seed = 0\<rparr>,
      instructions = [Instruction (LoadRole 2) []]\<rparr>, 2)"
  (is "operation_mutate counting_rng ?p 0 = Some (Ok ?q, 2)")
proof -
  have eq: "operation_mutate counting_rng ?p 0 = Some (Ok ?q, 2)"
    by (simp add: operation_mutate_def counting_rng_def other_index_def Instruction_def)
  have v: "is_statically_valid ?p = (Ok True :: (unit, bool) outcome)" by code_simp
  from operation_mutation_keeps_validity [OF counting_rng_ok v eq] eq show ?thesis by blast
qed

text \<open>The loop that draws a word different from the current one returns as soon as some round
  chooses the bit flip, which always gives a different word.\<close>

theorem word_mutation_ends:
  fixes v :: "'w::len word"
  assumes "rng_ok g" and "edges \<noteq> []"
    and "fst (random_range g 0 3 (after_rounds (pick_word g rand v edges) n r)) = 1"
  shows "\<exists>w r'. mutate_word g rand v edges r = Some (Ok w, r') \<and> w \<noteq> v"
proof -
  let ?s = "after_rounds (pick_word g rand v edges) n r"
  obtain s where s: "random_range g 0 3 ?s = (1, s)" using assms(3) by (metis prod.collapse)
  have "fst (random_range g 0 LENGTH('w) s) < LENGTH('w)" using rng_okD(2) [OF assms(1)] by simp
  from flip_differs [OF this, of v] s
  have "fst (pick_word g rand v edges ?s) \<noteq> Ok v"
    by (auto simp: pick_word_def Let_def split: prod.splits)
  from retry_returns [OF pick_word_ok [OF assms(1, 2)] this]
  show ?thesis by (simp add: mutate_word_def)
qed

theorem word_mutation_ends_witness:
  "\<exists>w r'. mutate_word counting_rng (random_u16 counting_rng) 0 versions 0 = Some (Ok w, r') \<and> w \<noteq> 0"
proof (rule word_mutation_ends [OF counting_rng_ok])
  show "fst (random_range counting_rng 0 3
      (after_rounds (pick_word counting_rng (random_u16 counting_rng) 0 versions) 2 0)) = 1"
    by code_simp
qed (simp add: versions_def)
end
