(* ===== verification/Ir_Mutators.thy ===== *)
theory Ir_Mutators
  imports Mutators
begin

text \<open>
  The mutators the fuzzer runs (\<open>stratamoto-libafl/src/mutators.rs\<close>): the IR's mutators and
  splicer, whose result is kept only when it is valid and not too long, and the insertion of a
  generated fragment at a point outside any block. libafl's corpus is a record of what the
  splice asks of it, and the entry it draws an argument.
\<close>

section \<open>Keeping a candidate\<close>

definition max_instructions :: nat where
  "max_instructions = 4096"

definition acceptable :: "program \<Rightarrow> (unit, bool) outcome" where
  "acceptable p =
     (if length (instructions p) \<le> max_instructions then is_statically_valid p else Ok False)"

text \<open>libafl's \<open>MutationResult\<close>, with the input the mutator leaves.\<close>

datatype mutation_result = MutationSkipped | Mutated

definition keep_candidate :: "program \<Rightarrow> program \<Rightarrow> (unit, mutation_result \<times> program) outcome" where
  "keep_candidate p candidate =
     andThen (acceptable candidate) (\<lambda>ok.
       Ok (if ok then (Mutated, candidate) else (MutationSkipped, p)))"

definition keep_result ::
  "program \<Rightarrow> (mutator_error, program) outcome \<Rightarrow> (unit, mutation_result \<times> program) outcome" where
  "keep_result p res =
     (case res of
        Panic \<Rightarrow> Panic
      | Err _ \<Rightarrow> Ok (MutationSkipped, p)
      | Ok candidate \<Rightarrow> keep_candidate p candidate)"

text \<open>\<open>IrMutator\<close>, on a mutator that may not return.\<close>

definition ir_mutate ::
  "(program \<Rightarrow> 'r \<Rightarrow> ((mutator_error, program) outcome \<times> 'r) option) \<Rightarrow> program \<Rightarrow> 'r \<Rightarrow>
   ((unit, mutation_result \<times> program) outcome \<times> 'r) option" where
  "ir_mutate m p r = map_option (\<lambda>(res, r'). (keep_result p res, r')) (m p r)"

section \<open>Splicing\<close>

text \<open>An entry of the corpus; \<open>None\<close> is an input that does not load.\<close>

record corpus_entry =
  entry_scheduled :: nat
  entry_input :: "program option"

record corpus =
  corpus_current :: "nat option"
  corpus_entries :: "nat \<rightharpoonup> corpus_entry"

datatype corpus_error = NoSuchEntry nat | NotLoaded nat

definition ir_splice ::
  "nat \<Rightarrow> corpus \<Rightarrow> program \<Rightarrow> (corpus_error, mutation_result \<times> program) outcome" where
  "ir_splice drawn c p =
     (if corpus_current c = Some drawn then Ok (MutationSkipped, p)
      else case corpus_entries c drawn of
        None \<Rightarrow> Err (NoSuchEntry drawn)
      | Some e \<Rightarrow>
          if entry_scheduled e = 0 then Ok (MutationSkipped, p)
          else (case entry_input e of
              None \<Rightarrow> Err (NotLoaded drawn)
            | Some other \<Rightarrow>
                (case keep_result p (splice p other) of
                   Ok kept \<Rightarrow> Ok kept
                 | _ \<Rightarrow> Panic)))"

section \<open>Inserting a fragment\<close>

text \<open>The loop over the instructions, at instruction \<open>k\<close> with \<open>depth\<close> blocks open before it.\<close>

fun global_points :: "nat \<Rightarrow> nat \<Rightarrow> instruction list \<Rightarrow> nat list" where
  "global_points depth k [] = []"
| "global_points depth k (i # rest) =
     (let depth' = (if is_block_begin (operation i) then depth + 1
                    else if is_block_end (operation i) then depth - 1 else depth)
      in (if depth' = 0 then [k + 1] else []) @ global_points depth' (k + 1) rest)"

definition insertion_points :: "program \<Rightarrow> nat list" where
  "insertion_points p = 0 # global_points 0 0 (instructions p)"

definition move_past :: "nat \<Rightarrow> nat \<Rightarrow> nat \<Rightarrow> nat" where
  "move_past before added x = (if before \<le> x then x + added else x)"

definition move_inputs :: "nat \<Rightarrow> nat \<Rightarrow> instruction \<Rightarrow> instruction" where
  "move_inputs before added i = i\<lparr>inputs := map (move_past before added) (inputs i)\<rparr>"

text \<open>\<open>IrGenerator\<close>. The \<open>Panic\<close>s of its own are the index into the points and the subtraction
  of the variable counts.\<close>

definition ir_generate ::
  "'r rng_ops \<Rightarrow> ('r, unit) gen \<Rightarrow> program \<Rightarrow> 'r \<Rightarrow>
   (unit, mutation_result \<times> program) outcome \<times> 'r" where
  "ir_generate g gen p r =
     (let points = insertion_points p; (n, r1) = random_range g 0 (length points) r
      in case get points n of
           None \<Rightarrow> (Panic, r1)
         | Some k \<Rightarrow>
             (case from_prefix (prog_context p) (take k (instructions p)) of
                Panic \<Rightarrow> (Panic, r1)
              | Err _ \<Rightarrow> (Ok (MutationSkipped, p), r1)
              | Ok b \<Rightarrow>
                  (let before = variable_count b
                   in case gen (b, r1) of
                        (Panic, _, r2) \<Rightarrow> (Panic, r2)
                      | (Err _, _, r2) \<Rightarrow> (Ok (MutationSkipped, p), r2)
                      | (Ok _, b', r2) \<Rightarrow>
                          if variable_count b' < before then (Panic, r2)
                          else
                            (let added = variable_count b' - before;
                                 rest = map (move_inputs before added) (drop k (instructions p));
                                 ins = b_instructions b' @ rest
                             in (keep_candidate p (unchecked_new (prog_context p) ins), r2)))))"

section \<open>Any role\<close>

definition any_role :: "'r rng_ops \<Rightarrow> nat \<Rightarrow> ('r, nat) gen" where
  "any_role g n = draw (random_range g 0 (max n 1))"

definition any_role_setup :: "'r rng_ops \<Rightarrow> nat \<Rightarrow> ('r, unit) gen" where
  "any_role_setup g n = gbind (any_role g n) (\<lambda>role. generate_setup g (new_setup_generator role))"

definition any_role_adversarial_setup :: "'r rng_ops \<Rightarrow> nat \<Rightarrow> ('r, unit) gen" where
  "any_role_adversarial_setup g n =
     gbind (any_role g n) (\<lambda>role.
     gbind (any_violation g) (\<lambda>v.
       generate_adversarial g \<lparr>ag_role = role, ag_protocol = None, ag_violation = v\<rparr>))"

definition any_role_raw_frame :: "'r rng_ops \<Rightarrow> nat \<Rightarrow> ('r, unit) gen" where
  "any_role_raw_frame g n = gbind (any_role g n) (\<lambda>role. generate_raw_frame g role)"

lemma runs_any_role:
  assumes "rng_ok g" and "\<And>role. role < max n 1 \<Longrightarrow> runs ctx below st (f role) Q"
  shows "runs ctx below st (gbind (any_role g n) f) Q"
  unfolding any_role_def
  by (rule runs_bind [where P = "\<lambda>role st'. role < max n 1 \<and> st' = st"])
    (use assms rng_okD(2) [OF assms(1), of 0 "max n 1"] in \<open>auto intro!: runs_draw\<close>)

interpretation any_setup_gen: generator "any_role_setup g n"
    "\<lambda>ctx. rng_ok g \<and> max n 1 \<le> num_roles ctx" for g n
proof unfold_locales
  fix b F r assume b: "builder_inv b" "rng_ok g \<and> max n 1 \<le> num_roles (b_context b)"
    "frames (abs_typing b) = [(None, F)]"
  then show "\<exists>b' r' F'. any_role_setup g n (b, r) = (Ok (), b', r') \<and> grew b b' \<and>
      frames (abs_typing b') = [(None, F')] \<and> F \<subseteq> F'"
    unfolding any_role_setup_def
    by (intro runs_generates [OF runs_any_role [OF _ runs_generate_setup]])
      (auto simp: new_setup_generator_def)
qed

interpretation any_adversarial_gen: generator "any_role_adversarial_setup g n"
    "\<lambda>ctx. rng_ok g \<and> max n 1 \<le> num_roles ctx" for g n
proof unfold_locales
  fix b F r assume b: "builder_inv b" "rng_ok g \<and> max n 1 \<le> num_roles (b_context b)"
    "frames (abs_typing b) = [(None, F)]"
  then show "\<exists>b' r' F'. any_role_adversarial_setup g n (b, r) = (Ok (), b', r') \<and> grew b b' \<and>
      frames (abs_typing b') = [(None, F')] \<and> F \<subseteq> F'"
    unfolding any_role_adversarial_setup_def any_violation_def
    by (intro runs_generates [OF runs_any_role [OF _ runs_bind_choose [OF _ _ runs_generate_adversarial]]])
      (auto simp: all_violations_def)
qed

interpretation any_raw_frame_gen: generator "any_role_raw_frame g n"
    "\<lambda>ctx. rng_ok g \<and> max n 1 \<le> num_roles ctx" for g n
proof unfold_locales
  fix b F r assume b: "builder_inv b" "rng_ok g \<and> max n 1 \<le> num_roles (b_context b)"
    "frames (abs_typing b) = [(None, F)]"
  then show "\<exists>b' r' F'. any_role_raw_frame g n (b, r) = (Ok (), b', r') \<and> grew b b' \<and>
      frames (abs_typing b') = [(None, F')] \<and> F \<subseteq> F'"
    unfolding any_role_raw_frame_def
    by (intro runs_generates [OF runs_any_role [OF _ runs_generate_raw_frame]]) auto
qed

section \<open>The insertion points are in the global context\<close>

lemma global_point_typing:
  assumes "wt_steps ctx t ins t'" and "length (frames t) = Suc depth"
    and "j \<in> set (global_points depth k ins)"
  shows "k < j \<and> j \<le> k + length ins \<and>
    (\<exists>u. wt_steps ctx t (take (j - k) ins) u \<and> length (frames u) = 1)"
  using assms
proof (induction arbitrary: depth k rule: wt_steps.induct)
  case (wt_cons t i t1 ins t')
  let ?d = "if is_block_begin (operation i) then depth + 1
            else if is_block_end (operation i) then depth - 1 else depth"
  from wt_cons.hyps(1) wt_cons.prems(1) have len: "length (frames t1) = Suc ?d"
    by (cases rule: wt_step.cases) auto
  from wt_cons.prems(2) consider "?d = 0" "j = k + 1" | "j \<in> set (global_points ?d (k + 1) ins)"
    by (auto simp: Let_def split: if_splits)
  then show ?case
  proof cases
    case 1
    with len wt_cons.hyps(1) show ?thesis by (auto intro: wt_steps.intros)
  next
    case 2
    from wt_cons.IH [OF len this] obtain u where u: "k + 1 < j" "j \<le> k + 1 + length ins"
      "wt_steps ctx t1 (take (j - (k + 1)) ins) u" "length (frames u) = 1" by blast
    moreover from u(1) have "j - k = Suc (j - (k + 1))" by simp
    ultimately show ?thesis using wt_cons.hyps(1) by (auto intro: wt_steps.wt_cons)
  qed
qed simp

lemma insertion_point_typing:
  assumes "wt_program (prog_context p) (instructions p)" and "k \<in> set (insertion_points p)"
  obtains u F where "wt_steps (prog_context p) init_typing (take k (instructions p)) u"
    "frames u = [(None, F)]" "k \<le> length (instructions p)"
proof -
  from wt_program_end [OF assms(1)] obtain t F where
    t: "wt_steps (prog_context p) init_typing (instructions p) t" .
  have init: "length (frames init_typing) = Suc 0" "frames init_typing \<noteq> []"
    "fst (last (frames init_typing)) = None" by (simp_all add: init_typing_def)
  obtain u where u: "wt_steps (prog_context p) init_typing (take k (instructions p)) u"
    "length (frames u) = 1" "k \<le> length (instructions p)"
  proof (cases "k = 0")
    case True
    with that [of init_typing] init show ?thesis by (auto intro: wt_nil)
  next
    case False
    with assms(2) have "k \<in> set (global_points 0 0 (instructions p))"
      by (auto simp: insertion_points_def)
    from global_point_typing [OF t init(1) this] that show ?thesis by auto
  qed
  from wt_steps_bottom [OF u(1) init(2, 3)] have "fst (last (frames u)) = None" .
  with u(2) obtain F where "frames u = [(None, F)]"
    by (cases "frames u") (auto simp: prod_eq_iff)
  with u that show ?thesis by blast
qed

section \<open>Insertion keeps validity\<close>

lemma move_inputs_rename: "move_inputs before added = rename_inputs (move_past before added)"
  by (simp add: fun_eq_iff move_inputs_def rename_inputs_def)

lemma insertion_typing:
  assumes "wt_steps ctx init_typing pre u" "frames u = [(None, F)]"
    and "wt_steps ctx u post t" "length (frames t) = 1"
    and "wt_steps ctx u new u'" "frames u' = [(None, F')]" "F \<subseteq> F'"
  shows "wt_program ctx
    (pre @ new @ map (move_inputs (next_var u) (next_var u' - next_var u)) post)"
proof -
  let ?f = "move_past (next_var u) (next_var u' - next_var u)"
  have "frames_below u" using wt_steps_below [OF assms(1) frames_below_init] .
  with assms(2) have below: "\<forall>i v. (i, v) \<in> F \<longrightarrow> i < next_var u"
    by (auto simp: frames_below_def in_scope_def)
  have "covers ?f u u'"
    using assms(2, 6, 7) below by (auto simp: covers_def frame_covers_def move_past_def)
  moreover have "\<forall>j. ?f (next_var u + j) = next_var u' + j"
    using wt_steps_next [OF assms(5)] by (simp add: move_past_def)
  moreover have "\<forall>i \<in> set post. in_context ctx (operation i)"
    using wt_steps_context [OF assms(3)] by blast
  ultimately obtain w where w: "wt_steps ctx u' (map (rename_inputs ?f) post) w" "covers ?f t w"
    using wt_steps_rename [OF assms(3)] by blast
  with assms(1, 4, 5) covers_length [OF w(2)] show ?thesis
    by (auto simp: wt_program_def wt_steps_append move_inputs_rename)
qed

text \<open>The candidate a generator makes at an insertion point.\<close>

definition inserted :: "program \<Rightarrow> nat \<Rightarrow> instruction list \<Rightarrow> program" where
  "inserted p k new = p\<lparr>instructions := take k (instructions p) @ new @
     map (move_inputs (variable_total (take k (instructions p))) (variable_total new))
       (drop k (instructions p))\<rparr>"

lemma keep_candidate_valid:
  "is_statically_valid q = (Ok True :: (unit, bool) outcome) \<Longrightarrow>
   keep_candidate p q = Ok (if length (instructions q) \<le> max_instructions then (Mutated, q)
                            else (MutationSkipped, p))"
  by (auto simp: keep_candidate_def acceptable_def)

lemma unchecked_inserted:
  "unchecked_new (prog_context p) (take k (instructions p) @ new @
     map (move_inputs (variable_total (take k (instructions p))) (variable_total new))
       (drop k (instructions p))) = inserted p k new"
  by (cases p) (simp add: unchecked_new_def inserted_def)

context generator
begin

lemma ir_generate_ok:
  assumes "wt_program (prog_context p) (instructions p)" and "ready (prog_context p)" and "rng_ok g"
  shows "\<exists>k new r'. k \<in> set (insertion_points p) \<and>
    wt_program (prog_context p) (instructions (inserted p k new)) \<and>
    ir_generate g gen p r =
      (Ok (if length (instructions (inserted p k new)) \<le> max_instructions
           then (Mutated, inserted p k new) else (MutationSkipped, p)), r')"
proof -
  let ?c = "prog_context p" and ?pts = "insertion_points p"
  obtain n r1 where n: "random_range g 0 (length ?pts) r = (n, r1)" by fastforce
  have "0 < length ?pts" by (simp add: insertion_points_def)
  from rng_okD(2) [OF assms(3) this, of r] n have n': "n < length ?pts" by simp
  define k where "k = ?pts ! n"
  with n' have k: "get ?pts n = Some k" "k \<in> set ?pts"
    by (auto simp: get_def)
  obtain u F where u: "wt_steps ?c init_typing (take k (instructions p)) u" "frames u = [(None, F)]"
    using insertion_point_typing [OF assms(1) k(2)] by metis
  from wt_program_end [OF assms(1)] obtain t G where
    t: "wt_steps ?c init_typing (instructions p) t" "frames t = [(None, G)]" .
  have "instructions p = take k (instructions p) @ drop k (instructions p)" by simp
  with t(1) u(1) have rest: "wt_steps ?c u (drop k (instructions p)) t"
    using wt_steps_append wt_steps_det by metis
  obtain b where b: "from_prefix ?c (take k (instructions p)) = Ok b" "builder_inv b"
    "abs_typing b = u" "b_context b = ?c" "b_instructions b = take k (instructions p)"
    using from_prefix_wt [OF u(1)] .
  from generates [OF b(2), of F r1] assms(2) b(3, 4) u(2) obtain b' r2 F' where
    g: "gen (b, r1) = (Ok (), b', r2)" "grew b b'" "frames (abs_typing b') = [(None, F')]" "F \<subseteq> F'"
    by auto
  from g(2) b(3, 4, 5) obtain new where new: "b_instructions b' = take k (instructions p) @ new"
    "wt_steps ?c u new (abs_typing b')"
    by (auto simp: grew_def)
  have total: "next_var u = variable_total (take k (instructions p))"
    "next_var (abs_typing b') = next_var u + variable_total new"
    using wt_steps_next [OF u(1)] wt_steps_next [OF new(2)] by (simp_all add: init_typing_def)
  have counts: "variable_count b = next_var u" "variable_count b' = next_var (abs_typing b')"
    using b(3) by (auto simp: variable_count_def)
  have wt: "wt_program ?c (instructions (inserted p k new))"
    using insertion_typing [OF u rest _ new(2) g(3, 4)] t(2) total
    by (simp add: inserted_def)
  then have "is_statically_valid (inserted p k new) = (Ok True :: (unit, bool) outcome)"
    unfolding statically_valid_iff by (simp add: inserted_def)
  from keep_candidate_valid [OF this, of p]
  have "ir_generate g gen p r =
      (Ok (if length (instructions (inserted p k new)) \<le> max_instructions
           then (Mutated, inserted p k new) else (MutationSkipped, p)), r2)"
    using n k(1) b(1) g(1) counts total new(1)
    by (simp add: ir_generate_def unchecked_inserted del: abs_typing_simps)
  with k(2) wt show ?thesis by blast
qed

end

section \<open>Mutated inputs are valid\<close>

lemma keep_candidate_result:
  "keep_candidate p q = Ok (m, x) \<longleftrightarrow>
   (if length (instructions q) \<le> max_instructions \<and> is_statically_valid q = (Ok True :: (unit, bool) outcome)
    then m = Mutated \<and> x = q
    else m = MutationSkipped \<and> x = p \<and>
      (length (instructions q) \<le> max_instructions \<longrightarrow> is_statically_valid q = (Ok False :: (unit, bool) outcome)))"
  by (auto simp: keep_candidate_def acceptable_def)

definition kept_well :: "program \<Rightarrow> mutation_result \<Rightarrow> program \<Rightarrow> bool" where
  "kept_well p m q \<longleftrightarrow>
     (case m of
        MutationSkipped \<Rightarrow> q = p
      | Mutated \<Rightarrow> length (instructions q) \<le> max_instructions \<and>
          is_statically_valid q = (Ok True :: (unit, bool) outcome))"

lemma keep_candidate_kept: "keep_candidate p c = Ok (m, q) \<Longrightarrow> kept_well p m q"
  by (auto simp: keep_candidate_result kept_well_def split: if_splits)

lemma keep_result_kept: "keep_result p res = Ok (m, q) \<Longrightarrow> kept_well p m q"
  by (cases res) (auto simp: keep_result_def kept_well_def dest: keep_candidate_kept)

lemma ir_splice_kept: "ir_splice drawn c p = Ok (m, q) \<Longrightarrow> kept_well p m q"
  by (auto simp: ir_splice_def kept_well_def split: if_splits option.splits outcome.splits
      dest!: keep_result_kept)

lemma ir_generate_kept: "ir_generate g gen p r = (Ok (m, q), r') \<Longrightarrow> kept_well p m q"
  by (auto simp: ir_generate_def Let_def kept_well_def
      split: if_splits option.splits outcome.splits prod.splits dest!: keep_candidate_kept)

section \<open>Properties\<close>



text \<open>Whatever an IR mutator, a splice or a generator does, the input the fuzzer goes on with
  is the one it had, or a valid program of at most 4096 instructions.\<close>

theorem mutated_inputs_are_valid:
  assumes "ir_mutate m p r = Some (Ok (res, q), r') \<or> ir_splice drawn c p = Ok (res, q) \<or>
    ir_generate g gen p r = (Ok (res, q), r')"
  shows "if res = Mutated then length (instructions q) \<le> 4096 \<and> is_statically_valid q = Ok True
    else q = p"
proof -
  from assms have "kept_well p res q"
    by (auto simp: ir_mutate_def dest: ir_splice_kept ir_generate_kept keep_result_kept)
  then show ?thesis
    by (cases res) (simp_all add: kept_well_def max_instructions_def statically_valid_iff)
qed

theorem mutated_inputs_are_valid_witness:
  "is_statically_valid \<lparr>prog_context = \<lparr>num_roles = 1, num_connections = 0, seed = 0\<rparr>,
      instructions = [Instruction Probe []]\<rparr> = Ok True"
proof -
  let ?p = "\<lparr>prog_context = \<lparr>num_roles = 1, num_connections = 0, seed = 0\<rparr>, instructions = []\<rparr>"
  let ?q = "?p\<lparr>instructions := [Instruction Probe []]\<rparr>"
  have "is_statically_valid ?q = (Ok True :: (unit, bool) outcome)" by code_simp
  from keep_candidate_valid [OF this, of ?p]
  have "ir_mutate (\<lambda>p r. Some (Ok ?q, r)) ?p () = Some (Ok (Mutated, ?q), ())"
    by (simp add: ir_mutate_def keep_result_def max_instructions_def)
  from mutated_inputs_are_valid [OF disjI1 [OF this]] show ?thesis by simp
qed

end
