(* ===== verification/Frame.thy ===== *)
theory Frame
  imports Texts
begin

text \<open>
  The harness's errors (\<open>error.rs\<close>) and the layout of a frame (\<open>frame.rs\<close>) of the crate
  \<open>stratamoto\<close>, with the texts they print. A received frame is a value of the wire library,
  which is not part of the repository: the record \<open>wire_frame\<close> has what the harness reads of
  one, the accessors of its header and the result of decoding its payload.
\<close>

section \<open>Errors\<close>

text \<open>\<open>std::io::ErrorKind\<close>, the kinds the harness tells apart.\<close>

datatype io_kind =
    UnexpectedEof | ConnectionReset | ConnectionAborted | BrokenPipe | NotConnected
  | WouldBlock | IoTimedOut | OtherKind

text \<open>The errors of other crates carry the text they print.\<close>

datatype harness_error =
    IoError io_kind string
  | Framing string
  | Framing2 string
  | Codec string
  | Parser string
  | Binary string
  | UnexpectedMessage u8
  | Input string
  | Noise string
  | Target string
  | Timeout

fun error_display :: "harness_error \<Rightarrow> string" where
  "error_display (IoError k e) = ''io: '' @ e"
| "error_display (Framing e) = ''framing: '' @ e"
| "error_display (Framing2 e) = ''framing: '' @ e"
| "error_display (Codec e) = ''codec: '' @ e"
| "error_display (Parser e) = ''parser: '' @ e"
| "error_display (Binary e) = ''binary: '' @ e"
| "error_display (UnexpectedMessage t) = ''unexpected message type 0x'' @ hex2 t"
| "error_display (Input e) = ''input: '' @ e"
| "error_display (Noise e) = ''noise: '' @ e"
| "error_display (Target e) = ''target: '' @ e"
| "error_display Timeout = ''timed out''"

section \<open>Assembling\<close>

definition channel_msg_mask :: u16 where
  "channel_msg_mask = 0x8000"

text \<open>\<open>to_le_bytes\<close>: byte \<open>k\<close> of a word, the lowest first.\<close>

definition le_byte :: "'w::len word \<Rightarrow> nat \<Rightarrow> u8" where
  "le_byte w k = ucast (drop_bit (8 * k) w)"

definition header_size :: nat where
  "header_size = 6"

definition frame_length :: "u8 list \<Rightarrow> (harness_error, u32) outcome" where
  "frame_length payload =
     (if length payload < 2 ^ 32 \<and> (of_nat (length payload) :: u32) < push_bit 24 1
      then Ok (of_nat (length payload))
      else Err (Framing ''payload exceeds the 24 bit length field''))"

definition assemble :: "u16 \<Rightarrow> u8 \<Rightarrow> bool \<Rightarrow> u8 list \<Rightarrow> (harness_error, u8 list) outcome" where
  "assemble extension_type message_type channel_msg payload =
     andThen (frame_length payload) (\<lambda>len.
       let ext = (if channel_msg then or extension_type channel_msg_mask
                  else and extension_type (not channel_msg_mask))
       in Ok ([le_byte ext 0, le_byte ext 1] @ [message_type] @
              [le_byte len 0, le_byte len 1, le_byte len 2] @ payload))"

section \<open>Received frames\<close>

text \<open>
  A decoded message, as far as the harness tells them apart; texts are as
  \<open>String::from_utf8_lossy\<close> reads them. \<open>channel_bit\<close> is what the message's type says of the
  header's channel bit.
\<close>

datatype message_body =
    SetupConnectionSuccess u16 u32
  | SetupConnectionError u32 string
  | ReconnectTo string u16
  | OtherMessage

record any_message =
  message_body :: message_body
  channel_bit :: bool

record wire_frame =
  ext_type_without_channel_msg :: u16
  channel_msg :: bool
  msg_type :: u8
  payload_length :: nat
  message :: "(harness_error, any_message) outcome"

section \<open>Facts about the layout\<close>

text \<open>What a reader of the layout finds at the positions the protocol gives the fields.\<close>

definition read_le :: "u8 list \<Rightarrow> nat" where
  "read_le bs = foldr (\<lambda>b n. unat b + 256 * n) bs 0"

lemma le_byte_unat: "unat (le_byte w k) = unat w div 2 ^ (8 * k) mod 256"
proof -
  have "unat (le_byte w k) = take_bit 8 (drop_bit (8 * k) (unat w))"
    by (simp add: le_byte_def unsigned_ucast_eq unsigned_drop_bit_eq
        take_bit_nat_eq_self [OF unsigned_less])
  then show ?thesis by (simp add: take_bit_eq_mod drop_bit_eq_div)
qed

lemma frame_length_Ok:
  "frame_length payload = Ok len \<longleftrightarrow> length payload < 2 ^ 24 \<and> len = of_nat (length payload)"
proof (cases "length payload < 2 ^ 32")
  case True
  then have "unat (of_nat (length payload) :: u32) = length payload"
    by (simp add: unat_of_nat take_bit_nat_eq_self)
  then show ?thesis by (auto simp: frame_length_def word_less_nat_alt)
next
  case False
  then show ?thesis by (auto simp: frame_length_def)
qed

lemma frame_length_not_Panic [simp]: "frame_length payload \<noteq> Panic"
  by (simp add: frame_length_def)

lemma read_le_16: "read_le [le_byte w 0, le_byte w 1] = unat (w :: u16)"
proof -
  have "unat w < 2 ^ LENGTH(16)" by (rule unsigned_less)
  then have "unat w < 65536" by simp
  moreover have "n mod 256 + 256 * (n div 256 mod 256) = n" if "n < 65536" for n :: nat
  proof -
    have "n div 256 mod 256 = n div 256" using that by (intro mod_less) simp
    then show ?thesis by (simp only: mod_mult_div_eq)
  qed
  ultimately show ?thesis by (simp add: read_le_def le_byte_unat)
qed

lemma read_le_24:
  assumes "n < 2 ^ 24"
  shows "read_le [le_byte (of_nat n :: u32) 0, le_byte (of_nat n :: u32) 1, le_byte (of_nat n :: u32) 2] = n"
proof -
  have "unat (of_nat n :: u32) = n" using assms by (simp add: unat_of_nat take_bit_nat_eq_self)
  moreover have "m mod 256 + 256 * (m div 256 mod 256 + 256 * (m div 65536 mod 256)) = m"
    if "m < 16777216" for m :: nat
  proof -
    have "m div 65536 = m div 256 div 256" by (simp add: div_mult2_eq [symmetric])
    moreover have "m div 256 div 256 < 256" using that by (simp add: div_mult2_eq [symmetric])
    ultimately have "m div 256 mod 256 + 256 * (m div 65536 mod 256) = m div 256" by simp
    then show ?thesis by (simp only:) presburger
  qed
  ultimately show ?thesis using assms by (simp add: read_le_def le_byte_unat)
qed

text \<open>The fields the layout holds.\<close>

definition wire_ext :: "u16 \<Rightarrow> bool \<Rightarrow> u16" where
  "wire_ext e c = (if c then or e channel_msg_mask else and e (not channel_msg_mask))"

lemma wire_ext_split:
  "and (wire_ext e c) (not channel_msg_mask) = and e (not channel_msg_mask)"
  "bit (wire_ext e c) 15 = c"
  by (auto simp: wire_ext_def channel_msg_mask_def bit_simps intro!: bit_word_eqI)

lemma assemble_Ok:
  "assemble e m c payload = Ok bs \<longleftrightarrow>
   length payload < 2 ^ 24 \<and>
   bs = [le_byte (wire_ext e c) 0, le_byte (wire_ext e c) 1, m,
         le_byte (of_nat (length payload) :: u32) 0, le_byte (of_nat (length payload) :: u32) 1,
         le_byte (of_nat (length payload) :: u32) 2] @ payload"
  by (auto simp: assemble_def frame_length_Ok wire_ext_def Let_def)

lemma assemble_too_long:
  "\<not> length payload < 2 ^ 24 \<Longrightarrow> \<exists>t. assemble e m c payload = Err (Framing t)"
  using frame_length_Ok [of payload] by (cases "frame_length payload")
    (auto simp: assemble_def frame_length_def split: if_splits)

lemma assemble_fields:
  assumes "length payload < 2 ^ 24"
  shows "\<exists>bs. assemble e m c payload = Ok bs \<and> length bs = header_size + length payload \<and>
           read_le (take 2 bs) = unat (wire_ext e c) \<and>
           bs ! 2 = m \<and> read_le (take 3 (drop 3 bs)) = length payload \<and>
           drop header_size bs = payload"
proof -
  let ?l = "of_nat (length payload) :: u32"
  let ?bs = "[le_byte (wire_ext e c) 0, le_byte (wire_ext e c) 1, m,
      le_byte ?l 0, le_byte ?l 1, le_byte ?l 2] @ payload"
  have "take 2 ?bs = [le_byte (wire_ext e c) 0, le_byte (wire_ext e c) 1]"
    "take 3 (drop 3 ?bs) = [le_byte ?l 0, le_byte ?l 1, le_byte ?l 2]"
    "?bs ! 2 = m" "drop header_size ?bs = payload" "length ?bs = header_size + length payload"
    by (simp_all add: header_size_def eval_nat_numeral)
  with assms read_le_16 [of "wire_ext e c"] read_le_24 [OF assms]
  show ?thesis by (intro exI [of _ ?bs]) (simp only: assemble_Ok simp_thms)
qed

section \<open>Properties\<close>

text \<open>A frame is assembled exactly when its payload fits the 24 bit length field, and the
  bytes hold, at the places the protocol gives them: the extension type with the channel bit
  set or cleared as asked, the message type, and the payload's length, then the payload.\<close>

theorem assembled_fields:
  "(if length payload < 2 ^ 24
    then \<exists>bs. assemble e m c payload = Ok bs \<and> length bs = header_size + length payload \<and>
           read_le (take 2 bs) = unat (if c then or e channel_msg_mask
                                       else and e (not channel_msg_mask)) \<and>
           bs ! 2 = m \<and> read_le (take 3 (drop 3 bs)) = length payload \<and>
           drop header_size bs = payload
    else \<exists>t. assemble e m c payload = Err (Framing t))"
  using assemble_fields [of payload e m c] assemble_too_long [of payload e m c]
  unfolding wire_ext_def by simp

text \<open>C23: Frames are unambiguous on a stream: two streams that begin with an assembled frame and
  are equal begin with the same frame, of the same extension type (channel bit aside), message
  type, channel bit and payload.\<close>

theorem frames_unambiguous:
  assumes "assemble e m c payload = Ok bs" and "assemble e' m' c' payload' = Ok bs'"
    and "bs @ rest = bs' @ rest'"
  shows "and e (not channel_msg_mask) = and e' (not channel_msg_mask) \<and> m = m' \<and> c = c' \<and>
    payload = payload' \<and> rest = rest'"
proof -
  let ?w = "wire_ext e c" and ?w' = "wire_ext e' c'"
  from assms have len: "length payload < 2 ^ 24" "length payload' < 2 ^ 24" by (simp_all add: assemble_Ok)
  from assms have eqs: "[le_byte ?w 0, le_byte ?w 1] = [le_byte ?w' 0, le_byte ?w' 1]" "m = m'"
    "read_le [le_byte (of_nat (length payload) :: u32) 0, le_byte (of_nat (length payload) :: u32) 1,
       le_byte (of_nat (length payload) :: u32) 2] =
     read_le [le_byte (of_nat (length payload') :: u32) 0, le_byte (of_nat (length payload') :: u32) 1,
       le_byte (of_nat (length payload') :: u32) 2]"
    "payload @ rest = payload' @ rest'"
    by (simp_all add: assemble_Ok)
  from eqs(3) have "length payload = length payload'" by (simp only: read_le_24 [OF len(1)] read_le_24 [OF len(2)])
  with eqs(4) have p: "payload = payload'" "rest = rest'" by simp_all
  from eqs(1) have "unat ?w = unat ?w'" using read_le_16 [of ?w] read_le_16 [of ?w'] by simp
  then have "?w = ?w'" by (rule unsigned_word_eqI)
  with p eqs(2) wire_ext_split show ?thesis by metis
qed

theorem frames_unambiguous_witness:
  "\<exists>bs. assemble 0x8001 5 False [7, 8] = Ok bs \<and> bs = [1, 0, 5, 2, 0, 0, 7, 8] \<and>
     and (0x8001 :: u16) (not channel_msg_mask) = and 1 (not channel_msg_mask)"
proof -
  have 1: "assemble 0x8001 5 False [7, 8] = Ok [1, 0, 5, 2, 0, 0, 7, 8]"
    and 2: "assemble 1 5 False [7, 8] = Ok [1, 0, 5, 2, 0, 0, 7, 8]"
    by (simp_all add: assemble_Ok wire_ext_def channel_msg_mask_def le_byte_def)
  from frames_unambiguous [OF 1 2, of "[]" "[]"] 1 show ?thesis by simp
qed

end
