(* ===== verification/Events.thy ===== *)
theory Events
  imports Frame
begin

text \<open>
  The dispatcher of \<open>events.rs\<close>: every frame a connection receives is decoded once, classified
  as an event, recorded in order, and may settle the setup that is pending. Methods of
  \<open>ConnectionState\<close> are functions from the state to the event and the new state.
\<close>

section \<open>The state of a connection\<close>

datatype event =
    SetupSuccess u16 u32
  | SetupError u32 string
  | Reconnect string u16
  | Other u8
  | Unknown u16 u8 nat
  | Malformed u8 nat string

record header_issue =
  hi_message_type :: u8
  hi_reason :: string

datatype setup_state =
    Unsent
  | Pending
  | Established u16 u32
  | Rejected u32 string
  | Unexpected u8

record connection_state =
  setup_of :: setup_state
  events :: "event list"
  header_issues :: "header_issue list"

definition default_connection_state :: connection_state where
  "default_connection_state = \<lparr>setup_of = Unsent, events = [], header_issues = []\<rparr>"

section \<open>Dispatching\<close>

definition known_message_type :: "u8 \<Rightarrow> bool" where
  "known_message_type t \<longleftrightarrow>
     t \<le> 0x04 \<or> 0x10 \<le> t \<and> t \<le> 0x25 \<or> 0x50 \<le> t \<and> t \<le> 0x60 \<or> 0x70 \<le> t \<and> t \<le> 0x76"

fun answer_of :: "event \<Rightarrow> u8 \<Rightarrow> setup_state" where
  "answer_of (SetupSuccess v f) t = Established v f"
| "answer_of (SetupError f e) t = Rejected f e"
| "answer_of _ t = Unexpected t"

text \<open>\<open>apply\<close>, which is the name of a proof command.\<close>

definition apply_event :: "event \<Rightarrow> u8 \<Rightarrow> connection_state \<Rightarrow> connection_state" where
  "apply_event e t cs =
     (if setup_of cs \<noteq> Pending then cs else cs\<lparr>setup_of := answer_of e t\<rparr>)"

fun event_of :: "message_body \<Rightarrow> u8 \<Rightarrow> event" where
  "event_of (SetupConnectionSuccess v f) t = SetupSuccess v f"
| "event_of (SetupConnectionError f e) t = SetupError f e"
| "event_of (ReconnectTo h p) t = Reconnect h p"
| "event_of OtherMessage t = Other t"

definition observe :: "any_message \<Rightarrow> u8 \<Rightarrow> connection_state \<Rightarrow> event \<times> connection_state" where
  "observe msg t cs = (let e = event_of (message_body msg) t in (e, apply_event e t cs))"

definition channel_issue :: "bool \<Rightarrow> string" where
  "channel_issue set_in_header =
     (if set_in_header then ''channel bit set on a message that is not a channel message''
      else ''channel bit missing on a channel message'')"

definition dispatch :: "wire_frame \<Rightarrow> connection_state \<Rightarrow> event \<times> connection_state" where
  "dispatch f cs =
     (let t = msg_type f; len = payload_length f; ext = ext_type_without_channel_msg f;
          (e, cs1) =
            (if ext \<noteq> 0 then (Unknown ext t len, cs)
             else case message f of
               Ok msg \<Rightarrow>
                 let cs' = (if channel_bit msg \<noteq> channel_msg f
                            then cs\<lparr>header_issues := header_issues cs @
                                   [\<lparr>hi_message_type = t, hi_reason = channel_issue (channel_msg f)\<rparr>]\<rparr>
                            else cs)
                 in observe msg t cs'
             | Err err \<Rightarrow>
                 if known_message_type t then (Malformed t len (error_display err), cs)
                 else (Unknown ext t len, cs)
             | Panic \<Rightarrow> (Unknown ext t len, cs))
      in (e, cs1\<lparr>events := events cs1 @ [e]\<rparr>))"

section \<open>What a sequence of frames does\<close>

definition dispatch_all :: "wire_frame list \<Rightarrow> connection_state \<Rightarrow> connection_state" where
  "dispatch_all fs cs = fold (\<lambda>f s. snd (dispatch f s)) fs cs"

text \<open>A frame the harness decodes: of extension zero, and its payload parses.\<close>

definition decoded :: "wire_frame \<Rightarrow> any_message option" where
  "decoded f =
     (if ext_type_without_channel_msg f \<noteq> 0 then None
      else case message f of Ok msg \<Rightarrow> Some msg | _ \<Rightarrow> None)"

text \<open>The event a frame gives depends on the frame alone.\<close>

definition frame_event :: "wire_frame \<Rightarrow> event" where
  "frame_event f = fst (dispatch f default_connection_state)"

text \<open>What a decoded frame says of a pending setup.\<close>

definition verdict :: "wire_frame \<Rightarrow> any_message \<Rightarrow> setup_state" where
  "verdict f msg = answer_of (event_of (message_body msg) (msg_type f)) (msg_type f)"

lemma answer_of_settled [simp]: "answer_of e t \<noteq> Pending" "answer_of e t \<noteq> Unsent"
  by (cases "(e, t)" rule: answer_of.cases; simp)+

lemma fst_dispatch: "fst (dispatch f cs) = frame_event f"
  by (auto simp: frame_event_def dispatch_def Let_def observe_def split: outcome.splits)

lemma events_dispatch: "events (snd (dispatch f cs)) = events cs @ [frame_event f]"
  by (auto simp: frame_event_def dispatch_def Let_def observe_def apply_event_def
      split: outcome.splits)

lemma setup_dispatch:
  "setup_of (snd (dispatch f cs)) =
     (if setup_of cs = Pending
      then (case decoded f of None \<Rightarrow> Pending | Some msg \<Rightarrow> verdict f msg)
      else setup_of cs)"
  by (auto simp: dispatch_def decoded_def Let_def observe_def apply_event_def verdict_def
      split: outcome.splits)

lemma dispatch_all_simps [simp]:
  "dispatch_all [] cs = cs"
  "dispatch_all (f # fs) cs = dispatch_all fs (snd (dispatch f cs))"
  by (simp_all add: dispatch_all_def)

lemma events_dispatch_all: "events (dispatch_all fs cs) = events cs @ map frame_event fs"
  by (induction fs arbitrary: cs) (simp_all add: events_dispatch)

lemma setup_dispatch_all_settled:
  "setup_of cs \<noteq> Pending \<Longrightarrow> setup_of (dispatch_all fs cs) = setup_of cs"
  by (induction fs arbitrary: cs) (simp_all add: setup_dispatch)

text \<open>The first decoded frame of a list, and what it says.\<close>

fun first_verdict :: "wire_frame list \<Rightarrow> setup_state" where
  "first_verdict [] = Pending"
| "first_verdict (f # fs) =
     (case decoded f of None \<Rightarrow> first_verdict fs | Some msg \<Rightarrow> verdict f msg)"

lemma verdict_settled [simp]: "verdict f msg \<noteq> Pending" "verdict f msg \<noteq> Unsent"
  by (simp_all add: verdict_def)

lemma setup_dispatch_all:
  "setup_of cs = Pending \<Longrightarrow> setup_of (dispatch_all fs cs) = first_verdict fs"
proof (induction fs arbitrary: cs)
  case (Cons f fs)
  then show ?case
    using setup_dispatch_all_settled [of "snd (dispatch f cs)" fs]
    by (cases "decoded f") (simp_all add: setup_dispatch)
qed simp

lemma first_verdict_Pending: "first_verdict fs = Pending \<longleftrightarrow> (\<forall>f \<in> set fs. decoded f = None)"
  by (induction fs) (auto split: option.splits)

section \<open>Properties\<close>

text \<open>C22: A pending setup is settled by the first frame that decodes, whatever arrives before or
  after it and however many frames do: its success and error messages establish and reject, any
  other decoded message is what the setup got instead. Every frame is recorded as one event, in
  order of arrival, and the event depends on the frame alone.\<close>

theorem first_decoded_frame_answers:
  assumes "setup_of cs = Pending"
  shows "setup_of (dispatch_all fs cs) =
      (case find (\<lambda>f. decoded f \<noteq> None) fs of
         None \<Rightarrow> Pending
       | Some f \<Rightarrow>
           (case message_body (the (decoded f)) of
              SetupConnectionSuccess v fl \<Rightarrow> Established v fl
            | SetupConnectionError fl e \<Rightarrow> Rejected fl e
            | _ \<Rightarrow> Unexpected (msg_type f))) \<and>
    events (dispatch_all fs cs) = events cs @ map frame_event fs"
proof -
  have "first_verdict fs = (case find (\<lambda>f. decoded f \<noteq> None) fs of
         None \<Rightarrow> Pending
       | Some f \<Rightarrow>
           (case message_body (the (decoded f)) of
              SetupConnectionSuccess v fl \<Rightarrow> Established v fl
            | SetupConnectionError fl e \<Rightarrow> Rejected fl e
            | _ \<Rightarrow> Unexpected (msg_type f)))"
    by (induction fs) (auto simp: verdict_def split: option.splits message_body.splits)
  with setup_dispatch_all [OF assms] events_dispatch_all show ?thesis by simp
qed

theorem first_decoded_frame_answers_witness:
  "setup_of (dispatch_all
     [\<lparr>ext_type_without_channel_msg = 1, channel_msg = False, msg_type = 1, payload_length = 0,
       message = Ok \<lparr>message_body = SetupConnectionSuccess 2 0, channel_bit = False\<rparr>\<rparr>,
      \<lparr>ext_type_without_channel_msg = 0, channel_msg = False, msg_type = 1, payload_length = 6,
       message = Ok \<lparr>message_body = SetupConnectionSuccess 2 5, channel_bit = False\<rparr>\<rparr>]
     (default_connection_state\<lparr>setup_of := Pending\<rparr>)) = Established 2 5"
  by (subst first_decoded_frame_answers [THEN conjunct1])
    (simp_all add: default_connection_state_def decoded_def)

text \<open>A frame that does not decode never answers a setup: a connection whose server only
  sends frames of another extension, of an unknown type or with a malformed payload still waits
  after every one of them, although something came back first.\<close>

theorem undecoded_frames_never_answer:
  assumes "setup_of cs = Pending"
  shows "setup_of (dispatch_all fs cs) = Pending \<longleftrightarrow>
    (\<forall>f \<in> set fs. ext_type_without_channel_msg f \<noteq> 0 \<or> \<not> is_ok (message f))"
proof -
  have "decoded f = None \<longleftrightarrow> ext_type_without_channel_msg f \<noteq> 0 \<or> \<not> is_ok (message f)" for f
    by (auto simp: decoded_def is_ok_iff split: outcome.splits)
  then show ?thesis by (simp add: setup_dispatch_all [OF assms] first_verdict_Pending)
qed

theorem undecoded_frames_never_answer_witness:
  "setup_of (dispatch_all
     [\<lparr>ext_type_without_channel_msg = 0, channel_msg = False, msg_type = 1, payload_length = 1,
       message = Err (Parser ''short'')\<rparr>]
     (default_connection_state\<lparr>setup_of := Pending\<rparr>)) = Pending"
  by (subst undecoded_frames_never_answer) (simp_all add: default_connection_state_def)

end
