(* ===== verification/Transport.thy ===== *)
theory Transport
  imports Events Compiler
begin

text \<open>
  What the harness runs programs against: the configuration of a role (\<open>roles/mod.rs\<close>) and the
  traits \<open>Transport\<close> and \<open>Deployment\<close> of \<open>transport.rs\<close>. A deployment is a real server behind a
  socket: a record of functions over a world \<open>'w\<close>, with links of type \<open>'l\<close>. Its clock is
  \<open>Instant::now\<close>, and its \<open>map_order\<close> the order in which a \<open>HashMap\<close> yields its keys.
\<close>

section \<open>Roles\<close>

text \<open>The wire library's \<open>Protocol\<close>.\<close>

datatype wire_protocol = MiningProtocol | JobDeclarationProtocol | TemplateDistributionProtocol

record role_config =
  rc_protocol :: wire_protocol
  rc_min_version :: u16
  rc_max_version :: u16
  rc_supported_flags :: u32

definition new_role_config :: "wire_protocol \<Rightarrow> role_config" where
  "new_role_config p =
     \<lparr>rc_protocol = p, rc_min_version = 2, rc_max_version = 2, rc_supported_flags = 0\<rparr>"

definition with_versions :: "role_config \<Rightarrow> u16 \<Rightarrow> u16 \<Rightarrow> role_config" where
  "with_versions c lo hi = c\<lparr>rc_min_version := lo, rc_max_version := hi\<rparr>"

definition with_supported_flags :: "role_config \<Rightarrow> u32 \<Rightarrow> role_config" where
  "with_supported_flags c fl = c\<lparr>rc_supported_flags := fl\<rparr>"

fun protocol_of :: "protocol \<Rightarrow> wire_protocol" where
  "protocol_of Mining = MiningProtocol"
| "protocol_of JobDeclaration = JobDeclarationProtocol"
| "protocol_of TemplateDistribution = TemplateDistributionProtocol"

lemma protocol_of_inject [simp]: "protocol_of p = protocol_of q \<longleftrightarrow> p = q"
  by (cases p; cases q) simp_all

section \<open>Deployments\<close>

record ('l, 'w) deployment =
  dep_connect :: "nat \<Rightarrow> nat \<Rightarrow> 'w \<Rightarrow> 'l option \<times> 'w"
  dep_role_config :: "nat \<Rightarrow> role_config option"
  dep_num_roles :: nat
  dep_advance_time :: "duration \<Rightarrow> 'w \<Rightarrow> 'w"
  dep_is_alive :: "'w \<Rightarrow> bool"
  link_send :: "'l \<Rightarrow> u16 \<Rightarrow> u8 \<Rightarrow> bool \<Rightarrow> u8 list \<Rightarrow> 'w \<Rightarrow> (harness_error + unit) \<times> 'l \<times> 'w"
  link_recv :: "'l \<Rightarrow> duration \<Rightarrow> 'w \<Rightarrow> (harness_error + wire_frame) \<times> 'l \<times> 'w"
  clock :: "'w \<Rightarrow> nat \<times> 'w"
  map_order :: "nat set \<Rightarrow> 'w \<Rightarrow> nat list \<times> 'w"

text \<open>
  A deployment whose peers stop sending: with nothing asked of it, a link has finitely many
  frames to hand out, and reading the clock or another link adds none to it.
\<close>

definition drains :: "('l, 'w) deployment \<Rightarrow> ('l \<Rightarrow> 'w \<Rightarrow> nat) \<Rightarrow> bool" where
  "drains d backlog \<longleftrightarrow>
     (\<forall>l t w f l' w'. link_recv d l t w = (Inr f, l', w') \<longrightarrow> backlog l' w' < backlog l w) \<and>
     (\<forall>l w. backlog l (snd (clock d w)) \<le> backlog l w)"

end
