(* ===== verification/Runner.thy ===== *)
theory Runner
  imports Transport "HOL-Library.Product_Lexorder"
begin

text \<open>
  The runner of \<open>runner.rs\<close>: it carries out the actions of a compiled program against a
  deployment and records one outcome per action. Its two receiving loops end when the peer
  lets them, so they are partial functions, as is the loop over the actions: \<open>None\<close> is a run
  that does not return. The trace lines it prints are not modelled.
\<close>

section \<open>Data\<close>

definition response_timeout :: duration where
  "response_timeout = 10 * nanos_per_sec"

definition unowed_response_wait :: duration where
  "unowed_response_wait = 100 * nanos_per_milli"

datatype setup_response =
    RSuccess u16 u32
  | RError u32 string
  | RUnexpected u8
  | RSilence

record session =
  se_connection :: nat
  se_protocol :: protocol
  se_first_on_connection :: bool
  se_response :: setup_response

datatype prerequisite = ConnectionOpen nat | SetupSuccessOf nat

datatype response =
    NoResponse
  | SetupAnswer setup_response
  | Probed "(nat \<times> u8) list"

datatype action_outcome =
    Completed response
  | TimedOut
  | TransportClosed
  | TransportError string
  | Skipped prerequisite
  | HarnessError string

record execution =
  outcomes :: "action_outcome list"
  ex_sessions :: "nat \<rightharpoonup> session"
  connection_roles :: "nat \<rightharpoonup> nat"
  unsolicited :: "(nat \<times> u8) list"
  ex_connections :: "nat \<rightharpoonup> connection_state"

definition default_execution :: execution where
  "default_execution =
     \<lparr>outcomes = [], ex_sessions = Map.empty, connection_roles = Map.empty, unsolicited = [],
      ex_connections = Map.empty\<rparr>"

definition outcome_of :: "execution \<Rightarrow> nat \<Rightarrow> action_outcome option" where
  "outcome_of ex k = get (outcomes ex) k"

definition is_total :: "execution \<Rightarrow> compiled_program \<Rightarrow> bool" where
  "is_total ex p \<longleftrightarrow> length (outcomes ex) = length (comp_actions p)"

record 'l runner =
  links :: "nat \<rightharpoonup> 'l"
  states :: "nat \<rightharpoonup> connection_state"
  execution :: execution

section \<open>Errors and prerequisites\<close>

definition is_closed_kind :: "io_kind \<Rightarrow> bool" where
  "is_closed_kind k \<longleftrightarrow>
     k \<in> {UnexpectedEof, ConnectionReset, ConnectionAborted, BrokenPipe, NotConnected}"

definition transport_failure :: "harness_error \<Rightarrow> action_outcome" where
  "transport_failure e =
     (case e of
        Timeout \<Rightarrow> TimedOut
      | IoError k text \<Rightarrow>
          if is_closed_kind k then TransportClosed else TransportError (error_display e)
      | _ \<Rightarrow> TransportError (error_display e))"

fun is_success :: "setup_response \<Rightarrow> bool" where
  "is_success (RSuccess _ _) = True"
| "is_success _ = False"

definition established :: "'l runner \<Rightarrow> nat \<Rightarrow> bool" where
  "established rn s =
     (case ex_sessions (execution rn) s of
        None \<Rightarrow> False
      | Some se \<Rightarrow> is_success (se_response se))"

fun unmet_prerequisite :: "'l runner \<Rightarrow> action \<Rightarrow> (prerequisite \<times> nat) option" where
  "unmet_prerequisite rn (AEnterOnSetupSuccess s e) =
     (if \<not> established rn s then Some (SetupSuccessOf s, e) else None)"
| "unmet_prerequisite rn _ = None"

section \<open>Receiving\<close>

text \<open>The loop of \<open>pump\<close>, with the link and the state it borrows.\<close>

partial_function (option) pump_loop ::
  "('l, 'w) deployment \<Rightarrow> nat \<Rightarrow> (connection_state \<Rightarrow> bool) \<Rightarrow> 'l \<Rightarrow> connection_state \<Rightarrow> 'w \<Rightarrow>
   ((action_outcome + unit) \<times> 'l \<times> connection_state \<times> 'w) option" where
  "pump_loop d deadline finished l cs w =
     (if finished cs then Some (Inr (), l, cs, w)
      else
        let (now, w1) = clock d w; remaining = deadline - now in
        if remaining = 0 then Some (Inl TimedOut, l, cs, w1)
        else case link_recv d l remaining w1 of
          (Inr f, l', w2) \<Rightarrow> pump_loop d deadline finished l' (snd (dispatch f cs)) w2
        | (Inl e, l', w2) \<Rightarrow>
            Some (if e = Timeout then (if finished cs then Inr () else Inl TimedOut)
                  else Inl (transport_failure e), l', cs, w2))"

definition pump ::
  "('l, 'w) deployment \<Rightarrow> nat \<Rightarrow> duration \<Rightarrow> (connection_state \<Rightarrow> bool) \<Rightarrow> 'l runner \<Rightarrow> 'w \<Rightarrow>
   ((action_outcome + unit) \<times> 'l runner \<times> 'w) option" where
  "pump d conn timeout finished rn w =
     (case (links rn conn, states rn conn) of
        (Some l, Some cs) \<Rightarrow>
          (let (now, w1) = clock d w in
           case pump_loop d (now + timeout) finished l cs w1 of
             None \<Rightarrow> None
           | Some (r, l', cs', w2) \<Rightarrow>
               Some (r, rn\<lparr>links := (links rn)(conn \<mapsto> l'), states := (states rn)(conn \<mapsto> cs')\<rparr>, w2))
      | _ \<Rightarrow> Some (Inl (Skipped (ConnectionOpen conn)), rn, w))"

text \<open>The inner loop of a probe, which polls until the link has nothing.\<close>

partial_function (option) probe_link ::
  "('l, 'w) deployment \<Rightarrow> nat \<Rightarrow> 'l \<Rightarrow> connection_state \<Rightarrow> (nat \<times> u8) list \<Rightarrow> 'w \<Rightarrow>
   ('l \<times> connection_state \<times> (nat \<times> u8) list \<times> 'w) option" where
  "probe_link d conn l cs probed w =
     (case link_recv d l 0 w of
        (Inr f, l', w') \<Rightarrow>
          probe_link d conn l' (snd (dispatch f cs)) (probed @ [(conn, msg_type f)]) w'
      | (Inl e, l', w') \<Rightarrow> Some (l', cs, probed, w'))"

fun probe_all ::
  "('l, 'w) deployment \<Rightarrow> nat list \<Rightarrow> (nat \<times> u8) list \<Rightarrow> 'l runner \<Rightarrow> 'w \<Rightarrow>
   ((nat \<times> u8) list \<times> 'l runner \<times> 'w) option" where
  "probe_all d [] probed rn w = Some (probed, rn, w)"
| "probe_all d (conn # ids) probed rn w =
     (case (links rn conn, states rn conn) of
        (Some l, Some cs) \<Rightarrow>
          (case probe_link d conn l cs probed w of
             None \<Rightarrow> None
           | Some (l', cs', probed', w') \<Rightarrow>
               probe_all d ids probed'
                 (rn\<lparr>links := (links rn)(conn \<mapsto> l'), states := (states rn)(conn \<mapsto> cs')\<rparr>) w')
      | _ \<Rightarrow> probe_all d ids probed rn w)"

section \<open>One action\<close>

definition open_failure :: "nat \<Rightarrow> nat \<Rightarrow> string" where
  "open_failure conn role =
     ''could not open connection '' @ decimal conn @ '' to role '' @ decimal role"

definition perform_connect ::
  "('l, 'w) deployment \<Rightarrow> nat \<Rightarrow> nat \<Rightarrow> 'l runner \<Rightarrow> 'w \<Rightarrow> action_outcome \<times> 'l runner \<times> 'w" where
  "perform_connect d conn role rn w =
     (case dep_connect d conn role w of
        (None, w') \<Rightarrow> (TransportError (open_failure conn role), rn, w')
      | (Some l, w') \<Rightarrow>
          (Completed NoResponse,
           rn\<lparr>links := (links rn)(conn \<mapsto> l),
              states := (states rn)(conn \<mapsto> default_connection_state),
              execution := (execution rn)
                \<lparr>connection_roles := (connection_roles (execution rn))(conn \<mapsto> role)\<rparr>\<rparr>, w'))"

definition perform_send ::
  "('l, 'w) deployment \<Rightarrow> nat \<Rightarrow> u16 \<Rightarrow> u8 \<Rightarrow> bool \<Rightarrow> u8 list \<Rightarrow> 'l runner \<Rightarrow> 'w \<Rightarrow>
   action_outcome \<times> 'l runner \<times> 'w" where
  "perform_send d conn ext t chan payload rn w =
     (case links rn conn of
        None \<Rightarrow> (Skipped (ConnectionOpen conn), rn, w)
      | Some l \<Rightarrow>
          (case link_send d l ext t chan payload w of
             (r, l', w') \<Rightarrow>
               ((case r of Inr _ \<Rightarrow> Completed NoResponse | Inl e \<Rightarrow> transport_failure e),
                rn\<lparr>links := (links rn)(conn \<mapsto> l')\<rparr>, w')))"

fun response_of :: "setup_state \<Rightarrow> setup_response" where
  "response_of (Established v f) = RSuccess v f"
| "response_of (Rejected f e) = RError f e"
| "response_of (Unexpected t) = RUnexpected t"
| "response_of Unsent = RSilence"
| "response_of Pending = RSilence"

definition await_outcome :: "(action_outcome + unit) \<Rightarrow> connection_state option \<Rightarrow> action_outcome" where
  "await_outcome r cs =
     (case r of
        Inl failure \<Rightarrow> failure
      | Inr _ \<Rightarrow> Completed (SetupAnswer (case cs of Some s \<Rightarrow> response_of (setup_of s)
                                                    | None \<Rightarrow> RSilence)))"

definition recorded_response :: "action_outcome \<Rightarrow> setup_response" where
  "recorded_response out = (case out of Completed (SetupAnswer r) \<Rightarrow> r | _ \<Rightarrow> RSilence)"

definition perform_await ::
  "('l, 'w) deployment \<Rightarrow> nat \<Rightarrow> nat \<Rightarrow> protocol \<Rightarrow> bool \<Rightarrow> 'l runner \<Rightarrow> 'w \<Rightarrow>
   (action_outcome \<times> 'l runner \<times> 'w) option" where
  "perform_await d conn s p first_on rn w =
     (case states rn conn of
        None \<Rightarrow> Some (Skipped (ConnectionOpen conn), rn, w)
      | Some cs \<Rightarrow>
          (let wait = (if first_on then response_timeout else unowed_response_wait);
               rn1 = rn\<lparr>states := (states rn)(conn \<mapsto> cs\<lparr>setup_of := Pending\<rparr>)\<rparr>
           in case pump d conn wait (\<lambda>cs. setup_of cs \<noteq> Pending) rn1 w of
                None \<Rightarrow> None
              | Some (r, rn2, w2) \<Rightarrow>
                  (let out = await_outcome r (states rn2 conn);
                       se = \<lparr>se_connection = conn, se_protocol = p,
                             se_first_on_connection = first_on, se_response = recorded_response out\<rparr>
                   in Some (out, rn2\<lparr>execution := (execution rn2)
                        \<lparr>ex_sessions := (ex_sessions (execution rn2))(s \<mapsto> se)\<rparr>\<rparr>, w2))))"

definition perform_probe ::
  "('l, 'w) deployment \<Rightarrow> 'l runner \<Rightarrow> 'w \<Rightarrow> (action_outcome \<times> 'l runner \<times> 'w) option" where
  "perform_probe d rn w =
     (let (ids, w1) = map_order d (dom (links rn)) w in
      case probe_all d ids [] rn w1 of
        None \<Rightarrow> None
      | Some (probed, rn1, w2) \<Rightarrow>
          (let probed' = sort probed in
           Some (Completed (Probed probed'),
             rn1\<lparr>execution := (execution rn1)
               \<lparr>unsolicited := unsolicited (execution rn1) @ probed'\<rparr>\<rparr>, w2)))"

fun perform ::
  "('l, 'w) deployment \<Rightarrow> action \<Rightarrow> 'l runner \<Rightarrow> 'w \<Rightarrow> (action_outcome \<times> 'l runner \<times> 'w) option"
  where
  "perform d (AEnterOnSetupSuccess s e) rn w = Some (Completed NoResponse, rn, w)"
| "perform d AExitBlock rn w = Some (Completed NoResponse, rn, w)"
| "perform d (AConnect conn role) rn w = Some (perform_connect d conn role rn w)"
| "perform d (ASend conn ext t chan payload) rn w =
     Some (perform_send d conn ext t chan payload rn w)"
| "perform d (AAwaitSetupResponse conn s p first_on) rn w =
     perform_await d conn s p first_on rn w"
| "perform d (AAdvanceTime t) rn w =
     Some (Completed NoResponse, rn, dep_advance_time d t w)"
| "perform d AProbe rn w = perform_probe d rn w"

section \<open>A whole run\<close>

definition record_outcomes :: "action_outcome list \<Rightarrow> 'l runner \<Rightarrow> 'l runner" where
  "record_outcomes outs rn =
     rn\<lparr>execution := (execution rn)\<lparr>outcomes := outcomes (execution rn) @ outs\<rparr>\<rparr>"

text \<open>One turn of the loop over the actions, from action \<open>k\<close>.\<close>

definition run_turn ::
  "('l, 'w) deployment \<Rightarrow> action list \<Rightarrow> nat \<Rightarrow> 'l runner \<Rightarrow> 'w \<Rightarrow> (nat \<times> 'l runner \<times> 'w) option"
  where
  "run_turn d acts k rn w =
     (case unmet_prerequisite rn (acts ! k) of
        Some (unmet, e) \<Rightarrow>
          (let last_skipped = min e (length acts - 1) in
           Some (last_skipped + 1,
             record_outcomes (replicate (Suc last_skipped - k) (Skipped unmet)) rn, w))
      | None \<Rightarrow>
          (case perform d (acts ! k) rn w of
             None \<Rightarrow> None
           | Some (out, rn', w') \<Rightarrow> Some (k + 1, record_outcomes [out] rn', w')))"

partial_function (option) run_loop ::
  "('l, 'w) deployment \<Rightarrow> action list \<Rightarrow> nat \<Rightarrow> 'l runner \<Rightarrow> 'w \<Rightarrow> ('l runner \<times> 'w) option" where
  "run_loop d acts k rn w =
     (if k < length acts then
        (case run_turn d acts k rn w of
           None \<Rightarrow> None
         | Some (k', rn', w') \<Rightarrow> run_loop d acts k' rn' w')
      else Some (rn, w))"

definition new_runner :: "'l runner" where
  "new_runner = \<lparr>links = Map.empty, states = Map.empty, execution = default_execution\<rparr>"

text \<open>The debug assertion is the \<open>Panic\<close>.\<close>

definition run ::
  "('l, 'w) deployment \<Rightarrow> compiled_program \<Rightarrow> 'w \<Rightarrow> ((unit, execution) outcome \<times> 'w) option" where
  "run d p w =
     (case run_loop d (comp_actions p) 0 new_runner w of
        None \<Rightarrow> None
      | Some (rn, w') \<Rightarrow>
          (let ex = execution rn in
           Some (if is_total ex p then Ok (ex\<lparr>ex_connections := states rn\<rparr>) else Panic, w')))"

end
