(* ===== verification/Runner_Facts.thy ===== *)
theory Runner_Facts
  imports Runner Compiler_Sessions
begin

text \<open>
  The runner as a state machine: what receiving and each action leave behind, the turns of the
  loop over the actions as a step relation, and its invariants by rule induction.
\<close>

section \<open>Receiving\<close>

definition transport_outcome :: "action_outcome \<Rightarrow> bool" where
  "transport_outcome out \<longleftrightarrow> out = TimedOut \<or> out = TransportClosed \<or> (\<exists>t. out = TransportError t)"

lemma transport_failure_outcome [simp]: "transport_outcome (transport_failure e)"
  by (cases e) (auto simp: transport_outcome_def transport_failure_def)

text \<open>What pumping does: some frames are dispatched, and it ends with the state as wanted, or with
  a timeout or a failure of the transport.\<close>

definition pumped ::
  "(connection_state \<Rightarrow> bool) \<Rightarrow> connection_state \<Rightarrow> (action_outcome + unit) \<Rightarrow> connection_state \<Rightarrow> bool"
  where
  "pumped finished cs r cs' \<longleftrightarrow>
     (\<exists>fs. cs' = dispatch_all fs cs) \<and>
     (case r of Inr _ \<Rightarrow> finished cs' | Inl out \<Rightarrow> transport_outcome out \<and> \<not> finished cs')"

lemma pumped_more: "pumped finished (snd (dispatch f cs)) r cs' \<Longrightarrow> pumped finished cs r cs'"
  unfolding pumped_def by (metis dispatch_all_simps(2))

lemma pumped_now:
  "finished cs \<Longrightarrow> pumped finished cs (Inr ()) cs"
  "\<not> finished cs \<Longrightarrow> transport_outcome out \<Longrightarrow> pumped finished cs (Inl out) cs"
  unfolding pumped_def by (auto intro: exI [of _ "[]"])

lemma pump_loop_result:
  fixes d :: "('l, 'w) deployment"
  assumes "pump_loop d deadline finished l cs w = Some (r, l', cs', w')"
  shows "pumped finished cs r cs'"
proof -
  let ?P = "\<lambda>(d :: ('l, 'w) deployment) (dl :: nat) fin (l :: 'l) cs (w :: 'w) y.
      pumped fin cs (fst y) (fst (snd (snd y)))"
  have "?P d deadline finished l cs w (r, l', cs', w')"
  proof (rule pump_loop.raw_induct [where P = ?P, OF _ assms])
    fix again :: "('l, 'w) deployment \<Rightarrow> nat \<Rightarrow> (connection_state \<Rightarrow> bool) \<Rightarrow> 'l \<Rightarrow> connection_state \<Rightarrow>
        'w \<Rightarrow> ((action_outcome + unit) \<times> 'l \<times> connection_state \<times> 'w) option"
      and d dl fin l cs w y
    assume hyp: "\<And>d dl fin l cs w y. again d dl fin l cs w = Some y \<Longrightarrow> ?P d dl fin l cs w y"
      and eq: "(if fin cs then Some (Inr (), l, cs, w)
        else let (now, w1) = clock d w; remaining = dl - now in
          if remaining = 0 then Some (Inl TimedOut, l, cs, w1)
          else case link_recv d l remaining w1 of
            (Inr f, l', w2) \<Rightarrow> again d dl fin l' (snd (dispatch f cs)) w2
          | (Inl e, l', w2) \<Rightarrow>
              Some (if e = Timeout then (if fin cs then Inr () else Inl TimedOut)
                    else Inl (transport_failure e), l', cs, w2)) = Some y"
    show "pumped fin cs (fst y) (fst (snd (snd y)))"
    proof (cases "fin cs")
      case True
      with eq show ?thesis by (auto simp: pumped_now)
    next
      case False
      obtain now w1 where now: "clock d w = (now, w1)" by fastforce
      obtain m l' w2 where m: "link_recv d l (dl - now) w1 = (m, l', w2)" by (metis prod_cases3)
      have t: "transport_outcome TimedOut" by (simp add: transport_outcome_def)
      show ?thesis
      proof (cases "dl - now = 0")
        case True
        with False eq now t show ?thesis by (auto simp: pumped_now)
      next
        case late: False
        show ?thesis
        proof (cases m)
          case (Inl e)
          with False late eq now m t show ?thesis by (auto simp: pumped_now)
        next
          case (Inr f)
          with False late eq now m have "again d dl fin l' (snd (dispatch f cs)) w2 = Some y" by simp
          from pumped_more [OF hyp [OF this]] show ?thesis .
        qed
      qed
    qed
  qed
  then show ?thesis by simp
qed

text \<open>A pump keeps the record of the run and the connections there are.\<close>

lemma pump_result:
  assumes "pump d conn timeout finished rn w = Some (r, rn', w')" and "dom (links rn) = dom (states rn)"
  obtains "states rn conn = None" "r = Inl (Skipped (ConnectionOpen conn))" "rn' = rn"
  | cs cs' where "states rn conn = Some cs" "pumped finished cs r cs'"
      "states rn' = (states rn)(conn \<mapsto> cs')" "dom (links rn') = dom (links rn)"
      "execution rn' = execution rn"
proof (cases "states rn conn")
  case None
  with assms that show ?thesis by (auto simp: pump_def split: option.splits)
next
  case (Some cs)
  with assms(2) obtain l where l: "links rn conn = Some l" by blast
  obtain now w1 where "clock d w = (now, w1)" by fastforce
  with assms(1) Some l obtain l' cs' w2 where
    *: "pump_loop d (now + timeout) finished l cs w1 = Some (r, l', cs', w2)"
    "rn' = rn\<lparr>links := (links rn)(conn \<mapsto> l'), states := (states rn)(conn \<mapsto> cs')\<rparr>"
    by (auto simp: pump_def split: option.splits)
  show ?thesis
    by (rule that(2) [OF Some pump_loop_result [OF *(1)]]) (use *(2) l in auto)
qed

text \<open>The same of a probe, which dispatches what it polls.\<close>

lemma probe_all_result:
  "probe_all d ids probed rn w = Some (probed', rn', w') \<Longrightarrow>
   (\<forall>c. links rn' c = None \<longleftrightarrow> links rn c = None) \<and>
   (\<forall>c. states rn' c = None \<longleftrightarrow> states rn c = None) \<and> execution rn' = execution rn"
proof (induction ids arbitrary: probed rn w)
  case (Cons conn ids)
  show ?case
  proof (cases "links rn conn = None \<or> states rn conn = None")
    case True
    with Cons.prems have "probe_all d ids probed rn w = Some (probed', rn', w')"
      by (auto split: option.splits)
    with Cons.IH show ?thesis .
  next
    case False
    then obtain l cs where l: "links rn conn = Some l" "states rn conn = Some cs" by auto
    with Cons.prems obtain l' cs' probed1 w1 where "probe_all d ids probed1
          (rn\<lparr>links := (links rn)(conn \<mapsto> l'), states := (states rn)(conn \<mapsto> cs')\<rparr>) w1 =
         Some (probed', rn', w')"
      by (auto split: option.splits)
    from Cons.IH [OF this] l show ?thesis by simp
  qed
qed simp

section \<open>One action\<close>

text \<open>The links and the states of a runner are of the same connections.\<close>

definition runner_ok :: "'l runner \<Rightarrow> bool" where
  "runner_ok rn \<longleftrightarrow> dom (links rn) = dom (states rn) \<and> dom (connection_roles (execution rn)) = dom (states rn)"

text \<open>What an action may leave: no outcome yet, and only an await touches its own session.\<close>

definition session_after ::
  "action \<Rightarrow> action_outcome \<Rightarrow> (nat \<rightharpoonup> session) \<Rightarrow> (nat \<rightharpoonup> session) \<Rightarrow> bool" where
  "session_after a out ss ss' \<longleftrightarrow>
     (case a of
        AAwaitSetupResponse conn s p first_on \<Rightarrow>
          (if out = Skipped (ConnectionOpen conn) then ss' = ss
           else ss' = ss(s \<mapsto> \<lparr>se_connection = conn, se_protocol = p,
                 se_first_on_connection = first_on, se_response = recorded_response out\<rparr>))
      | _ \<Rightarrow> ss' = ss)"

text \<open>The outcomes an action may have.\<close>

definition outcome_fits :: "action \<Rightarrow> action_outcome \<Rightarrow> bool" where
  "outcome_fits a out \<longleftrightarrow>
     (case a of
        AConnect conn role \<Rightarrow>
          out = Completed NoResponse \<or> out = TransportError (open_failure conn role)
      | ASend conn _ _ _ _ \<Rightarrow>
          out = Completed NoResponse \<or> out = Skipped (ConnectionOpen conn) \<or> transport_outcome out
      | AAwaitSetupResponse conn _ _ _ \<Rightarrow>
          (\<exists>r. r \<noteq> RSilence \<and> out = Completed (SetupAnswer r)) \<or>
          out = Skipped (ConnectionOpen conn) \<or> transport_outcome out
      | AProbe \<Rightarrow> (\<exists>fs. sorted fs \<and> out = Completed (Probed fs))
      | _ \<Rightarrow> out = Completed NoResponse)"

definition roles_after :: "action \<Rightarrow> (nat \<rightharpoonup> nat) \<Rightarrow> (nat \<rightharpoonup> nat) \<Rightarrow> bool" where
  "roles_after a rs rs' \<longleftrightarrow> rs' = rs \<or> (\<exists>conn role. a = AConnect conn role \<and> rs' = rs(conn \<mapsto> role))"

definition performed :: "action \<Rightarrow> action_outcome \<Rightarrow> 'l runner \<Rightarrow> 'l runner \<Rightarrow> bool" where
  "performed a out rn rn' \<longleftrightarrow>
     outcomes (execution rn') = outcomes (execution rn) \<and> runner_ok rn' \<and> outcome_fits a out \<and>
     session_after a out (ex_sessions (execution rn)) (ex_sessions (execution rn')) \<and>
     roles_after a (connection_roles (execution rn)) (connection_roles (execution rn'))"

lemma response_of_silence: "response_of st = RSilence \<longleftrightarrow> st = Unsent \<or> st = Pending"
  by (cases st) auto

lemma runner_ok_add:
  "runner_ok rn \<Longrightarrow>
   runner_ok (rn\<lparr>links := (links rn)(c \<mapsto> l), states := (states rn)(c \<mapsto> st), execution := (execution rn)
     \<lparr>connection_roles := (connection_roles (execution rn))(c \<mapsto> r)\<rparr>\<rparr>)"
  by (simp add: runner_ok_def)

lemma runner_ok_link:
  "runner_ok rn \<Longrightarrow> links rn c \<noteq> None \<Longrightarrow> runner_ok (rn\<lparr>links := (links rn)(c \<mapsto> l)\<rparr>)"
  unfolding runner_ok_def by (auto simp: insert_absorb dom_def)

lemma perform_await_result:
  assumes "perform_await d conn s p first_on rn w = Some (out, rn', w')" and "runner_ok rn"
  shows "performed (AAwaitSetupResponse conn s p first_on) out rn rn'"
proof (cases "states rn conn")
  case None
  with assms show ?thesis
    by (auto simp: perform_await_def performed_def outcome_fits_def session_after_def roles_after_def)
next
  case (Some cs)
  let ?cs = "cs\<lparr>setup_of := Pending\<rparr>" and ?fin = "\<lambda>cs. setup_of cs \<noteq> Pending"
  let ?rn1 = "rn\<lparr>states := (states rn)(conn \<mapsto> ?cs)\<rparr>"
  from assms(1) Some obtain r rn2 where
    p: "pump d conn (if first_on then response_timeout else unowed_response_wait) ?fin ?rn1 w =
        Some (r, rn2, w')"
    and out: "out = await_outcome r (states rn2 conn)"
    and rn': "rn' = rn2\<lparr>execution := (execution rn2)\<lparr>ex_sessions := (ex_sessions (execution rn2))
        (s \<mapsto> \<lparr>se_connection = conn, se_protocol = p, se_first_on_connection = first_on,
              se_response = recorded_response out\<rparr>)\<rparr>\<rparr>"
    by (auto simp: perform_await_def Let_def split: option.splits)
  have dom: "dom (links ?rn1) = dom (states ?rn1)"
    using assms(2) Some by (auto simp: runner_ok_def insert_absorb domI)
  show ?thesis
  proof (rule pump_result [OF p dom])
    assume "states ?rn1 conn = None"
    then show ?thesis by simp
  next
    fix cs1 cs'
    assume st: "states ?rn1 conn = Some cs1" and pumped: "pumped ?fin cs1 r cs'"
      and rn2: "states rn2 = (states ?rn1)(conn \<mapsto> cs')" "dom (links rn2) = dom (links ?rn1)"
        "execution rn2 = execution ?rn1"
    from st have cs1: "cs1 = ?cs" by simp
    from pumped obtain fs where fs: "cs' = dispatch_all fs ?cs" by (auto simp: pumped_def cs1)
    have "setup_of cs' = first_verdict fs" using fs setup_dispatch_all [of ?cs fs] by simp
    moreover have "first_verdict fs \<noteq> Unsent" by (induction fs) (auto split: option.splits)
    ultimately have "?fin cs' \<Longrightarrow> response_of (setup_of cs') \<noteq> RSilence"
      by (simp add: response_of_silence)
    with pumped have fits: "outcome_fits (AAwaitSetupResponse conn s p first_on) out"
      "out \<noteq> Skipped (ConnectionOpen conn)"
      by (auto simp: outcome_fits_def pumped_def out rn2 await_outcome_def transport_outcome_def
          split: sum.splits)
    have "runner_ok rn'"
      using assms(2) dom rn2 Some by (auto simp: runner_ok_def rn' insert_absorb domI)
    with fits rn2 show ?thesis
      by (auto simp: performed_def session_after_def roles_after_def rn')
  qed
qed

lemma perform_result:
  assumes "perform d a rn w = Some (out, rn', w')" and "runner_ok rn"
  shows "performed a out rn rn'"
proof (cases a)
  case (AConnect conn role)
  with assms show ?thesis
    by (auto simp: perform_connect_def performed_def outcome_fits_def session_after_def
        roles_after_def intro: runner_ok_add split: option.splits prod.splits)
next
  case (ASend conn ext t chan payload)
  with assms show ?thesis
    by (auto simp: perform_send_def performed_def outcome_fits_def session_after_def
        roles_after_def intro: runner_ok_link split: option.splits prod.splits sum.splits)
next
  case (AAwaitSetupResponse conn s p f)
  with assms perform_await_result show ?thesis by simp
next
  case AProbe
  with assms(1) obtain ids w1 probed rn1 where
    p: "probe_all d ids [] rn w1 = Some (probed, rn1, w')"
    "out = Completed (Probed (sort probed))"
    "rn' = rn1\<lparr>execution := (execution rn1)
       \<lparr>unsolicited := unsolicited (execution rn1) @ sort probed\<rparr>\<rparr>"
    by (auto simp: perform_probe_def Let_def split: option.splits prod.splits)
  from probe_all_result [OF p(1)]
  have "dom (links rn1) = dom (links rn)" "dom (states rn1) = dom (states rn)"
    "execution rn1 = execution rn" unfolding dom_def by simp_all
  with assms(2) show ?thesis
    by (auto simp: AProbe p(2, 3) performed_def outcome_fits_def session_after_def roles_after_def
        runner_ok_def)
qed (use assms in \<open>auto simp: performed_def outcome_fits_def session_after_def roles_after_def\<close>)

section \<open>The turns of the loop\<close>

inductive turns ::
  "('l, 'w) deployment \<Rightarrow> action list \<Rightarrow> nat \<times> 'l runner \<times> 'w \<Rightarrow> nat \<times> 'l runner \<times> 'w \<Rightarrow> bool"
  for d acts where
  turns_none: "turns d acts c c"
| turns_more: "k < length acts \<Longrightarrow> run_turn d acts k rn w = Some c \<Longrightarrow> turns d acts c c' \<Longrightarrow>
     turns d acts (k, rn, w) c'"

lemma run_loop_turns:
  fixes d :: "('l, 'w) deployment"
  assumes "run_loop d acts k rn w = Some (rn', w')"
  shows "\<exists>k'. length acts \<le> k' \<and> turns d acts (k, rn, w) (k', rn', w')"
proof -
  let ?P = "\<lambda>(d :: ('l, 'w) deployment) acts k rn w y.
      \<exists>k'. length acts \<le> k' \<and> turns d acts (k, rn, w) (k', y)"
  have "?P d acts k rn w (rn', w')"
  proof (rule run_loop.raw_induct [where P = ?P, OF _ assms])
    fix again :: "('l, 'w) deployment \<Rightarrow> action list \<Rightarrow> nat \<Rightarrow> 'l runner \<Rightarrow> 'w \<Rightarrow> ('l runner \<times> 'w) option"
      and d acts k rn w y
    assume hyp: "\<And>d acts k rn w y. again d acts k rn w = Some y \<Longrightarrow> ?P d acts k rn w y"
      and eq: "(if k < length acts then
          (case run_turn d acts k rn w of None \<Rightarrow> None
           | Some (k', rn', w') \<Rightarrow> again d acts k' rn' w') else Some (rn, w)) = Some y"
    show "\<exists>k'. length acts \<le> k' \<and> turns d acts (k, rn, w) (k', y)"
    proof (cases "k < length acts")
      case True
      with eq obtain k1 rn1 w1 where t: "run_turn d acts k rn w = Some (k1, rn1, w1)"
        "again d acts k1 rn1 w1 = Some y" by (auto split: option.splits)
      from hyp [OF t(2)] turns_more [OF True t(1)] show ?thesis by blast
    next
      case False
      with eq have "y = (rn, w)" by simp
      with False show ?thesis by (intro exI [of _ k]) (simp add: turns_none)
    qed
  qed
  then show ?thesis .
qed

lemma turns_invariant:
  assumes "turns d acts c c'" and "I c"
    and "\<And>k rn w c. k < length acts \<Longrightarrow> I (k, rn, w) \<Longrightarrow> run_turn d acts k rn w = Some c \<Longrightarrow> I c"
  shows "I c'"
  using assms by (induction rule: turns.induct) blast+

lemma run_turn_cases:
  assumes "run_turn d acts k rn w = Some (k', rn', w')" and "k < length acts" and "runner_ok rn"
    and "blocks_ok acts"
  obtains (skip) s x where "acts ! k = AEnterOnSetupSuccess s x" "\<not> established rn s" "k < x"
      "x < length acts" "k' = Suc x"
      "rn' = record_outcomes (replicate (Suc x - k) (Skipped (SetupSuccessOf s))) rn"
  | (act) out rn1 where "\<forall>s x. acts ! k = AEnterOnSetupSuccess s x \<longrightarrow> established rn s"
      "performed (acts ! k) out rn rn1" "k' = Suc k" "rn' = record_outcomes [out] rn1"
proof (cases "unmet_prerequisite rn (acts ! k)")
  case None
  then have "\<forall>s x. acts ! k = AEnterOnSetupSuccess s x \<longrightarrow> established rn s"
    by (auto split: if_splits)
  moreover from None assms(1) obtain out rn1 where
    "perform d (acts ! k) rn w = Some (out, rn1, w')" "k' = Suc k" "rn' = record_outcomes [out] rn1"
    by (auto simp: run_turn_def split: option.splits)
  ultimately show ?thesis using that(2) perform_result [OF _ assms(3)] by metis
next
  case (Some u)
  then obtain s x where s: "acts ! k = AEnterOnSetupSuccess s x" "\<not> established rn s"
    "u = (SetupSuccessOf s, x)"
    by (cases "(rn, acts ! k)" rule: unmet_prerequisite.cases) (auto split: if_splits)
  have x: "k < x" "x < length acts" using assms(2, 4) s(1) unfolding blocks_ok_def by blast+
  then have "min x (length acts - 1) = x" by simp
  with assms(1) Some s(3)
  have "k' = Suc x" "rn' = record_outcomes (replicate (Suc x - k) (Skipped (SetupSuccessOf s))) rn"
    by (auto simp: run_turn_def Let_def)
  with that(1) [OF s(1, 2) x] show ?thesis by blast
qed

lemma record_outcomes_simps [simp]:
  "outcomes (execution (record_outcomes outs rn)) = outcomes (execution rn) @ outs"
  "ex_sessions (execution (record_outcomes outs rn)) = ex_sessions (execution rn)"
  "connection_roles (execution (record_outcomes outs rn)) = connection_roles (execution rn)"
  "runner_ok (record_outcomes outs rn) = runner_ok rn"
  "states (record_outcomes outs rn) = states rn"
  by (simp_all add: record_outcomes_def runner_ok_def)

section \<open>The invariants of a run\<close>

text \<open>One outcome per action so far, of a kind its action has, or of a skipped block.\<close>

definition logged :: "action list \<Rightarrow> nat \<Rightarrow> 'l runner \<Rightarrow> bool" where
  "logged acts k rn \<longleftrightarrow>
     runner_ok rn \<and> k \<le> length acts \<and> length (outcomes (execution rn)) = k \<and>
     (\<forall>j < k. outcome_fits (acts ! j) (outcomes (execution rn) ! j) \<or>
        (\<exists>s. outcomes (execution rn) ! j = Skipped (SetupSuccessOf s))) \<and>
     (\<forall>conn role. connection_roles (execution rn) conn = Some role \<longrightarrow> AConnect conn role \<in> set acts)"

lemma outcome_fits_not_harness: "outcome_fits a (HarnessError e) \<Longrightarrow> False"
  by (cases a) (auto simp: outcome_fits_def transport_outcome_def)

text \<open>What is recorded of a session, when each is awaited once.\<close>

definition session_logged :: "action list \<Rightarrow> nat \<Rightarrow> 'l runner \<Rightarrow> bool" where
  "session_logged acts k rn \<longleftrightarrow>
     (\<forall>s. (\<forall>j < k. \<not> awaits s (acts ! j)) \<longrightarrow> ex_sessions (execution rn) s = None) \<and>
     (\<forall>j conn s p f. j < k \<longrightarrow> acts ! j = AAwaitSetupResponse conn s p f \<longrightarrow>
        (let out = outcomes (execution rn) ! j in
         ex_sessions (execution rn) s =
           (if (\<exists>pre. out = Skipped pre) then None
            else Some \<lparr>se_connection = conn, se_protocol = p, se_first_on_connection = f,
                       se_response = recorded_response out\<rparr>)))"

text \<open>A block was entered with its session established, or skipped whole.\<close>

definition block_logged :: "action list \<Rightarrow> nat \<Rightarrow> 'l runner \<Rightarrow> bool" where
  "block_logged acts k rn \<longleftrightarrow>
     (\<forall>e s x. e < k \<longrightarrow> acts ! e = AEnterOnSetupSuccess s x \<longrightarrow>
        outcomes (execution rn) ! e = Completed NoResponse \<and> established rn s \<or>
        x < k \<and> (\<exists>t. \<forall>j \<in> {e..x}. outcomes (execution rn) ! j = Skipped (SetupSuccessOf t)))"

lemma logged_turn:
  assumes "run_turn d acts k rn w = Some (k', rn', w')" and "k < length acts"
    and "blocks_ok acts" and "logged acts k rn"
  shows "logged acts k' rn'"
proof -
  from assms(4) have ok: "runner_ok rn" by (simp add: logged_def)
  from assms(1, 2) ok assms(3) show ?thesis
  proof (cases rule: run_turn_cases)
    case (skip s x)
    with assms(4) show ?thesis by (auto simp: logged_def nth_append)
  next
    case (act out rn1)
    with assms(2, 4) show ?thesis
      by (auto simp: logged_def performed_def roles_after_def nth_append less_Suc_eq nth_mem
          split: if_splits) (metis nth_mem)+
  qed
qed

lemma session_logged_turn:
  assumes "run_turn d acts k rn w = Some (k', rn', w')" and "k < length acts"
    and "blocks_ok acts" and "sessions_ok acts" and "logged acts k rn" and "session_logged acts k rn"
  shows "session_logged acts k' rn'"
proof -
  from assms(5) have ok: "runner_ok rn" and len: "length (outcomes (execution rn)) = k"
    by (auto simp: logged_def)
  from assms(1, 2) ok assms(3) show ?thesis
  proof (cases rule: run_turn_cases)
    case (skip s x)
    have "ex_sessions (execution rn) t = None"
      if j: "\<not> j < k" "j \<le> x" "acts ! j = AAwaitSetupResponse conn t p f" for j t conn p f
    proof -
      have "\<not> awaits t (acts ! i)" if "i < k" for i
        using assms(4) that j skip(4) assms(2)
        unfolding sessions_ok_def
        by (metis awaits.simps(1) leD le_less_trans less_trans)
      with assms(6) show ?thesis by (simp add: session_logged_def)
    qed
    with assms(6) skip len show ?thesis
      by (auto simp: session_logged_def nth_append less_Suc_eq_le Let_def)
  next
    case (act out rn1)
    have fresh: "\<not> awaits t (acts ! i)" if "i < k" "awaits t (acts ! k)" for i t
      using assms(2, 4) that unfolding sessions_ok_def by (metis less_irrefl less_trans)
    show ?thesis
    proof (cases "\<exists>conn t p f. acts ! k = AAwaitSetupResponse conn t p f")
      case False
      then have "ex_sessions (execution rn1) = ex_sessions (execution rn)"
        "\<And>t. \<not> awaits t (acts ! k)"
        using act(2) by (cases "acts ! k"; simp add: performed_def session_after_def)+
      with assms(6) act len False show ?thesis
        by (auto simp: session_logged_def nth_append less_Suc_eq performed_def Let_def)
    next
      case True
      then obtain conn t p f where a: "acts ! k = AAwaitSetupResponse conn t p f" by blast
      then have none: "ex_sessions (execution rn) t = None"
        using assms(6) fresh by (auto simp: session_logged_def)
      let ?se = "\<lparr>se_connection = conn, se_protocol = p, se_first_on_connection = f,
          se_response = recorded_response out\<rparr>"
      have fits: "(\<exists>pre. out = Skipped pre) \<longleftrightarrow> out = Skipped (ConnectionOpen conn)"
        using act(2) a by (auto simp: performed_def outcome_fits_def transport_outcome_def)
      have ss: "ex_sessions (execution rn1) = (ex_sessions (execution rn))
          (t := if \<exists>pre. out = Skipped pre then None else Some ?se)"
        unfolding fits using act(2) a none by (auto simp: performed_def session_after_def)
      have other: "t' \<noteq> t" if "i < k" "acts ! i = AAwaitSetupResponse conn' t' p' f'" for i conn' t' p' f'
        using fresh [of i t] that a by auto
      have outs: "outcomes (execution rn') = outcomes (execution rn) @ [out]"
        using act(2, 4) by (simp add: performed_def)
      have ss': "ex_sessions (execution rn') = ex_sessions (execution rn1)" by (simp add: act(4))
      show ?thesis
        unfolding session_logged_def
      proof (intro conjI allI impI)
        fix t' assume "\<forall>j < k'. \<not> awaits t' (acts ! j)"
        then have "t' \<noteq> t" "\<forall>j < k. \<not> awaits t' (acts ! j)" using a act(3) by auto
        with assms(6) show "ex_sessions (execution rn') t' = None"
          by (simp add: ss' ss session_logged_def)
      next
        fix j conn' t' p' f' assume j: "j < k'" "acts ! j = AAwaitSetupResponse conn' t' p' f'"
        show "let out = outcomes (execution rn') ! j in ex_sessions (execution rn') t' =
           (if \<exists>pre. out = Skipped pre then None
            else Some \<lparr>se_connection = conn', se_protocol = p', se_first_on_connection = f',
                       se_response = recorded_response out\<rparr>)"
        proof (cases "j = k")
          case True
          with j a have "t' = t" "conn' = conn" "p' = p" "f' = f" by auto
          then show ?thesis using True len by (simp add: outs ss' ss Let_def nth_append)
        next
          case False
          with j act(3) have "j < k" by simp
          with other j(2) have "t' \<noteq> t" by blast
          with assms(6) \<open>j < k\<close> j(2) len show ?thesis
            by (auto simp: outs ss' ss session_logged_def nth_append Let_def)
        qed
      qed
    qed
  qed
qed

text \<open>A session that is established stays so: it is not awaited again.\<close>

lemma established_turn:
  assumes "performed (acts ! k) out rn rn1" and "sessions_ok acts" and "e < length acts"
    and "k < length acts" and "acts ! e = AEnterOnSetupSuccess s x" and "e \<le> k" and "established rn s"
  shows "established rn1 s"
proof -
  have "\<not> awaits s (acts ! k)"
    using assms(2, 3, 4, 5, 6) unfolding sessions_ok_def by (metis enters.simps(1) leD)
  with assms(1) have "ex_sessions (execution rn1) s = ex_sessions (execution rn) s"
    by (cases "acts ! k") (auto simp: performed_def session_after_def split: if_splits)
  with assms(7) show ?thesis by (simp add: established_def)
qed

lemma established_iff:
  "established rn s \<longleftrightarrow> (\<exists>se. ex_sessions (execution rn) s = Some se \<and> is_success (se_response se))"
  by (auto simp: established_def split: option.splits)

lemma established_record [simp]: "established (record_outcomes outs rn) s = established rn s"
  by (simp add: established_def)

lemma block_logged_turn:
  assumes "run_turn d acts k rn w = Some (k', rn', w')" and "k < length acts"
    and "blocks_ok acts" and "sessions_ok acts" and "logged acts k rn" and "block_logged acts k rn"
  shows "block_logged acts k' rn'"
proof -
  from assms(5) have ok: "runner_ok rn" and len: "length (outcomes (execution rn)) = k"
    by (auto simp: logged_def)
  from assms(1, 2) ok assms(3) show ?thesis
  proof (cases rule: run_turn_cases)
    case (skip s x)
    let ?outs = "outcomes (execution rn')"
    have old: "?outs ! j = outcomes (execution rn) ! j" if "j < k" for j
      using that len by (simp add: skip(6) nth_append)
    have new: "?outs ! j = Skipped (SetupSuccessOf s)" if "k \<le> j" "j \<le> x" for j
      using that len by (simp add: skip(6) nth_append)
    show ?thesis unfolding block_logged_def
    proof (intro allI impI)
      fix e t y assume e: "e < k'" "acts ! e = AEnterOnSetupSuccess t y"
      show "?outs ! e = Completed NoResponse \<and> established rn' t \<or>
          y < k' \<and> (\<exists>t. \<forall>j \<in> {e..y}. ?outs ! j = Skipped (SetupSuccessOf t))"
      proof (cases "e < k")
        case True
        with assms(6) e(2) old skip(3, 5, 6) show ?thesis
          by (fastforce simp: block_logged_def)
      next
        case False
        have "y \<le> x"
        proof (cases "e = k")
          case True
          with e(2) skip(1) show ?thesis by simp
        next
          case later: False
          have exit: "acts ! x = AExitBlock"
            "\<And>f t y. k < f \<Longrightarrow> f < x \<Longrightarrow> acts ! f = AEnterOnSetupSuccess t y \<Longrightarrow> y < x"
            using assms(2, 3) skip(1) unfolding blocks_ok_def by blast+
          then have "e \<noteq> x" using e(2) by auto
          with later False e(1) skip(5) have "k < e" "e < x" by simp_all
          from exit(2) [OF this e(2)] show ?thesis by simp
        qed
        with new False skip(5) show ?thesis by auto
      qed
    qed
  next
    case (act out rn1)
    have outs: "outcomes (execution rn') = outcomes (execution rn) @ [out]"
      using act(2, 4) by (simp add: performed_def)
    show ?thesis unfolding block_logged_def
    proof (intro allI impI)
      fix e t y assume e: "e < k'" "acts ! e = AEnterOnSetupSuccess t y"
      have keep: "established rn t \<Longrightarrow> established rn' t"
        using established_turn [OF act(2) assms(4) _ assms(2) e(2)] e(1) act(3, 4) assms(2) by simp
      show "outcomes (execution rn') ! e = Completed NoResponse \<and> established rn' t \<or>
          y < k' \<and> (\<exists>t. \<forall>j \<in> {e..y}. outcomes (execution rn') ! j = Skipped (SetupSuccessOf t))"
      proof (cases "e = k")
        case True
        with act(1, 2) e(2) len keep show ?thesis
          by (auto simp: outs nth_append performed_def outcome_fits_def)
      next
        case False
        with e(1) act(3) have "e < k" by simp
        with assms(6) e(2) len keep act(3) show ?thesis
          by (fastforce simp: block_logged_def outs nth_append)
      qed
    qed
  qed
qed

lemma run_result:
  fixes d :: "('l, 'w) deployment"
  assumes "run d q w = Some (r, w')" and "runnable q"
  obtains rn :: "'l runner" where "r = Ok ((execution rn)\<lparr>ex_connections := states rn\<rparr>)"
    "logged (comp_actions q) (length (comp_actions q)) rn"
    "session_logged (comp_actions q) (length (comp_actions q)) rn"
    "block_logged (comp_actions q) (length (comp_actions q)) rn"
proof -
  let ?acts = "comp_actions q"
  from assms(1) obtain rn where rn: "run_loop d ?acts 0 new_runner w = Some (rn, w')"
    "r = (if is_total (execution rn) q then Ok ((execution rn)\<lparr>ex_connections := states rn\<rparr>) else Panic)"
    by (auto simp: run_def Let_def split: option.splits)
  from run_loop_turns [OF rn(1)] obtain k where k: "length ?acts \<le> k"
    "turns d ?acts (0, new_runner, w) (k, rn, w')" by blast
  let ?I = "\<lambda>(k, rn, w). logged ?acts k rn \<and> session_logged ?acts k rn \<and> block_logged ?acts k rn"
  have ok: "blocks_ok ?acts" "sessions_ok ?acts" using assms(2) by (auto simp: runnable_def)
  have "?I (k, rn, w')"
  proof (rule turns_invariant [OF k(2)])
    show "?I (0, new_runner, w)"
      by (simp add: logged_def session_logged_def block_logged_def new_runner_def runner_ok_def
          default_execution_def)
  next
    fix k rn w c
    assume "k < length ?acts" "?I (k, rn, w)" "run_turn d ?acts k rn w = Some c"
    then show "?I c"
      using logged_turn session_logged_turn block_logged_turn ok by (cases c) fastforce
  qed
  then have inv: "logged ?acts k rn" "session_logged ?acts k rn" "block_logged ?acts k rn" by simp_all
  with k(1) have "k = length ?acts" by (simp add: logged_def)
  with inv rn(2) have "r = Ok ((execution rn)\<lparr>ex_connections := states rn\<rparr>)"
    by (simp add: is_total_def logged_def)
  from that [OF this] inv \<open>k = length ?acts\<close> show ?thesis by blast
qed

section \<open>A run returns\<close>

lemma pump_loop_returns:
  assumes "drains d backlog"
  shows "pump_loop d deadline finished l cs w \<noteq> None"
proof (induction "backlog l w" arbitrary: l cs w rule: less_induct)
  case less
  obtain now w1 where now: "clock d w = (now, w1)" by fastforce
  obtain m l' w2 where m: "link_recv d l (deadline - now) w1 = (m, l', w2)" by (metis prod_cases3)
  show ?case
  proof (cases "finished cs \<or> deadline - now = 0")
    case True
    with now show ?thesis by (subst pump_loop.simps) auto
  next
    case False
    show ?thesis
    proof (cases m)
      case (Inl e)
      with False now m show ?thesis by (subst pump_loop.simps) auto
    next
      case (Inr f)
      from assms have b: "\<And>l t w f l' w'. link_recv d l t w = (Inr f, l', w') \<Longrightarrow> backlog l' w' < backlog l w"
        "\<And>l w. backlog l (snd (clock d w)) \<le> backlog l w" unfolding drains_def by blast+
      have "backlog l' w2 < backlog l w" using b(1) [OF m [unfolded Inr]] b(2) [of l w] now by simp
      from less.hyps [OF this] False now m Inr show ?thesis
        by (subst pump_loop.simps) (auto simp del: not_None_eq)
    qed
  qed
qed

lemma pump_returns: "drains d backlog \<Longrightarrow> pump d conn timeout finished rn w \<noteq> None"
  using pump_loop_returns [of d backlog]
  by (auto simp: pump_def simp del: not_None_eq split: option.splits prod.splits)

lemma probe_link_returns:
  assumes "drains d backlog"
  shows "probe_link d conn l cs probed w \<noteq> None"
proof (induction "backlog l w" arbitrary: l cs probed w rule: less_induct)
  case less
  obtain m l' w2 where m: "link_recv d l 0 w = (m, l', w2)" by (metis prod_cases3)
  show ?case
  proof (cases m)
    case (Inl e)
    with m show ?thesis by (subst probe_link.simps) simp
  next
    case (Inr f)
    with m assms have "backlog l' w2 < backlog l w" unfolding drains_def by blast
    from less.hyps [OF this] m Inr show ?thesis
      by (subst probe_link.simps) (simp del: not_None_eq)
  qed
qed

lemma probe_all_returns: "drains d backlog \<Longrightarrow> probe_all d ids probed rn w \<noteq> None"
proof (induction ids arbitrary: probed rn w)
  case (Cons conn ids)
  show ?case
  proof (cases "links rn conn = None \<or> states rn conn = None")
    case True
    with Cons show ?thesis by (auto split: option.splits)
  next
    case False
    then obtain l cs where "links rn conn = Some l" "states rn conn = Some cs" by auto
    with Cons probe_link_returns [OF Cons.prems, of conn l cs probed w] show ?thesis by auto
  qed
qed simp

lemma action_returns:
  assumes "drains d backlog"
  shows "perform d a rn w \<noteq> None"
proof (cases a)
  case (AAwaitSetupResponse conn s p f)
  then show ?thesis using pump_returns [OF assms]
    by (auto simp: perform_await_def Let_def simp del: not_None_eq split: option.splits)
next
  case AProbe
  then show ?thesis using probe_all_returns [OF assms]
    by (auto simp: perform_probe_def Let_def simp del: not_None_eq split: prod.splits option.splits)
qed auto

lemma run_turn_returns:
  assumes "drains d backlog" and "blocks_ok acts" and "k < length acts"
  obtains k' rn' w' where "run_turn d acts k rn w = Some (k', rn', w')" "k < k'"
proof (cases "unmet_prerequisite rn (acts ! k)")
  case None
  obtain out rn1 w1 where "perform d (acts ! k) rn w = Some (out, rn1, w1)"
    using action_returns [OF assms(1)] by (metis not_None_eq prod_cases3)
  with None that show ?thesis by (simp add: run_turn_def)
next
  case (Some u)
  then obtain s x where s: "acts ! k = AEnterOnSetupSuccess s x" "u = (SetupSuccessOf s, x)"
    by (cases "(rn, acts ! k)" rule: unmet_prerequisite.cases) (auto split: if_splits)
  have "k < x" "x < length acts" using assms(2, 3) s(1) unfolding blocks_ok_def by blast+
  with Some s(2) that show ?thesis by (simp add: run_turn_def Let_def)
qed

lemma run_loop_returns:
  assumes "drains d backlog" and "blocks_ok acts"
  shows "run_loop d acts k rn w \<noteq> None"
proof (induction "length acts - k" arbitrary: k rn w rule: less_induct)
  case less
  show ?case
  proof (cases "k < length acts")
    case True
    obtain k' rn' w' where t: "run_turn d acts k rn w = Some (k', rn', w')" "k < k'"
      using run_turn_returns [OF assms True] .
    with True have "length acts - k' < length acts - k" by simp
    from less.hyps [OF this] t True show ?thesis by (subst run_loop.simps) (simp del: not_None_eq)
  next
    case False
    then show ?thesis by (subst run_loop.simps) simp
  qed
qed

lemma run_ends:
  assumes "drains d backlog" and "runnable q"
  shows "\<exists>r w'. run d q w = Some (r, w')"
proof -
  from assms(2) have "blocks_ok (comp_actions q)" by (simp add: runnable_def)
  from run_loop_returns [OF assms(1) this, of 0 new_runner w]
  obtain rn w' where "run_loop d (comp_actions q) 0 new_runner w = Some (rn, w')" by fastforce
  then show ?thesis by (simp add: run_def Let_def)
qed

end
