(* ===== verification/Run_Properties.thy ===== *)
theory Run_Properties
  imports Runner_Facts
begin

text \<open>
  What a run of a compiled program guarantees, whatever the deployment does, when a run
  returns, and where it does not.
\<close>

section \<open>A deployment for the examples\<close>

text \<open>
  One role, which answers every connection with one success. A link is the frames it still has
  to hand out, the world is the time; waiting for a frame that does not come takes the timeout.
\<close>

definition success_frame :: wire_frame where
  "success_frame =
     \<lparr>ext_type_without_channel_msg = 0, channel_msg = False, msg_type = 1, payload_length = 6,
      message = Ok \<lparr>message_body = SetupConnectionSuccess 2 0, channel_bit = False\<rparr>\<rparr>"

definition queue_deployment :: "(wire_frame list, nat) deployment" where
  "queue_deployment =
     \<lparr>dep_connect = (\<lambda>conn role w. (if role = 0 then Some [success_frame] else None, w)),
      dep_role_config = (\<lambda>r. if r = 0 then Some (new_role_config MiningProtocol) else None),
      dep_num_roles = 1,
      dep_advance_time = (\<lambda>t w. w + t),
      dep_is_alive = (\<lambda>w. True),
      link_send = (\<lambda>l e t c p w. (Inr (), l, w)),
      link_recv = (\<lambda>l t w. case l of [] \<Rightarrow> (Inl Timeout, [], w + t) | f # fs \<Rightarrow> (Inr f, fs, w)),
      clock = (\<lambda>w. (w, Suc w)),
      map_order = (\<lambda>S w. (sorted_list_of_set S, w))\<rparr>"

lemma queue_drains: "drains queue_deployment (\<lambda>l w. length l)"
  by (auto simp: drains_def queue_deployment_def split: list.splits)

text \<open>The run of the example program exists.\<close>

lemma demo_run:
  obtains q ex w' where "compile tiny_codec demo_program = Ok q" "comp_actions q = demo_actions"
    "run queue_deployment q 0 = Some (Ok ex, w')"
proof (rule demo_compiles)
  fix q assume q: "compile tiny_codec demo_program = Ok q" "comp_actions q = demo_actions"
  have "wt_program (prog_context demo_program) (instructions demo_program)"
    using demo_valid by (simp add: statically_valid_iff)
  from compiled_runnable(1) [OF this tiny_codec_ok q(1)] have r: "runnable q" .
  from run_ends [OF queue_drains this] obtain out w' where
    w: "run queue_deployment q 0 = Some (out, w')" by blast
  from run_result [OF this r] obtain ex where "out = Ok ex" by metis
  with q w that show ?thesis by simp
qed

section \<open>A peer that never stops\<close>

lemma probe_link_flooded:
  fixes d :: "('l, 'w) deployment"
  assumes "\<And>l w. \<exists>f l' w'. link_recv d l 0 w = (Inr f, l', w')"
  shows "probe_link d conn l cs probed w = None"
proof (rule ccontr)
  assume "probe_link d conn l cs probed w \<noteq> None"
  then obtain y where y: "probe_link d conn l cs probed w = Some y" by blast
  let ?P = "\<lambda>(d' :: ('l, 'w) deployment) (conn :: nat) (l :: 'l) (cs :: connection_state)
      (probed :: (nat \<times> u8) list) (w :: 'w) (y :: 'l \<times> connection_state \<times> (nat \<times> u8) list \<times> 'w). d' \<noteq> d"
  have "?P d conn l cs probed w y"
  proof (rule probe_link.raw_induct [where P = ?P, OF _ y], rule notI)
    fix again :: "('l, 'w) deployment \<Rightarrow> nat \<Rightarrow> 'l \<Rightarrow> connection_state \<Rightarrow> (nat \<times> u8) list \<Rightarrow> 'w \<Rightarrow>
        ('l \<times> connection_state \<times> (nat \<times> u8) list \<times> 'w) option"
      and d' conn l cs probed w y
    assume hyp: "\<And>d' conn l cs probed w y. again d' conn l cs probed w = Some y \<Longrightarrow> d' \<noteq> d"
      and eq: "(case link_recv d' l 0 w of
          (Inr f, l', w') \<Rightarrow> again d' conn l' (snd (dispatch f cs)) (probed @ [(conn, msg_type f)]) w'
        | (Inl e, l', w') \<Rightarrow> Some (l', cs, probed, w')) = Some y"
      and same: "d' = d"
    from assms [of l w] obtain f l' w' where "link_recv d l 0 w = (Inr f, l', w')" by blast
    with eq same have "again d' conn l' (snd (dispatch f cs)) (probed @ [(conn, msg_type f)]) w' = Some y"
      by simp
    from hyp [OF this] same show False by simp
  qed
  then show False by simp
qed

section \<open>Properties\<close>

text \<open>C8: Whatever a deployment does, a run of a compiled valid program that returns has exactly
  one outcome per action, passes its own assertion, and none of the outcomes is a failure of the
  harness: each is what its action can come to, or says which setup the skipped block waited for.\<close>

theorem run_is_total:
  assumes "is_statically_valid p = Ok True" and "codec_ok cd" and "compile cd p = Ok q"
    and "run d q w = Some (r, w')"
  shows "\<exists>ex. r = Ok ex \<and> is_total ex q \<and>
    (\<forall>j < length (comp_actions q).
       (outcome_fits (comp_actions q ! j) (outcomes ex ! j) \<or>
        (\<exists>s. outcomes ex ! j = Skipped (SetupSuccessOf s))) \<and>
       (\<forall>e. outcomes ex ! j \<noteq> HarnessError e))"
proof -
  have "wt_program (prog_context p) (instructions p)" using assms(1) by (simp add: statically_valid_iff)
  from compiled_runnable(1) [OF this assms(2, 3)] have "runnable q" .
  from run_result [OF assms(4) this] obtain ex where
    ex: "r = Ok ex" "length (outcomes ex) = length (comp_actions q)"
    "\<forall>j < length (comp_actions q). outcome_fits (comp_actions q ! j) (outcomes ex ! j) \<or>
        (\<exists>s. outcomes ex ! j = Skipped (SetupSuccessOf s))"
    unfolding logged_def by (metis (no_types, lifting) execution.select_convs(1)
        execution.surjective execution.update_convs(5))
  then have "\<forall>j < length (comp_actions q). \<forall>e. outcomes ex ! j \<noteq> HarnessError e"
    using outcome_fits_not_harness by fastforce
  with ex show ?thesis by (auto simp: is_total_def)
qed

theorem run_is_total_witness:
  "\<exists>q ex w'. run queue_deployment q 0 = Some (Ok ex, w') \<and> comp_actions q = demo_actions \<and>
     length (outcomes ex) = length demo_actions"
proof (rule demo_run)
  fix q ex w' assume q: "compile tiny_codec demo_program = Ok q" "comp_actions q = demo_actions"
    "run queue_deployment q 0 = Some (Ok ex, w')"
  from run_is_total [OF demo_valid tiny_codec_ok q(1, 3)] have "is_total ex q" by simp
  with q show ?thesis unfolding is_total_def by metis
qed

text \<open>C10: What is inside a success block happens only after the server agreed to the session's
  setup: in the record of a run a block is entered with the session's success recorded, and
  otherwise every action from its enter to its exit is skipped for one unmet setup.\<close>

theorem blocks_are_guarded:
  assumes "is_statically_valid p = Ok True" and "codec_ok cd" and "compile cd p = Ok q"
    and "run d q w = Some (Ok ex, w')" and "e < length (comp_actions q)"
    and "comp_actions q ! e = AEnterOnSetupSuccess s x"
  shows "(outcomes ex ! e = Completed NoResponse \<and>
      (\<exists>se. ex_sessions ex s = Some se \<and> is_success (se_response se))) \<or>
    (\<exists>t. \<forall>j \<in> {e..x}. outcomes ex ! j = Skipped (SetupSuccessOf t))"
proof -
  have "wt_program (prog_context p) (instructions p)" using assms(1) by (simp add: statically_valid_iff)
  from compiled_runnable(1) [OF this assms(2, 3)] have "runnable q" .
  from run_result [OF assms(4) this] show ?thesis
  proof cases
    case (1 rn)
    then have "outcomes ex = outcomes (execution rn)" "ex_sessions ex = ex_sessions (execution rn)"
      by simp_all
    with 1(4) assms(5, 6) show ?thesis unfolding block_logged_def established_iff by metis
  qed
qed

theorem blocks_are_guarded_witness:
  "\<exists>q ex w'. run queue_deployment q 0 = Some (Ok ex, w') \<and>
     ((\<exists>se. ex_sessions ex 0 = Some se \<and> is_success (se_response se)) \<or>
      (\<exists>t. \<forall>j \<in> {3..5}. outcomes ex ! j = Skipped (SetupSuccessOf t)))"
proof (rule demo_run)
  fix q ex w' assume q: "compile tiny_codec demo_program = Ok q" "comp_actions q = demo_actions"
    "run queue_deployment q 0 = Some (Ok ex, w')"
  have "3 < length (comp_actions q)" "comp_actions q ! 3 = AEnterOnSetupSuccess 0 5"
    by (simp_all add: q(2) demo_actions_def)
  from blocks_are_guarded [OF demo_valid tiny_codec_ok q(1, 3) this] q(3) show ?thesis by blast
qed

text \<open>The sessions a run records are exactly those whose await was attempted, each with its
  connection, subprotocol and whether it was first, and with the answer that is the outcome of the
  await: silence when that outcome is not an answer, and an outcome is never a silent answer.\<close>

theorem sessions_are_recorded:
  assumes "is_statically_valid p = Ok True" and "codec_ok cd" and "compile cd p = Ok q"
    and "run d q w = Some (Ok ex, w')" and "j < length (comp_actions q)"
    and "comp_actions q ! j = AAwaitSetupResponse conn s pr first_on"
  shows "ex_sessions ex s =
      (case outcomes ex ! j of
         Skipped _ \<Rightarrow> None
       | Completed (SetupAnswer a) \<Rightarrow>
           Some \<lparr>se_connection = conn, se_protocol = pr, se_first_on_connection = first_on,
                 se_response = a\<rparr>
       | _ \<Rightarrow>
           Some \<lparr>se_connection = conn, se_protocol = pr, se_first_on_connection = first_on,
                 se_response = RSilence\<rparr>) \<and>
    outcomes ex ! j \<noteq> Completed (SetupAnswer RSilence)"
proof -
  have "wt_program (prog_context p) (instructions p)" using assms(1) by (simp add: statically_valid_iff)
  from compiled_runnable(1) [OF this assms(2, 3)] have "runnable q" .
  from run_result [OF assms(4) this] show ?thesis
  proof cases
    case (1 rn)
    then have eq: "outcomes ex = outcomes (execution rn)" "ex_sessions ex = ex_sessions (execution rn)"
      by simp_all
    from 1(2) assms(5, 6) have "outcomes ex ! j \<noteq> Completed (SetupAnswer RSilence)"
      by (fastforce simp: eq logged_def outcome_fits_def transport_outcome_def)
    with 1(3) assms(5, 6) show ?thesis
      by (auto simp: eq session_logged_def Let_def recorded_response_def
          split: action_outcome.splits response.splits)
  qed
qed

theorem sessions_are_recorded_witness:
  "\<exists>q ex w'. run queue_deployment q 0 = Some (Ok ex, w') \<and>
     outcomes ex ! 2 \<noteq> Completed (SetupAnswer RSilence)"
proof (rule demo_run)
  fix q ex w' assume q: "compile tiny_codec demo_program = Ok q" "comp_actions q = demo_actions"
    "run queue_deployment q 0 = Some (Ok ex, w')"
  have "2 < length (comp_actions q)" "comp_actions q ! 2 = AAwaitSetupResponse 0 0 Mining True"
    by (simp_all add: q(2) demo_actions_def)
  from sessions_are_recorded [OF demo_valid tiny_codec_ok q(1, 3) this] q(3) show ?thesis by blast
qed

text \<open>C9: The run of a compiled valid program returns against every deployment whose links run out
  of frames when nothing is asked of them, however it answers, fails or closes.\<close>

theorem run_returns:
  assumes "is_statically_valid p = Ok True" and "codec_ok cd" and "compile cd p = Ok q"
    and "drains d backlog"
  shows "\<exists>ex w'. run d q w = Some (Ok ex, w')"
proof -
  have "wt_program (prog_context p) (instructions p)" using assms(1) by (simp add: statically_valid_iff)
  from compiled_runnable(1) [OF this assms(2, 3)] have r: "runnable q" .
  from run_ends [OF assms(4) r] obtain out w' where w: "run d q w = Some (out, w')" by blast
  from run_result [OF this r] w show ?thesis by metis
qed

theorem run_returns_witness:
  "\<exists>q ex w'. run queue_deployment q 0 = Some (Ok ex, w') \<and> comp_actions q = demo_actions"
proof (rule demo_compiles)
  fix q assume q: "compile tiny_codec demo_program = Ok q" "comp_actions q = demo_actions"
  from run_returns [OF demo_valid tiny_codec_ok q(1) queue_drains] q(2) show ?thesis by blast
qed

text \<open>A probe has no deadline: against a deployment whose link always has another frame, a
  probe with a connection open does not return.\<close>

theorem probe_flood_hangs:
  assumes "\<And>l w. \<exists>f l' w'. link_recv d l 0 w = (Inr f, l', w')"
    and "links rn conn \<noteq> None" and "states rn conn \<noteq> None"
    and "map_order d (dom (links rn)) w = (conn # ids, w1)"
  shows "perform d AProbe rn w = None"
  using assms(2-4) probe_link_flooded [OF assms(1)] by (auto simp: perform_probe_def)

theorem probe_flood_hangs_witness:
  "perform
     \<lparr>dep_connect = (\<lambda>conn role w. (Some (), w)), dep_role_config = (\<lambda>r. None),
      dep_num_roles = 1, dep_advance_time = (\<lambda>t w. w), dep_is_alive = (\<lambda>w. True),
      link_send = (\<lambda>l e t c p w. (Inr (), l, w)),
      link_recv = (\<lambda>l t w. (Inr success_frame, l, w)),
      clock = (\<lambda>w. (w, Suc w)), map_order = (\<lambda>S w. ([0], w))\<rparr> AProbe
     \<lparr>links = [0 \<mapsto> ()], states = [0 \<mapsto> default_connection_state],
      execution = default_execution\<rparr> 0 = None"
  by (rule probe_flood_hangs) auto

end
