(* ===== verification/Oracle.thy ===== *)
theory Oracle
  imports Run_Properties
begin

text \<open>
  The oracles of \<open>oracle.rs\<close>. Each is a function of the deployment, the program and the record
  of the run. The texts of failures are values of the datatypes \<open>check_failure\<close> and
  \<open>oracle_failure\<close>, one constructor per message of the source with what it prints.
\<close>

section \<open>Checking an answer\<close>

definition mining_requires_version_rolling :: u32 where
  "mining_requires_version_rolling = push_bit 2 1"

definition mining_success_requires_fixed_version :: u32 where
  "mining_success_requires_fixed_version = push_bit 0 1"

datatype check_failure =
    MustRespond
  | ClosedInstead
  | TransportFailed string
  | WrongKind response
  | WrongType u8
  | NotProposed u16 u16 u16
  | FixedVersionForbidden
  | NotServed protocol wire_protocol
  | NotSupported u16 u16 u16

definition in_versions :: "u16 \<Rightarrow> u16 \<Rightarrow> u16 \<Rightarrow> bool" where
  "in_versions lo hi v \<longleftrightarrow> lo \<le> v \<and> v \<le> hi"

definition check_success ::
  "role_config \<Rightarrow> setup_connection_spec \<Rightarrow> u16 \<Rightarrow> u32 \<Rightarrow> (check_failure, unit) outcome" where
  "check_success config spec used_version fl =
     (if \<not> in_versions (min_version spec) (max_version spec) used_version
      then Err (NotProposed used_version (min_version spec) (max_version spec))
      else if protocol spec = Mining \<and> and fl mining_success_requires_fixed_version \<noteq> 0 \<and>
              and (flags spec) mining_requires_version_rolling \<noteq> 0
      then Err FixedVersionForbidden
      else if protocol_of (protocol spec) \<noteq> rc_protocol config
      then Err (NotServed (protocol spec) (rc_protocol config))
      else if \<not> in_versions (rc_min_version config) (rc_max_version config) used_version
      then Err (NotSupported used_version (rc_min_version config) (rc_max_version config))
      else Ok ())"

definition check ::
  "role_config \<Rightarrow> setup_connection_spec \<Rightarrow> bool \<Rightarrow> action_outcome \<Rightarrow> (check_failure, unit) outcome"
  where
  "check config spec owed out =
     (if \<not> owed then Ok ()
      else case out of
        TimedOut \<Rightarrow> Err MustRespond
      | TransportClosed \<Rightarrow> Err ClosedInstead
      | TransportError e \<Rightarrow> Err (TransportFailed e)
      | Skipped _ \<Rightarrow> Ok ()
      | HarnessError _ \<Rightarrow> Ok ()
      | Completed r \<Rightarrow>
          (case r of
             SetupAnswer a \<Rightarrow>
               (case a of
                  RSilence \<Rightarrow> Err MustRespond
                | RUnexpected t \<Rightarrow> Err (WrongType t)
                | RError _ _ \<Rightarrow> Ok ()
                | RSuccess v fl \<Rightarrow> check_success config spec v fl)
           | other \<Rightarrow> Err (WrongKind other)))"

section \<open>The oracles\<close>

datatype oracle_failure =
    OutcomeCount nat nat
  | NotCarriedOut nat string string
  | NoOutcome nat string
  | NoRecordedSetup nat
  | UnknownRole nat nat
  | BadAnswer nat action_outcome setup_connection_spec check_failure
  | StoppedServing

datatype oracle_result = Pass | Fail oracle_failure

definition describe :: "compiled_program \<Rightarrow> nat \<Rightarrow> string" where
  "describe p k =
     (case get (action_instructions (comp_metadata p)) k of
        Some i \<Rightarrow> ''instruction '' @ decimal i
      | None \<Rightarrow> ''no instruction'')"

text \<open>The loop over the outcomes, from outcome \<open>k\<close>.\<close>

fun first_harness_error :: "compiled_program \<Rightarrow> nat \<Rightarrow> action_outcome list \<Rightarrow> oracle_result" where
  "first_harness_error p k [] = Pass"
| "first_harness_error p k (out # outs) =
     (case out of
        HarnessError e \<Rightarrow> Fail (NotCarriedOut k (describe p k) e)
      | _ \<Rightarrow> first_harness_error p (k + 1) outs)"

definition harness_integrity :: "compiled_program \<Rightarrow> execution \<Rightarrow> oracle_result" where
  "harness_integrity p ex =
     (if \<not> is_total ex p then Fail (OutcomeCount (length (comp_actions p)) (length (outcomes ex)))
      else first_harness_error p 0 (outcomes ex))"

definition owed_at :: "compiled_program \<Rightarrow> nat \<Rightarrow> bool \<Rightarrow> bool" where
  "owed_at p k first_on \<longleftrightarrow> first_on \<and> violations (comp_metadata p) k = None"

text \<open>What the loop of \<open>SetupConnectionOracle\<close> does at an action.\<close>

definition check_action ::
  "('l, 'w) deployment \<Rightarrow> compiled_program \<Rightarrow> execution \<Rightarrow> nat \<Rightarrow> action \<Rightarrow> oracle_result" where
  "check_action d p ex k a =
     (case a of
        AAwaitSetupResponse conn s _ first_on \<Rightarrow>
          (case outcome_of ex k of
             None \<Rightarrow> Fail (NoOutcome k (describe p k))
           | Some out \<Rightarrow>
               (case session_setups (comp_metadata p) s of
                  None \<Rightarrow> Fail (NoRecordedSetup s)
                | Some spec \<Rightarrow>
                    (case connection_roles ex conn of
                       None \<Rightarrow> Pass
                     | Some role \<Rightarrow>
                         (case dep_role_config d role of
                            None \<Rightarrow> Fail (UnknownRole s role)
                          | Some config \<Rightarrow>
                              (case check config spec (owed_at p k first_on) out of
                                 Err v \<Rightarrow> Fail (BadAnswer role out spec v)
                               | _ \<Rightarrow> Pass)))))
      | _ \<Rightarrow> Pass)"

fun check_actions ::
  "('l, 'w) deployment \<Rightarrow> compiled_program \<Rightarrow> execution \<Rightarrow> nat \<Rightarrow> action list \<Rightarrow> oracle_result" where
  "check_actions d p ex k [] = Pass"
| "check_actions d p ex k (a # rest) =
     (case check_action d p ex k a of
        Pass \<Rightarrow> check_actions d p ex (k + 1) rest
      | Fail v \<Rightarrow> Fail v)"

definition setup_connection_oracle ::
  "('l, 'w) deployment \<Rightarrow> compiled_program \<Rightarrow> execution \<Rightarrow> oracle_result" where
  "setup_connection_oracle d p ex = check_actions d p ex 0 (comp_actions p)"

definition crash_oracle :: "('l, 'w) deployment \<Rightarrow> 'w \<Rightarrow> oracle_result" where
  "crash_oracle d w = (if dep_is_alive d w then Pass else Fail StoppedServing)"

section \<open>What the oracles say\<close>

text \<open>An answer that a role configured as \<open>config\<close> may give to a \<open>SetupConnection\<close> it owes one.\<close>

definition acceptable_answer :: "role_config \<Rightarrow> setup_connection_spec \<Rightarrow> setup_response \<Rightarrow> bool" where
  "acceptable_answer config spec a \<longleftrightarrow>
     (\<exists>fl e. a = RError fl e) \<or>
     (\<exists>v fl. a = RSuccess v fl \<and>
        v \<in> {min_version spec..max_version spec} \<inter> {rc_min_version config..rc_max_version config} \<and>
        protocol_of (protocol spec) = rc_protocol config \<and>
        \<not> (protocol spec = Mining \<and> bit fl 0 \<and> bit (flags spec) 2))"

lemma and_one_bit: "and x (push_bit n 1) \<noteq> 0 \<longleftrightarrow> bit (x :: 'w::len word) n"
proof -
  have "and x (push_bit n 1) = push_bit n (of_bool (bit x n))"
    by (rule bit_word_eqI) (auto simp: bit_simps)
  then show ?thesis by (cases "bit x n") (auto simp: push_bit_eq_0_iff dest: bit_imp_le_length)
qed

lemma check_success_Ok:
  "check_success config spec v fl = Ok () \<longleftrightarrow> acceptable_answer config spec (RSuccess v fl)"
  using and_one_bit [of fl 0] and_one_bit [of "flags spec" 2]
  by (auto simp: check_success_def acceptable_answer_def in_versions_def
      mining_success_requires_fixed_version_def mining_requires_version_rolling_def)

lemma check_not_Panic [simp]: "check config spec owed out \<noteq> Panic"
  by (auto simp: check_def check_success_def split: action_outcome.splits response.splits
      setup_response.splits)

lemma check_Ok:
  "check config spec owed out = Ok () \<longleftrightarrow>
   \<not> owed \<or> (\<exists>pre. out = Skipped pre) \<or> (\<exists>e. out = HarnessError e) \<or>
   (\<exists>a. out = Completed (SetupAnswer a) \<and> acceptable_answer config spec a)"
  using check_success_Ok [of config spec]
  by (auto simp: check_def acceptable_answer_def
      split: action_outcome.splits response.splits setup_response.splits)

lemma first_harness_error_Pass:
  "first_harness_error p k outs = Pass \<longleftrightarrow> (\<forall>e. HarnessError e \<notin> set outs)"
  by (induction p k outs rule: first_harness_error.induct) (auto split: action_outcome.splits)

lemma check_actions_Fail:
  "check_actions d p ex k acts = Fail v \<Longrightarrow>
   \<exists>j < length acts. check_action d p ex (k + j) (acts ! j) = Fail v"
proof (induction acts arbitrary: k)
  case (Cons a acts)
  show ?case
  proof (cases "check_action d p ex k a")
    case Pass
    with Cons obtain j where "j < length acts" "check_action d p ex (k + 1 + j) (acts ! j) = Fail v"
      by fastforce
    then show ?thesis by (intro exI [of _ "Suc j"]) simp
  next
    case (Fail u)
    with Cons.prems show ?thesis by (intro exI [of _ 0]) simp
  qed
qed simp

lemma check_actions_Pass:
  "check_actions d p ex k acts = Pass \<longleftrightarrow>
   (\<forall>j < length acts. check_action d p ex (k + j) (acts ! j) = Pass)"
proof (induction acts arbitrary: k)
  case (Cons a acts)
  then show ?case
    by (cases "check_action d p ex k a") (auto simp: All_less_Suc2)
qed simp

section \<open>Properties\<close>

text \<open>An outcome passes the check exactly when no answer was owed, the action was not
  attempted, or it is an error, or a success with a version that the client proposed and the role
  supports, for the subprotocol the role serves, that does not demand a fixed version of a mining
  client that asked for version rolling.\<close>

theorem check_exact:
  "check config spec owed out = Ok () \<longleftrightarrow>
   \<not> owed \<or> (\<exists>pre. out = Skipped pre) \<or> (\<exists>e. out = HarnessError e) \<or>
   (\<exists>fl e. out = Completed (SetupAnswer (RError fl e))) \<or>
   (\<exists>v fl. out = Completed (SetupAnswer (RSuccess v fl)) \<and>
      min_version spec \<le> v \<and> v \<le> max_version spec \<and>
      rc_min_version config \<le> v \<and> v \<le> rc_max_version config \<and>
      protocol_of (protocol spec) = rc_protocol config \<and>
      (protocol spec = Mining \<longrightarrow> bit (flags spec) 2 \<longrightarrow> \<not> bit fl 0))"
  unfolding check_Ok acceptable_answer_def by auto

theorem check_exact_witness:
  "check (new_role_config MiningProtocol) (default_spec\<lparr>flags := 4\<rparr>) True
     (Completed (SetupAnswer (RSuccess 2 2))) = Ok () \<and>
   check (new_role_config MiningProtocol) (default_spec\<lparr>flags := 4\<rparr>) True
     (Completed (SetupAnswer (RSuccess 2 1))) \<noteq> Ok ()"
  unfolding check_exact by (simp add: new_role_config_def default_spec_def)

end
