(* ===== verification/Scenario.thy ===== *)
theory Scenario
  imports Oracle Ir_Text
begin

text \<open>
  The scenarios: \<open>scenario.rs\<close> with the entry point of a scenario binary, and of
  \<open>stratamoto-scenarios\<close> the test case, the verdict over the oracles and the scenario against
  the pool. \<open>postcard\<close>, which decodes a test case, is a parameter, and so is how a failure's
  detail prints (\<open>render\<close>); how the report is filed depends on the beginning of its text only.
\<close>

section \<open>Test cases\<close>

definition from_program_case :: "codec \<Rightarrow> program \<Rightarrow> (harness_error, compiled_program) outcome" where
  "from_program_case cd p =
     andThen (is_statically_valid p) (\<lambda>valid.
       if \<not> valid then Err (Input ''program is not statically valid'')
       else map_err (\<lambda>e. Input (compiler_error_display e)) (compile cd p))"

definition decode_case ::
  "(u8 list \<Rightarrow> string + program) \<Rightarrow> codec \<Rightarrow> u8 list \<Rightarrow> (harness_error, compiled_program) outcome" where
  "decode_case from_bytes cd bytes =
     (case from_bytes bytes of
        Inl e \<Rightarrow> Err (Input e)
      | Inr p \<Rightarrow> from_program_case cd p)"

section \<open>The verdict\<close>

datatype scenario_result =
    ScOk
  | ScSkip
  | ScFail string oracle_failure
  | ScInfrastructure string oracle_failure

definition evaluate ::
  "('l, 'w) deployment \<Rightarrow> compiled_program \<Rightarrow> execution \<Rightarrow> 'w \<Rightarrow> scenario_result" where
  "evaluate d p ex w =
     (case harness_integrity p ex of
        Fail e \<Rightarrow> ScInfrastructure ''HarnessIntegrityOracle'' e
      | Pass \<Rightarrow>
          (case setup_connection_oracle d p ex of
             Fail e \<Rightarrow> ScFail ''SetupConnectionOracle'' e
           | Pass \<Rightarrow>
               (case crash_oracle d w of
                  Fail e \<Rightarrow> ScFail ''CrashOracle'' e
                | Pass \<Rightarrow> ScOk)))"

text \<open>The scenario against a deployment: the record of the run and the verdict.\<close>

definition execute ::
  "('l, 'w) deployment \<Rightarrow> compiled_program \<Rightarrow> 'w \<Rightarrow>
   ((unit, execution \<times> scenario_result) outcome \<times> 'w) option" where
  "execute d p w =
     (if num_roles (comp_context p) > dep_num_roles d then Some (Ok (default_execution, ScSkip), w)
      else case run d p w of
        None \<Rightarrow> None
      | Some (r, w') \<Rightarrow> Some (andThen r (\<lambda>ex. Ok (ex, evaluate d p ex w')), w'))"

definition pool_context :: "('l, 'w) deployment \<Rightarrow> program_context" where
  "pool_context d = \<lparr>num_roles = dep_num_roles d, num_connections = 0, seed = 0\<rparr>"

section \<open>The entry point\<close>

text \<open>What the runner is told, and the exit code of the process.\<close>

datatype report = Reported string | ReportedSkip | NoReport

definition verdict_text :: "(oracle_failure \<Rightarrow> string) \<Rightarrow> string \<Rightarrow> oracle_failure \<Rightarrow> string" where
  "verdict_text render name e = name @ '': '' @ render e"

fun report_of :: "(oracle_failure \<Rightarrow> string) \<Rightarrow> scenario_result \<Rightarrow> report \<times> nat" where
  "report_of render ScOk = (NoReport, 0)"
| "report_of render ScSkip = (ReportedSkip, 0)"
| "report_of render (ScFail name e) = (Reported (''FAIL: '' @ verdict_text render name e), 1)"
| "report_of render (ScInfrastructure name e) =
     (Reported (''INFRASTRUCTURE: '' @ verdict_text render name e), 2)"

definition scenario_main ::
  "(oracle_failure \<Rightarrow> string) \<Rightarrow> (harness_error + ('l, 'w) deployment \<times> 'w) \<Rightarrow> codec \<Rightarrow>
   (u8 list \<Rightarrow> string + program) \<Rightarrow> u8 list \<Rightarrow> (unit, report \<times> nat) outcome option" where
  "scenario_main render started cd from_bytes bytes =
     (case started of
        Inl e \<Rightarrow> Some (Ok (Reported (''INFRASTRUCTURE: could not initialize the scenario: '' @
                             error_display e), 2))
      | Inr (d, w) \<Rightarrow>
          (case decode_case from_bytes cd bytes of
             Panic \<Rightarrow> Some Panic
           | Err e \<Rightarrow> Some (Ok (ReportedSkip, 0))
           | Ok q \<Rightarrow>
               (case execute d q w of
                  None \<Rightarrow> None
                | Some (r, w') \<Rightarrow> Some (andThen r (\<lambda>(ex, result). Ok (report_of render result))))))"

section \<open>The verdict on a run\<close>

text \<open>A deployment knows the configuration of every role it has.\<close>

definition roles_configured :: "('l, 'w) deployment \<Rightarrow> bool" where
  "roles_configured d \<longleftrightarrow> (\<forall>r < dep_num_roles d. dep_role_config d r \<noteq> None)"

text \<open>An await that was owed an answer and did not get an acceptable one.\<close>

definition unanswered ::
  "('l, 'w) deployment \<Rightarrow> compiled_program \<Rightarrow> execution \<Rightarrow> nat \<Rightarrow> bool" where
  "unanswered d q ex j \<longleftrightarrow>
     (\<exists>conn s pr spec role config.
        j < length (comp_actions q) \<and>
        comp_actions q ! j = AAwaitSetupResponse conn s pr True \<and>
        violations (comp_metadata q) j = None \<and>
        session_setups (comp_metadata q) s = Some spec \<and>
        connection_roles ex conn = Some role \<and> dep_role_config d role = Some config \<and>
        check config spec True (outcomes ex ! j) \<noteq> Ok ())"

lemma from_program_case_Ok:
  "from_program_case cd p = Ok q \<longleftrightarrow>
   wt_program (prog_context p) (instructions p) \<and> compile cd p = Ok q"
proof -
  have "is_statically_valid p = (Ok True :: (harness_error, bool) outcome) \<longleftrightarrow>
      wt_program (prog_context p) (instructions p)" by (simp add: statically_valid_iff)
  then show ?thesis by (auto simp: from_program_case_def split: if_splits)
qed

lemma run_record:
  assumes "run d q w = Some (Ok ex, w')" and "runnable q"
  shows "length (outcomes ex) = length (comp_actions q)" "HarnessError e \<notin> set (outcomes ex)"
    "connection_roles ex conn = Some role \<Longrightarrow> AConnect conn role \<in> set (comp_actions q)"
  by (rule run_result [OF assms]; fastforce simp: logged_def in_set_conv_nth
      dest: outcome_fits_not_harness)+

lemma check_action_run:
  assumes compiled: "wt_program (prog_context p) (instructions p)" "codec_ok cd" "compile cd p = Ok q"
    and ran: "run d q w = Some (Ok ex, w')"
    and roles: "roles_configured d" "num_roles (comp_context q) \<le> dep_num_roles d"
    and j: "j < length (comp_actions q)"
  shows "check_action d q ex j (comp_actions q ! j) = Pass \<longleftrightarrow> \<not> unanswered d q ex j"
proof (cases "\<exists>conn s pr f. comp_actions q ! j = AAwaitSetupResponse conn s pr f")
  case False
  then show ?thesis by (cases "comp_actions q ! j") (auto simp: check_action_def unanswered_def)
next
  case True
  then obtain conn s pr f where a: "comp_actions q ! j = AAwaitSetupResponse conn s pr f" by blast
  from compiled_runnable(1) [OF compiled] have ok: "runnable q" .
  note len = run_record(1) [OF ran ok] and conns = run_record(3) [OF ran ok]
  have out: "outcome_of ex j = Some (outcomes ex ! j)" using len j by (simp add: outcome_of_def get_def)
  obtain spec where spec: "session_setups (comp_metadata q) s = Some spec"
    using compile_await_logged [OF compiled(3) j a] by blast
  show ?thesis
  proof (cases "connection_roles ex conn")
    case None
    then show ?thesis by (auto simp: check_action_def a out spec unanswered_def)
  next
    case (Some role)
    with conns ok have "role < num_roles (comp_context q)" by (auto simp: runnable_def)
    with roles obtain config where config: "dep_role_config d role = Some config"
      by (fastforce simp: roles_configured_def)
    have "check_action d q ex j (comp_actions q ! j) = Pass \<longleftrightarrow>
        check config spec (owed_at q j f) (outcomes ex ! j) = Ok ()"
      by (cases "check config spec (owed_at q j f) (outcomes ex ! j)")
        (simp_all add: check_action_def a out spec Some config)
    moreover have "check config spec False out = Ok ()" for out by (simp add: check_def)
    moreover have "unanswered d q ex j \<longleftrightarrow>
        owed_at q j f \<and> check config spec (owed_at q j f) (outcomes ex ! j) \<noteq> Ok ()"
      using j by (cases f; cases "violations (comp_metadata q) j")
        (simp_all add: unanswered_def a spec Some config owed_at_def)
    ultimately show ?thesis by (cases "owed_at q j f") simp_all
  qed
qed

lemma evaluate_run:
  assumes compiled: "wt_program (prog_context p) (instructions p)" "codec_ok cd" "compile cd p = Ok q"
    and ran: "run d q w = Some (Ok ex, w')"
    and roles: "roles_configured d" "num_roles (comp_context q) \<le> dep_num_roles d"
  shows "(\<exists>j. unanswered d q ex j) \<longrightarrow>
      (\<exists>role out spec v. evaluate d q ex w' = ScFail ''SetupConnectionOracle'' (BadAnswer role out spec v))"
    and "(\<nexists>j. unanswered d q ex j) \<longrightarrow>
      evaluate d q ex w' = (if dep_is_alive d w' then ScOk else ScFail ''CrashOracle'' StoppedServing)"
proof -
  from compiled_runnable(1) [OF compiled] have ok: "runnable q" .
  note len = run_record(1) [OF ran ok]
  with run_record(2) [OF ran ok] have integrity: "harness_integrity q ex = Pass"
    by (simp add: harness_integrity_def first_harness_error_Pass is_total_def)
  note act = check_action_run [OF assms]
  have pass: "setup_connection_oracle d q ex = Pass \<longleftrightarrow> (\<nexists>j. unanswered d q ex j)"
    using act by (auto simp: setup_connection_oracle_def check_actions_Pass unanswered_def)
  then show "(\<nexists>j. unanswered d q ex j) \<longrightarrow>
      evaluate d q ex w' = (if dep_is_alive d w' then ScOk else ScFail ''CrashOracle'' StoppedServing)"
    using integrity by (auto simp: evaluate_def crash_oracle_def)
  show "(\<exists>j. unanswered d q ex j) \<longrightarrow>
      (\<exists>role out spec v. evaluate d q ex w' = ScFail ''SetupConnectionOracle'' (BadAnswer role out spec v))"
  proof
    assume "\<exists>j. unanswered d q ex j"
    with pass obtain v where v: "setup_connection_oracle d q ex = Fail v"
      by (cases "setup_connection_oracle d q ex") auto
    then obtain j where j: "j < length (comp_actions q)"
      "check_action d q ex j (comp_actions q ! j) = Fail v"
      using check_actions_Fail by (fastforce simp: setup_connection_oracle_def)
    with act [of j] have "unanswered d q ex j" by simp
    then obtain conn s pr spec role config where *:
      "comp_actions q ! j = AAwaitSetupResponse conn s pr True" "violations (comp_metadata q) j = None"
      "session_setups (comp_metadata q) s = Some spec" "connection_roles ex conn = Some role"
      "dep_role_config d role = Some config"
      by (auto simp: unanswered_def)
    with j len have "\<exists>role out spec u. v = BadAnswer role out spec u"
      by (auto simp: check_action_def outcome_of_def get_def split: outcome.splits)
    with v integrity show "\<exists>role out spec v.
        evaluate d q ex w' = ScFail ''SetupConnectionOracle'' (BadAnswer role out spec v)"
      by (auto simp: evaluate_def)
  qed
qed

section \<open>A deployment that never answers\<close>

definition mute_deployment :: "(wire_frame list, nat) deployment" where
  "mute_deployment =
     queue_deployment\<lparr>dep_connect := (\<lambda>conn role w. (if role = 0 then Some [] else None, w))\<rparr>"

definition setup_program :: program where
  "setup_program =
     \<lparr>prog_context = \<lparr>num_roles = 1, num_connections = 0, seed = 0\<rparr>,
      instructions =
        [Instruction (LoadRole 0) [], Instruction Connect [0],
         Instruction BeginBuildSetupConnection [],
         Instruction (EndBuildSetupConnection Mining) [2],
         Instruction (SendSetupConnection Mining) [1, 3]]\<rparr>"

lemma setup_valid: "is_statically_valid setup_program = Ok True"
proof -
  have "is_statically_valid setup_program = (Ok True :: (unit, bool) outcome)" by code_simp
  then show ?thesis by (simp add: statically_valid_iff)
qed

lemmas run_evaluation =
  run_def run_loop.simps run_turn_def new_runner_def perform_connect_def perform_send_def
  perform_await_def pump_def pump_loop.simps default_execution_def default_connection_state_def
  record_outcomes_def response_timeout_def await_outcome_def recorded_response_def Let_def

lemmas verdict_evaluation =
  evaluate_def harness_integrity_def is_total_def setup_connection_oracle_def check_action_def
  outcome_of_def get_def check_def owed_at_def

lemma mute_run:
  obtains q ex w' e where "compile tiny_codec setup_program = Ok q" "comp_context q = prog_context setup_program"
    "run mute_deployment q 0 = Some (Ok ex, w')"
    "evaluate mute_deployment q ex w' = ScFail ''SetupConnectionOracle'' e"
proof -
  have "case compile tiny_codec setup_program of
      Ok q \<Rightarrow> comp_context q = prog_context setup_program \<and>
        comp_actions q = [AConnect 0 0, ASend 0 0 0 False [0, 7], AAwaitSetupResponse 0 0 Mining True] \<and>
        session_setups (comp_metadata q) 0 = Some default_spec \<and>
        violations (comp_metadata q) (Suc (Suc 0)) = None | _ \<Rightarrow> False"
    by (simp add: setup_program_def tiny_codec_def compile_evaluation)
  then obtain q where q: "compile tiny_codec setup_program = Ok q" "comp_context q = prog_context setup_program"
     "comp_actions q = [AConnect 0 0, ASend 0 0 0 False [0, 7], AAwaitSetupResponse 0 0 Mining True]"
      "session_setups (comp_metadata q) 0 = Some default_spec"
      "violations (comp_metadata q) (Suc (Suc 0)) = None"
    by (auto split: outcome.splits)
  have "\<exists>ex w' e. run mute_deployment q 0 = Some (Ok ex, w') \<and>
     evaluate mute_deployment q ex w' = ScFail ''SetupConnectionOracle'' e"
    by (simp add: q run_evaluation verdict_evaluation mute_deployment_def queue_deployment_def)
  with q(1,2) that show ?thesis by blast
qed

text \<open>The verdict of a scenario binary whose role came up.\<close>

lemma scenario_main_result:
  assumes "codec_ok cd" and "drains d backlog" and "roles_configured d"
    and "decode_case from_bytes cd bytes \<noteq> Panic"
  shows "\<exists>rep code. scenario_main render (Inr (d, w)) cd from_bytes bytes = Some (Ok (rep, code)) \<and>
    (case decode_case from_bytes cd bytes of
       Ok q \<Rightarrow>
         (if dep_num_roles d < num_roles (comp_context q) then rep = ReportedSkip \<and> code = 0
          else \<exists>ex w'. run d q w = Some (Ok ex, w') \<and>
            (if (\<exists>j. unanswered d q ex j) \<or> \<not> dep_is_alive d w'
             then code = 1 \<and> (\<exists>text. rep = Reported text) else code = 0 \<and> rep = NoReport))
     | _ \<Rightarrow> rep = ReportedSkip \<and> code = 0)"
proof (cases "decode_case from_bytes cd bytes")
  case (Ok q)
  then obtain p where "from_bytes bytes = Inr p" "from_program_case cd p = Ok q"
    by (auto simp: decode_case_def split: sum.splits)
  then have wt: "wt_program (prog_context p) (instructions p)" and q: "compile cd p = Ok q"
    by (simp_all add: from_program_case_Ok)
  from compiled_runnable(1) [OF wt assms(1) q] have ok: "runnable q" .
  show ?thesis
  proof (cases "dep_num_roles d < num_roles (comp_context q)")
    case True
    with Ok show ?thesis by (simp add: scenario_main_def execute_def)
  next
    case False
    from run_ends [OF assms(2) ok, of w] obtain out w' where out: "run d q w = Some (out, w')" by blast
    from run_result [OF this ok] out obtain ex where ran: "run d q w = Some (Ok ex, w')" by metis
    note verdict = evaluate_run [OF wt assms(1) q ran assms(3)]
    show ?thesis
      using Ok False ran verdict
      by (cases "\<exists>j. unanswered d q ex j"; cases "dep_is_alive d w'")
        (auto simp: scenario_main_def execute_def)
  qed
next
  case (Err e)
  then show ?thesis by (simp add: scenario_main_def)
qed (use assms(4) in simp)

section \<open>Properties\<close>





text \<open>A scenario binary whose role came up decides every input that decodes to something and
  does so with the exit code it documents: 0 without a report for a pass, 0 with a skip for an
  input that is no test case or asks for more roles than there are, 1 for a finding, and never the
  2 of an outage.\<close>

theorem scenario_main_decides:
  assumes "codec_ok cd" and "drains d backlog" and "roles_configured d"
    and "decode_case from_bytes cd bytes \<noteq> Panic"
  shows "\<exists>rep code. scenario_main render (Inr (d, w)) cd from_bytes bytes = Some (Ok (rep, code)) \<and>
    (case decode_case from_bytes cd bytes of
       Ok q \<Rightarrow>
         (if dep_num_roles d < num_roles (comp_context q) then rep = ReportedSkip \<and> code = 0
          else \<exists>ex w'. run d q w = Some (Ok ex, w') \<and>
            (if (\<exists>j. unanswered d q ex j) \<or> \<not> dep_is_alive d w'
             then code = 1 \<and> (\<exists>text. rep = Reported text) else code = 0 \<and> rep = NoReport))
     | _ \<Rightarrow> rep = ReportedSkip \<and> code = 0)"
  by (rule scenario_main_result [OF assms])

theorem scenario_main_decides_witness:
  "\<exists>rep code. scenario_main (\<lambda>_. []) (Inr (queue_deployment, 0)) tiny_codec
     (\<lambda>bytes. Inr demo_program) [] = Some (Ok (rep, code)) \<and> code \<in> {0, 1}"
proof -
  have roles: "roles_configured queue_deployment"
    by (simp add: roles_configured_def queue_deployment_def)
  obtain q where q: "compile tiny_codec demo_program = Ok q" using demo_compiles by metis
  then have dec: "decode_case (\<lambda>bytes. Inr demo_program) tiny_codec [] = Ok q"
    using demo_valid by (simp add: decode_case_def from_program_case_Ok statically_valid_iff)
  then have "decode_case (\<lambda>bytes. Inr demo_program) tiny_codec [] \<noteq> Panic" by simp
  from scenario_main_decides [OF tiny_codec_ok queue_drains roles this, of "\<lambda>_. []" 0] dec
  show ?thesis by (auto split: if_splits)
qed

text \<open>Decoding a test case panics, where it should refuse the input, exactly on a program that
  closes a success block outside any block.\<close>

theorem decoding_panics_iff:
  assumes "codec_ok cd" and "from_bytes bytes = Inr p"
  shows "decode_case from_bytes cd bytes = Panic \<longleftrightarrow>
    (\<exists>pre post. instructions p = pre @ Instruction EndOnSetupSuccess [] # post \<and>
       wt_program (prog_context p) pre)"
proof -
  have "compile cd p \<noteq> Panic" if "wt_program (prog_context p) (instructions p)"
    by (rule compile_valid_cases [OF that assms(1), where b = False]) (auto simp: compile_def)
  moreover have "is_statically_valid p = Ok True \<Longrightarrow> wt_program (prog_context p) (instructions p)"
    by (simp add: statically_valid_iff)
  ultimately have "decode_case from_bytes cd bytes = Panic \<longleftrightarrow>
      is_statically_valid p = (Panic :: (harness_error, bool) outcome)"
    using assms(2) by (auto simp: decode_case_def from_program_case_def split: if_splits)
  then show ?thesis unfolding validity_panics .
qed

theorem decoding_panics_iff_witness:
  "decode_case (\<lambda>bytes. Inr \<lparr>prog_context = \<lparr>num_roles = 1, num_connections = 0, seed = 0\<rparr>,
      instructions = [Instruction EndOnSetupSuccess []]\<rparr>) tiny_codec [] = Panic"
proof -
  have "wt_program \<lparr>num_roles = 1, num_connections = 0, seed = 0\<rparr> []"
    by (auto simp: wt_program_def init_typing_def intro: wt_steps.wt_nil)
  with decoding_panics_iff [OF tiny_codec_ok refl, where bytes = "[]"] show ?thesis by fastforce
qed

end
