(* ===== verification/Filing.thy ===== *)
theory Filing
  imports Scenario
begin

text \<open>
  How the fuzzer files a finding (\<open>stratamoto-libafl/src/feedbacks.rs\<close>): by the cause that the
  scenario's output reports. The output is bytes, here a string. The pattern that \<open>cause_of\<close>
  searches for is written out as a search for its leftmost match. Firing an event is libafl's
  and a parameter, as is the name libafl generates for a test case.
\<close>

section \<open>The cause\<close>

definition is_letter :: "char \<Rightarrow> bool" where
  "is_letter c \<longleftrightarrow> (let n = of_char c :: nat in 65 \<le> n \<and> n \<le> 90 \<or> 97 \<le> n \<and> n \<le> 122)"

definition strip_prefix :: "string \<Rightarrow> string \<Rightarrow> string option" where
  "strip_prefix pre s = (if take (length pre) s = pre then Some (drop (length pre) s) else None)"

definition strip_suffix :: "string \<Rightarrow> string \<Rightarrow> string option" where
  "strip_suffix suf s = map_option rev (strip_prefix (rev suf) (rev s))"

text \<open>A match of \<open>(FAIL|INFRASTRUCTURE): ([A-Za-z]+)\<close> at the beginning of a string: its groups.\<close>

definition match_here :: "string \<Rightarrow> (string \<times> string) option" where
  "match_here s =
     (case List.map_filter (\<lambda>kind. map_option (\<lambda>rest. (kind, takeWhile is_letter rest))
              (strip_prefix (kind @ '': '') s)) [''FAIL'', ''INFRASTRUCTURE''] of
        (kind, name) # _ \<Rightarrow> if name = [] then None else Some (kind, name)
      | [] \<Rightarrow> None)"

fun captures :: "string \<Rightarrow> (string \<times> string) option" where
  "captures [] = None"
| "captures (c # s) =
     (case match_here (c # s) of Some m \<Rightarrow> Some m | None \<Rightarrow> captures s)"

definition to_lower :: "char \<Rightarrow> char" where
  "to_lower c =
     (let n = of_char c :: nat in if 65 \<le> n \<and> n \<le> 90 then char_of (n + 32) else c)"

definition cause_of :: "string \<Rightarrow> string option" where
  "cause_of output =
     (case captures output of
        None \<Rightarrow> None
      | Some (kind, name) \<Rightarrow>
          if kind = ''INFRASTRUCTURE'' then Some ''infrastructure''
          else Some (case strip_suffix ''oracle'' (map to_lower name) of
                       None \<Rightarrow> ''other''
                     | Some s \<Rightarrow> if s = [] then ''other'' else s))"

text \<open>The causes the monitor shows.\<close>

definition monitor_causes :: "string list" where
  "monitor_causes =
     [''setupconnection'', ''crash'', ''harnessintegrity'', ''infrastructure'', ''other'', ''timeout'']"

section \<open>Filing\<close>

text \<open>A test case about to be kept as an objective; its path is a directory and a file name.\<close>

record objective =
  ob_filename :: "string option"
  ob_input :: "program option"
  ob_path :: "(string \<times> string) option"

definition set_filename ::
  "(program \<Rightarrow> string) \<Rightarrow> string \<Rightarrow> string \<Rightarrow> objective \<Rightarrow> (string, objective) outcome" where
  "set_filename gen_name dir pre tc =
     andThen (case ob_filename tc of
         Some f \<Rightarrow> Ok f
       | None \<Rightarrow> (case ob_input tc of None \<Rightarrow> Panic | Some p \<Rightarrow> Ok (gen_name p)))
       (\<lambda>base. Ok (tc\<lparr>ob_path := Some (dir, pre @ ''-'' @ base)\<rparr>))"

type_synonym 'm firing = "string \<Rightarrow> nat \<Rightarrow> 'm \<Rightarrow> (string + unit) \<times> 'm"

record crash_feedback =
  cf_counts :: "string \<rightharpoonup> nat"
  cf_dir :: string

fun fire_counts ::
  "'m firing \<Rightarrow> (string \<rightharpoonup> nat) \<Rightarrow> string list \<Rightarrow> 'm \<Rightarrow> (string + unit) \<times> 'm" where
  "fire_counts fire counts [] m = (Inr (), m)"
| "fire_counts fire counts (cause # rest) m =
     (case fire cause (case counts cause of None \<Rightarrow> 0 | Some n \<Rightarrow> n) m of
        (Inl e, m') \<Rightarrow> (Inl e, m')
      | (Inr _, m') \<Rightarrow> fire_counts fire counts rest m')"

definition count_cause :: "string \<Rightarrow> (string \<rightharpoonup> nat) \<Rightarrow> (string \<rightharpoonup> nat)" where
  "count_cause cause counts =
     counts(cause \<mapsto> (case counts cause of None \<Rightarrow> 0 | Some n \<Rightarrow> n) + 1)"

text \<open>\<open>CrashCauseFeedback::append_metadata\<close>: the observer may be missing, and may hold no output;
  \<open>keys\<close> is the order in which the map yields its keys.\<close>

definition crash_append ::
  "(program \<Rightarrow> string) \<Rightarrow> 'm firing \<Rightarrow> (string set \<Rightarrow> string list) \<Rightarrow> string option option \<Rightarrow>
   crash_feedback \<Rightarrow> objective \<Rightarrow> 'm \<Rightarrow> (string, objective) outcome \<times> crash_feedback \<times> 'm" where
  "crash_append gen_name fire keys observer fb tc m =
     (case observer of
        None \<Rightarrow> (Err ''StdOutObserver is missing'', fb, m)
      | Some output \<Rightarrow>
          (case Option.bind output cause_of of
             None \<Rightarrow> (Ok tc, fb, m)
           | Some cause \<Rightarrow>
               (let counts = count_cause cause (cf_counts fb); fb' = fb\<lparr>cf_counts := counts\<rparr>
                in case fire_counts fire counts (keys (dom counts)) m of
                     (Inl e, m') \<Rightarrow> (Err e, fb', m')
                   | (Inr _, m') \<Rightarrow> (set_filename gen_name (cf_dir fb) cause tc, fb', m'))))"

section \<open>Reports on a log\<close>

text \<open>A line of a log before the report: the search looks at it first, and for nothing else.\<close>

lemma strip_prefix_append:
  assumes "c \<notin> set pre"
  shows "strip_prefix pre (s @ c # t) = map_option (\<lambda>rest. rest @ c # t) (strip_prefix pre s)"
proof (cases "length pre \<le> length s")
  case True
  then show ?thesis by (simp add: strip_prefix_def)
next
  case False
  then have "c \<in> set (take (length pre) (s @ c # t))"
    by (simp add: take_Cons')
  with assms have "take (length pre) (s @ c # t) \<noteq> pre" by metis
  moreover from False have "take (length pre) s \<noteq> pre" by auto
  ultimately show ?thesis by (simp add: strip_prefix_def)
qed

lemma newline_facts [simp]: "newline = [CHR 0x0A]" "\<not> is_letter (CHR 0x0A)"
  by (simp_all add: newline_def is_letter_def char_of_def bit_0)

lemma takeWhile_letters [simp]:
  "takeWhile is_letter (s @ CHR 0x0A # t) = takeWhile is_letter s"
  by (induction s) simp_all

lemma match_here_line: "match_here (s @ CHR 0x0A # t) = match_here s"
  by (simp add: match_here_def strip_prefix_append map_filter_simps option.map_comp comp_def
      split: option.splits)

lemma match_here_Nil [simp]: "match_here [] = None"
  by (simp add: match_here_def strip_prefix_def map_filter_simps)

lemma captures_line:
  "captures (s @ CHR 0x0A # t) = (case captures s of Some m \<Rightarrow> Some m | None \<Rightarrow> captures t)"
proof (induction s)
  case Nil
  then show ?case using match_here_line [of "[]" t] by simp
next
  case (Cons c s)
  then show ?case using match_here_line [of "c # s" t] by (simp split: option.splits)
qed

lemma cause_of_line:
  "cause_of (s @ newline @ t) = (case cause_of s of Some c \<Rightarrow> Some c | None \<Rightarrow> cause_of t)"
  by (simp add: cause_of_def captures_line split: option.splits)

section \<open>The causes of a scenario's reports\<close>

lemma cause_of_reports:
  "cause_of (''FAIL: '' @ ''SetupConnectionOracle'' @ '': '' @ text) = Some ''setupconnection''"
  "cause_of (''FAIL: '' @ ''CrashOracle'' @ '': '' @ text) = Some ''crash''"
  "cause_of (''INFRASTRUCTURE: '' @ ''HarnessIntegrityOracle'' @ '': '' @ text) = Some ''infrastructure''"
  by (simp_all add: cause_of_def match_here_def strip_prefix_def strip_suffix_def map_filter_simps
      is_letter_def to_lower_def of_char_def char_of_def bit_0)

text \<open>Every report a verdict makes is filed under one of three causes, and never under the
  \<open>harnessintegrity\<close> that the monitor also knows.\<close>

lemma reported_causes:
  assumes "report_of render (evaluate d q ex w) = (Reported text, code)"
  shows "cause_of text \<in> {Some ''setupconnection'', Some ''crash'', Some ''infrastructure''}"
  using assms cause_of_reports
  by (auto simp: evaluate_def verdict_text_def split: oracle_result.splits)

lemma fire_counts_ok:
  assumes "\<forall>c n m. \<exists>m'. fire c n m = (Inr (), m')"
  shows "\<exists>m'. fire_counts fire counts causes m = (Inr (), m')"
proof (induction causes arbitrary: m)
  case (Cons c causes)
  obtain m' where "fire c (case counts c of None \<Rightarrow> 0 | Some n \<Rightarrow> n) m = (Inr (), m')"
    using assms by blast
  with Cons show ?case by simp
qed simp

lemma crash_append_files:
  assumes "\<forall>c n m. \<exists>m'. fire c n m = (Inr (), m')" and "cause_of output = Some cause"
    and "ob_filename tc = Some base"
  shows "\<exists>m'. crash_append gen_name fire keys (Some (Some output)) fb tc m =
    (Ok (tc\<lparr>ob_path := Some (cf_dir fb, cause @ ''-'' @ base)\<rparr>),
     fb\<lparr>cf_counts := count_cause cause (cf_counts fb)\<rparr>, m')"
proof -
  let ?counts = "count_cause cause (cf_counts fb)"
  obtain m' where "fire_counts fire ?counts (keys (dom ?counts)) m = (Inr (), m')"
    using fire_counts_ok [OF assms(1)] by blast
  with assms(2, 3) show ?thesis by (simp add: crash_append_def set_filename_def Let_def)
qed

section \<open>Properties\<close>



end
