(* ===== verification/Minimizers.thy ===== *)
theory Minimizers
  imports Program_Ops
begin

text \<open>
  The minimizers of \<open>minimizers/\<close>: cutting, nopping and block removal. Each is a state machine
  with the trait's five operations; \<open>next\<close> is a loop, here a recursive function on the state.
  The contract the stage that drives them relies on is the locale \<open>minimizer\<close>, and each
  minimizer is an interpretation of it.
\<close>

section \<open>The three minimizers\<close>

record cutting =
  cut_program :: program
  cut_candidate :: "program option"
  cut_length :: nat

definition cutting_new :: "program \<Rightarrow> cutting" where
  "cutting_new p =
     \<lparr>cut_program = p, cut_candidate = None, cut_length = length (instructions p) div 2\<rparr>"

definition cutting_success :: "cutting \<Rightarrow> cutting" where
  "cutting_success m =
     (case cut_candidate m of
        None \<Rightarrow> m
      | Some c \<Rightarrow> \<lparr>cut_program = c, cut_candidate = None,
                   cut_length = min (cut_length m) (length (instructions c) div 2)\<rparr>)"

definition cutting_failure :: "cutting \<Rightarrow> cutting" where
  "cutting_failure m = m\<lparr>cut_candidate := None, cut_length := cut_length m div 2\<rparr>"

text \<open>\<open>vec![false; total]\<close> with the flags from the \<open>k\<close>th on set.\<close>

definition marks_from :: "nat \<Rightarrow> nat \<Rightarrow> bool list" where
  "marks_from n k = replicate k False @ replicate (n - k) True"

function cutting_next :: "cutting \<Rightarrow> (unit, program option \<times> cutting) outcome" where
  "cutting_next m =
     (if cut_length m = 0 then Ok (None, m)
      else
        let n = length (instructions (cut_program m)) in
        if n < cut_length m then Panic
        else
          andThen (without (cut_program m) (marks_from n (n - cut_length m))) (\<lambda>candidate.
          andThen (is_statically_valid candidate) (\<lambda>valid.
            if valid then Ok (Some candidate, m\<lparr>cut_candidate := Some candidate\<rparr>)
            else cutting_next (m\<lparr>cut_length := cut_length m div 2\<rparr>))))"
  by auto
termination by (relation "measure cut_length") auto

record nopping =
  nop_program :: program
  nop_candidate :: "program option"
  nop_next :: nat

definition nopping_new :: "program \<Rightarrow> nopping" where
  "nopping_new p = \<lparr>nop_program = p, nop_candidate = None, nop_next = 0\<rparr>"

definition nopping_success :: "nopping \<Rightarrow> nopping" where
  "nopping_success m =
     (case nop_candidate m of
        None \<Rightarrow> m
      | Some c \<Rightarrow> m\<lparr>nop_program := c, nop_candidate := None\<rparr>)"

definition nopping_failure :: "nopping \<Rightarrow> nopping" where
  "nopping_failure m = m\<lparr>nop_candidate := None, nop_next := nop_next m + 1\<rparr>"

definition nopped :: "program \<Rightarrow> nat \<Rightarrow> program" where
  "nopped p k = p\<lparr>instructions := (instructions p)[k := nop (instructions p ! k)]\<rparr>"

function nopping_next :: "nopping \<Rightarrow> (unit, program option \<times> nopping) outcome" where
  "nopping_next m =
     (if nop_next m < length (instructions (nop_program m)) then
        let i = instructions (nop_program m) ! nop_next m;
            skip = m\<lparr>nop_next := nop_next m + 1\<rparr> in
        if \<not> is_noppable i then nopping_next skip
        else if is_nop (operation i) then nopping_next skip
        else
          let candidate = nopped (nop_program m) (nop_next m) in
          andThen (is_statically_valid candidate) (\<lambda>valid.
            if \<not> valid then nopping_next skip
            else Ok (Some candidate, m\<lparr>nop_candidate := Some candidate\<rparr>))
      else Ok (None, m))"
  by auto
termination
  by (relation "measure (\<lambda>m. length (instructions (nop_program m)) - nop_next m)") auto

record block_minimizer =
  blk_program :: program
  blk_candidate :: "program option"
  blk_next :: nat

definition block_new :: "program \<Rightarrow> block_minimizer" where
  "block_new p = \<lparr>blk_program = p, blk_candidate = None, blk_next = 0\<rparr>"

definition block_success :: "block_minimizer \<Rightarrow> block_minimizer" where
  "block_success m =
     (case blk_candidate m of
        None \<Rightarrow> m
      | Some c \<Rightarrow> \<lparr>blk_program = c, blk_candidate = None, blk_next = 0\<rparr>)"

definition block_failure :: "block_minimizer \<Rightarrow> block_minimizer" where
  "block_failure m = m\<lparr>blk_candidate := None, blk_next := blk_next m + 1\<rparr>"

text \<open>The loop of \<open>matching_end\<close>; the subtraction panics when no block is open.\<close>

fun matching_end_from :: "nat \<Rightarrow> nat \<Rightarrow> instruction list \<Rightarrow> (unit, nat option) outcome" where
  "matching_end_from depth k [] = Ok None"
| "matching_end_from depth k (i # ins) =
     (let depth1 = (if is_block_begin (operation i) then depth + 1 else depth) in
      if is_block_end (operation i) then
        (if depth1 = 0 then Panic
         else if depth1 = 1 then Ok (Some k)
         else matching_end_from (depth1 - 1) (k + 1) ins)
      else matching_end_from depth1 (k + 1) ins)"

definition matching_end :: "program \<Rightarrow> nat \<Rightarrow> (unit, nat option) outcome" where
  "matching_end p b = matching_end_from 0 b (drop b (instructions p))"

definition marks_between :: "nat \<Rightarrow> nat \<Rightarrow> nat \<Rightarrow> bool list" where
  "marks_between n b e = map (\<lambda>k. b \<le> k \<and> k \<le> e) [0..<n]"

function block_next :: "block_minimizer \<Rightarrow> (unit, program option \<times> block_minimizer) outcome" where
  "block_next m =
     (if blk_next m < length (instructions (blk_program m)) then
        let p = blk_program m; b = blk_next m;
            skip = m\<lparr>blk_next := blk_next m + 1\<rparr> in
        if \<not> is_block_begin (operation (instructions p ! b)) then block_next skip
        else andThen (matching_end p b) (\<lambda>r.
          case r of
            None \<Rightarrow> block_next skip
          | Some e \<Rightarrow>
              andThen (without p (marks_between (length (instructions p)) b e)) (\<lambda>candidate.
              andThen (is_statically_valid candidate) (\<lambda>valid.
                if valid then Ok (Some candidate, m\<lparr>blk_candidate := Some candidate\<rparr>)
                else block_next skip)))
      else Ok (None, m))"
  by auto
termination
  by (relation "measure (\<lambda>m. length (instructions (blk_program m)) - blk_next m)") auto

declare cutting_next.simps [simp del] nopping_next.simps [simp del] block_next.simps [simp del]

section \<open>Block depth\<close>

text \<open>How many blocks a list of operations opens more than it closes.\<close>

definition depth :: "operation list \<Rightarrow> int" where
  "depth ops = sum_list (map (\<lambda>op. (if is_block_begin op then 1 else 0)
                                  - (if is_block_end op then 1 else 0)) ops)"

definition never_negative :: "operation list \<Rightarrow> bool" where
  "never_negative ops \<longleftrightarrow> (\<forall>k. 0 \<le> depth (take k ops))"

lemma depth_simps [simp]:
  "depth [] = 0" "depth (xs @ ys) = depth xs + depth ys"
  "depth (op # ops) = (if is_block_begin op then 1 else 0) - (if is_block_end op then 1 else 0)
     + depth ops"
  by (simp_all add: depth_def)

lemma wt_step_depth:
  "wt_step ctx t i t' \<Longrightarrow> int (length (frames t')) = int (length (frames t)) + depth [operation i]"
  by (auto elim!: wt_step.cases)

lemma wt_steps_depth:
  "wt_steps ctx t ins t' \<Longrightarrow>
   int (length (frames t')) = int (length (frames t)) + depth (map operation ins)"
  by (induction rule: wt_steps.induct) (auto dest!: wt_step_depth)

lemma wt_steps_frames_ne: "wt_steps ctx t ins t' \<Longrightarrow> frames t \<noteq> [] \<Longrightarrow> frames t' \<noteq> []"
  by (induction rule: wt_steps.induct) (auto dest: wt_step_frames_ne)

lemma wt_steps_never_negative:
  assumes "wt_steps ctx init_typing ins t"
  shows "never_negative (map operation ins)"
  unfolding never_negative_def
proof
  fix k
  have "wt_steps ctx init_typing (take k ins @ drop k ins) t" using assms by simp
  then obtain u where u: "wt_steps ctx init_typing (take k ins) u"
    unfolding wt_steps_append by blast
  from wt_steps_depth [OF u] wt_steps_frames_ne [OF u]
  show "0 \<le> depth (take k (map operation ins))"
    by (cases "frames u") (auto simp: init_typing_def take_map)
qed

text \<open>Such a program is judged without a panic: no success block ends in the global scope.\<close>

lemma validity_decided:
  assumes "never_negative (map operation (instructions p))"
  shows "is_statically_valid p = Ok (wt_program (prog_context p) (instructions p))"
proof -
  have "is_statically_valid p \<noteq> Panic"
  proof
    assume "is_statically_valid p = Panic"
    then have "from_prefix (prog_context p) (instructions p) = Panic"
      using finalize_cases [OF from_prefix_Ok(1)]
      by (auto simp: is_statically_valid_def from_program_def split: outcome.splits if_splits)
    then obtain pre i post t where pre: "instructions p = pre @ i # post" "operation i = EndOnSetupSuccess"
      "wt_steps (prog_context p) init_typing pre t" "length (frames t) = 1"
      by (auto simp: from_prefix_Panic_iff)
    from wt_steps_depth [OF pre(3)] pre(4) have "depth (map operation pre) = 0"
      by (simp add: init_typing_def)
    with assms [unfolded never_negative_def, rule_format, of "Suc (length pre)"] pre(1, 2)
    show False by simp
  qed
  then show ?thesis
    using statically_valid_iff [of p]
    by (cases "is_statically_valid p" rule: outcome.exhaust) (auto simp: is_statically_valid_def split: outcome.splits)
qed

lemma never_negative_take: "never_negative ops \<Longrightarrow> never_negative (take k ops)"
  by (auto simp: never_negative_def)

lemma never_negative_update:
  assumes "never_negative ops" and "k < length ops" and "depth [op] = depth [ops ! k]"
  shows "never_negative (ops[k := op])"
  unfolding never_negative_def
proof
  fix j
  have "depth (take j (ops[k := op])) = depth (take j ops)"
  proof (cases "k < j")
    case True
    with assms(2) have "take j (ops[k := op]) = take k ops @ [op] @ take (j - Suc k) (drop (Suc k) ops)"
      by (simp add: upd_conv_take_nth_drop take_Cons')
    moreover have "take j ops = take k ops @ [ops ! k] @ take (j - Suc k) (drop (Suc k) ops)"
      using True assms(2) by (subst id_take_nth_drop [OF assms(2)]) (simp add: take_Cons')
    ultimately show ?thesis using assms(3) by (simp only: depth_simps)
  qed simp
  with assms(1) show "0 \<le> depth (take j (ops[k := op]))" by (simp add: never_negative_def)
qed

lemma never_negative_cut:
  assumes "never_negative (xs @ ys @ zs)" and "depth ys = 0"
  shows "never_negative (xs @ zs)"
  unfolding never_negative_def
proof
  fix k
  have 1: "0 \<le> depth (take k (xs @ ys @ zs))" and 2: "0 \<le> depth (take (k + length ys) (xs @ ys @ zs))"
    using assms(1) unfolding never_negative_def by blast+
  show "0 \<le> depth (take k (xs @ zs))"
  proof (cases "k \<le> length xs")
    case True
    with 1 show ?thesis by simp
  next
    case False
    with 2 assms(2) show ?thesis by simp
  qed
qed

section \<open>Dropping instructions of a valid program\<close>

abbreviation valid_program :: "program \<Rightarrow> bool" where
  "valid_program p \<equiv> wt_program (prog_context p) (instructions p)"

lemma with_marks_zip: "length remove = length ins \<Longrightarrow> with_marks remove ins = zip remove ins"
  by (rule nth_equalityI) (auto simp: with_marks_def marked_def nth_enumerate_eq get_def)

lemma kept_of_append [simp]: "kept_of (xs @ ys) = kept_of xs @ kept_of ys"
  by (simp add: kept_of_def)

lemma kept_of_replicate [simp]:
  "kept_of (zip (replicate n False) xs) = take n xs" "kept_of (zip (replicate n True) xs) = []"
  by (induction n arbitrary: xs; case_tac xs; simp)+

lemma kept_of_marks_from:
  "k \<le> length ins \<Longrightarrow> kept_of (with_marks (marks_from (length ins) k) ins) = take k ins"
  by (simp add: with_marks_zip marks_from_def zip_append1)

lemma marks_between_eq:
  "b \<le> e \<Longrightarrow> e < n \<Longrightarrow>
   marks_between n b e =
     replicate b False @ replicate (Suc e - b) True @ replicate (n - Suc e) False"
  by (rule nth_equalityI) (auto simp: marks_between_def nth_append)

lemma kept_of_marks_between:
  "b \<le> e \<Longrightarrow> e < length ins \<Longrightarrow>
   kept_of (with_marks (marks_between (length ins) b e) ins) = take b ins @ drop (Suc e) ins"
  by (simp add: with_marks_zip marks_between_eq zip_append1 marks_between_def [symmetric])

text \<open>Dropping instructions of a valid program gives those that stay, renumbered.\<close>

lemma without_valid:
  assumes "valid_program p"
  obtains f where "without p remove =
    Ok \<lparr>prog_context = prog_context p,
        instructions = map (rename_inputs f) (kept_of (with_marks remove (instructions p)))\<rparr>"
  using wt_program_end [OF assms] without_Ok [of p _ remove] by (metis (no_types, lifting))

lemma valid_never_negative: "valid_program p \<Longrightarrow> never_negative (map operation (instructions p))"
  by (auto elim!: wt_program_end dest: wt_steps_never_negative)

section \<open>The contract\<close>

text \<open>
  The trait, as a record, and what a driver may rely on: \<open>next\<close> returns, leaves the current
  program alone, and proposes valid, smaller candidates for the same deployment; \<open>success\<close> adopts the
  candidate, \<open>failure\<close> does not; each answer uses up some of the work left, and asking again
  without an answer proposes the same candidate.
\<close>

record 'm minimizer_ops =
  mz_new :: "program \<Rightarrow> 'm"
  mz_next :: "'m \<Rightarrow> (unit, program option \<times> 'm) outcome"
  mz_success :: "'m \<Rightarrow> 'm"
  mz_failure :: "'m \<Rightarrow> 'm"
  mz_current :: "'m \<Rightarrow> program"

definition nopping_left :: "program \<Rightarrow> nat" where
  "nopping_left p = length (filter (Not \<circ> is_nop \<circ> operation) (instructions p))"

text \<open>A program is smaller than another when it has fewer instructions, or as many and fewer of
  them are not nops.\<close>

definition smaller :: "program \<Rightarrow> program \<Rightarrow> bool" where
  "smaller q p \<longleftrightarrow>
     length (instructions q) < length (instructions p) \<or>
     length (instructions q) = length (instructions p) \<and> nopping_left q < nopping_left p"

lemma smaller_trans: "smaller r q \<Longrightarrow> smaller q p \<Longrightarrow> smaller r p"
  by (auto simp: smaller_def)

lemma smaller_induct:
  assumes "\<And>p. (\<And>q. smaller q p \<Longrightarrow> P q) \<Longrightarrow> P p"
  shows "P p"
proof (induction p rule: wf_induct [OF wf_measures [of "[length \<circ> instructions, nopping_left]"]])
  case (1 p)
  show ?case by (rule assms) (use 1 in \<open>auto simp: smaller_def\<close>)
qed

locale minimizer =
  fixes ops :: "'m minimizer_ops" and inv :: "'m \<Rightarrow> bool" and work :: "'m \<Rightarrow> nat"
  assumes new_inv: "valid_program p \<Longrightarrow> inv (mz_new ops p)"
    and new_current: "mz_current ops (mz_new ops p) = p"
    and inv_valid: "inv m \<Longrightarrow> valid_program (mz_current ops m)"
    and next_returns: "inv m \<Longrightarrow> \<exists>r m'. mz_next ops m = Ok (r, m')"
    and next_keeps: "inv m \<Longrightarrow> mz_next ops m = Ok (r, m') \<Longrightarrow>
      inv m' \<and> mz_current ops m' = mz_current ops m \<and> work m' \<le> work m"
    and next_valid: "inv m \<Longrightarrow> mz_next ops m = Ok (Some q, m') \<Longrightarrow>
      valid_program q \<and> prog_context q = prog_context (mz_current ops m)"
    and next_success: "inv m \<Longrightarrow> mz_next ops m = Ok (Some q, m') \<Longrightarrow>
      inv (mz_success ops m') \<and> mz_current ops (mz_success ops m') = q \<and>
      work (mz_success ops m') < work m'"
    and next_failure: "inv m \<Longrightarrow> mz_next ops m = Ok (Some q, m') \<Longrightarrow>
      inv (mz_failure ops m') \<and> mz_current ops (mz_failure ops m') = mz_current ops m \<and>
      work (mz_failure ops m') < work m'"
    and next_smaller: "inv m \<Longrightarrow> mz_next ops m = Ok (Some q, m') \<Longrightarrow> smaller q (mz_current ops m)"
    and next_again: "inv m \<Longrightarrow> mz_next ops m = Ok (Some q, m') \<Longrightarrow> mz_next ops m' = Ok (Some q, m')"

section \<open>Cutting\<close>

definition cutting_ops :: "cutting minimizer_ops" where
  "cutting_ops = \<lparr>mz_new = cutting_new, mz_next = cutting_next, mz_success = cutting_success,
     mz_failure = cutting_failure, mz_current = cut_program\<rparr>"

definition cutting_inv :: "cutting \<Rightarrow> bool" where
  "cutting_inv m \<longleftrightarrow>
     valid_program (cut_program m) \<and> cut_length m \<le> length (instructions (cut_program m))"

definition cutting_work :: "cutting \<Rightarrow> nat" where
  "cutting_work m = length (instructions (cut_program m)) + cut_length m"

text \<open>The candidate is the program's prefix: a prefix of a valid program is judged without a
  panic.\<close>

lemma cutting_candidate:
  assumes "cutting_inv m"
  obtains q where
    "without (cut_program m) (marks_from (length (instructions (cut_program m)))
       (length (instructions (cut_program m)) - cut_length m)) = (Ok q :: (unit, program) outcome)"
    "is_statically_valid q = (Ok (valid_program q) :: (unit, bool) outcome)"
    "prog_context q = prog_context (cut_program m)"
    "length (instructions q) = length (instructions (cut_program m)) - cut_length m"
proof -
  let ?p = "cut_program m"
  let ?n = "length (instructions ?p)"
  have v: "valid_program ?p" using assms by (simp add: cutting_inv_def)
  obtain f where w: "without ?p (marks_from ?n (?n - cut_length m)) =
      (Ok \<lparr>prog_context = prog_context ?p,
           instructions = map (rename_inputs f) (take (?n - cut_length m) (instructions ?p))\<rparr>
         :: (unit, program) outcome)"
    (is "_ = Ok ?q")
    using without_valid [OF v, of "marks_from ?n (?n - cut_length m)"]
      kept_of_marks_from [of "?n - cut_length m" "instructions ?p"] by auto
  have "never_negative (map operation (instructions ?q))"
    using never_negative_take [OF valid_never_negative [OF v]] by (simp add: take_map comp_def)
  from that [OF w validity_decided [OF this]] show ?thesis by simp
qed

lemma cutting_next_cases:
  assumes "cutting_inv m"
  shows "(\<exists>m'. cutting_next m = Ok (None, m') \<and> cutting_inv m' \<and>
             cut_program m' = cut_program m \<and> cut_length m' \<le> cut_length m) \<or>
    (\<exists>q m'. cutting_next m = Ok (Some q, m') \<and> cutting_inv m' \<and>
       cut_program m' = cut_program m \<and> cut_length m' \<le> cut_length m \<and> 0 < cut_length m' \<and>
       cut_candidate m' = Some q \<and> valid_program q \<and> prog_context q = prog_context (cut_program m) \<and>
       length (instructions q) < length (instructions (cut_program m)) \<and>
       cutting_next m' = Ok (Some q, m'))"
  using assms
proof (induction "cut_length m" arbitrary: m rule: less_induct)
  case (less m)
  show ?case
  proof (cases "cut_length m = 0")
    case True
    then show ?thesis using less.prems by (simp add: cutting_next.simps)
  next
    case False
    let ?n = "length (instructions (cut_program m))"
    have len: "cut_length m \<le> ?n" using less.prems by (simp add: cutting_inv_def)
    obtain q where
      q: "without (cut_program m) (marks_from ?n (?n - cut_length m)) = (Ok q :: (unit, program) outcome)"
      "is_statically_valid q = (Ok (valid_program q) :: (unit, bool) outcome)" "prog_context q = prog_context (cut_program m)"
      "length (instructions q) = ?n - cut_length m"
      using cutting_candidate [OF less.prems] by blast
    let ?half = "m\<lparr>cut_length := cut_length m div 2\<rparr>"
    have eq: "cutting_next m = (if valid_program q
        then Ok (Some q, m\<lparr>cut_candidate := Some q\<rparr>) else cutting_next ?half)"
      using False len q(1, 2) by (subst cutting_next.simps) (simp add: Let_def)
    have again: "valid_program q \<Longrightarrow> cutting_next (m\<lparr>cut_candidate := Some q\<rparr>) =
        Ok (Some q, m\<lparr>cut_candidate := Some q\<rparr>)"
      using False len q(1, 2) by (subst cutting_next.simps) (simp add: Let_def)
    show ?thesis
    proof (cases "valid_program q")
      case True
      with eq q len False less.prems again show ?thesis by (auto simp: cutting_inv_def)
    next
      case invalid: False
      have "cutting_inv ?half" using less.prems by (auto simp: cutting_inv_def)
      from less.hyps [OF _ this] False invalid eq show ?thesis by fastforce
    qed
  qed
qed

interpretation cutting: minimizer cutting_ops cutting_inv cutting_work
proof
  fix m r m' q
  assume inv: "cutting_inv m"
  from cutting_next_cases [OF inv] show "\<exists>r m'. mz_next cutting_ops m = Ok (r, m')"
    by (auto simp: cutting_ops_def)
  {
    assume "mz_next cutting_ops m = Ok (r, m')"
    then show "cutting_inv m' \<and> mz_current cutting_ops m' = mz_current cutting_ops m \<and>
        cutting_work m' \<le> cutting_work m"
      using cutting_next_cases [OF inv] by (auto simp: cutting_ops_def cutting_work_def)
  }
  assume nx: "mz_next cutting_ops m = Ok (Some q, m')"
  then have *: "cutting_inv m'" "cut_program m' = cut_program m" "0 < cut_length m'"
    "cut_candidate m' = Some q" "valid_program q" "prog_context q = prog_context (cut_program m)"
    "length (instructions q) < length (instructions (cut_program m))"
    "cutting_next m' = Ok (Some q, m')"
    using cutting_next_cases [OF inv] by (auto simp: cutting_ops_def)
  from * show "mz_next cutting_ops m' = Ok (Some q, m')" by (simp add: cutting_ops_def)
  from * show "smaller q (mz_current cutting_ops m)" by (simp add: cutting_ops_def smaller_def)
  from * show "valid_program q \<and> prog_context q = prog_context (mz_current cutting_ops m)"
    by (simp add: cutting_ops_def)
  from * show "cutting_inv (mz_success cutting_ops m') \<and>
      mz_current cutting_ops (mz_success cutting_ops m') = q \<and>
      cutting_work (mz_success cutting_ops m') < cutting_work m'"
    by (auto simp: cutting_ops_def cutting_success_def cutting_inv_def cutting_work_def)
  from * show "cutting_inv (mz_failure cutting_ops m') \<and>
      mz_current cutting_ops (mz_failure cutting_ops m') = mz_current cutting_ops m \<and>
      cutting_work (mz_failure cutting_ops m') < cutting_work m'"
    by (auto simp: cutting_ops_def cutting_failure_def cutting_inv_def cutting_work_def)
qed (auto simp: cutting_ops_def cutting_inv_def cutting_new_def)

section \<open>Nopping\<close>

definition nopping_ops :: "nopping minimizer_ops" where
  "nopping_ops = \<lparr>mz_new = nopping_new, mz_next = nopping_next, mz_success = nopping_success,
     mz_failure = nopping_failure, mz_current = nop_program\<rparr>"

definition nopping_inv :: "nopping \<Rightarrow> bool" where
  "nopping_inv m \<longleftrightarrow> valid_program (nop_program m)"

definition nopping_work :: "nopping \<Rightarrow> nat" where
  "nopping_work m =
     nopping_left (nop_program m) + (length (instructions (nop_program m)) - nop_next m)"

lemma nopped_decided:
  assumes "valid_program p" and "k < length (instructions p)" and "is_noppable (instructions p ! k)"
  shows "is_statically_valid (nopped p k) = (Ok (valid_program (nopped p k)) :: (unit, bool) outcome)"
proof -
  have "never_negative ((map operation (instructions p))[k := operation (nop (instructions p ! k))])"
    by (rule never_negative_update [OF valid_never_negative [OF assms(1)]])
      (use assms(2, 3) in \<open>auto simp: is_noppable_def\<close>)
  then have "never_negative (map operation (instructions (nopped p k)))"
    by (simp add: nopped_def map_update)
  from validity_decided [OF this] show ?thesis .
qed

lemma filter_update_less:
  "k < length xs \<Longrightarrow> P (xs ! k) \<Longrightarrow> \<not> P y \<Longrightarrow> length (filter P (xs[k := y])) < length (filter P xs)"
  by (subst (2) id_take_nth_drop [of k xs]) (auto simp: upd_conv_take_nth_drop)

lemma nopped_left:
  "k < length (instructions p) \<Longrightarrow> \<not> is_nop (operation (instructions p ! k)) \<Longrightarrow>
   nopping_left (nopped p k) < nopping_left p"
  unfolding nopping_left_def nopped_def by (simp add: filter_update_less)

lemma nopping_next_cases:
  assumes "nopping_inv m"
  shows "(\<exists>m'. nopping_next m = Ok (None, m') \<and> nopping_inv m' \<and>
             nop_program m' = nop_program m \<and> nop_next m \<le> nop_next m') \<or>
    (\<exists>q m'. nopping_next m = Ok (Some q, m') \<and> nopping_inv m' \<and>
       nop_program m' = nop_program m \<and> nop_next m \<le> nop_next m' \<and>
       nop_next m' < length (instructions (nop_program m)) \<and>
       nop_candidate m' = Some q \<and> valid_program q \<and> q = nopped (nop_program m) (nop_next m') \<and>
       \<not> is_nop (operation (instructions (nop_program m) ! nop_next m')) \<and>
       nopping_next m' = Ok (Some q, m'))"
  using assms
proof (induction "length (instructions (nop_program m)) - nop_next m" arbitrary: m rule: less_induct)
  case (less m)
  let ?p = "nop_program m" and ?k = "nop_next m"
  let ?i = "instructions ?p ! ?k" and ?skip = "m\<lparr>nop_next := nop_next m + 1\<rparr>"
  show ?case
  proof (cases "?k < length (instructions ?p)")
    case False
    then show ?thesis using less.prems by (simp add: nopping_next.simps)
  next
    case True
    have inv: "nopping_inv ?skip" and v: "valid_program ?p"
      using less.prems by (simp_all add: nopping_inv_def)
    show ?thesis
    proof (cases "is_noppable ?i \<and> \<not> is_nop (operation ?i) \<and> valid_program (nopped ?p ?k)")
      case True
      then have "nopping_next m = Ok (Some (nopped ?p ?k), m\<lparr>nop_candidate := Some (nopped ?p ?k)\<rparr>)"
        using \<open>?k < _\<close> nopped_decided [OF v \<open>?k < _\<close>]
        by (subst nopping_next.simps) (simp add: Let_def)
      moreover from True have "nopping_next (m\<lparr>nop_candidate := Some (nopped ?p ?k)\<rparr>) =
          Ok (Some (nopped ?p ?k), m\<lparr>nop_candidate := Some (nopped ?p ?k)\<rparr>)"
        using \<open>?k < _\<close> nopped_decided [OF v \<open>?k < _\<close>]
        by (subst nopping_next.simps) (simp add: Let_def)
      ultimately show ?thesis using True \<open>?k < _\<close> less.prems by (auto simp: nopping_inv_def)
    next
      case False
      then have "nopping_next m = nopping_next ?skip"
        using \<open>?k < _\<close> nopped_decided [OF v \<open>?k < _\<close>]
        by (subst nopping_next.simps) (auto simp: Let_def)
      moreover have "length (instructions (nop_program ?skip)) - nop_next ?skip
          < length (instructions ?p) - ?k" using \<open>?k < _\<close> by simp
      ultimately show ?thesis using less.hyps [OF _ inv] by fastforce
    qed
  qed
qed

interpretation nopping: minimizer nopping_ops nopping_inv nopping_work
proof
  fix m r m' q
  assume inv: "nopping_inv m"
  from nopping_next_cases [OF inv] show "\<exists>r m'. mz_next nopping_ops m = Ok (r, m')"
    by (auto simp: nopping_ops_def)
  {
    assume "mz_next nopping_ops m = Ok (r, m')"
    then show "nopping_inv m' \<and> mz_current nopping_ops m' = mz_current nopping_ops m \<and>
        nopping_work m' \<le> nopping_work m"
      using nopping_next_cases [OF inv] by (auto simp: nopping_ops_def nopping_work_def)
  }
  assume nx: "mz_next nopping_ops m = Ok (Some q, m')"
  then have *: "nopping_inv m'" "nop_program m' = nop_program m"
    "nop_next m' < length (instructions (nop_program m))" "nop_candidate m' = Some q"
    "valid_program q" "q = nopped (nop_program m) (nop_next m')"
    "\<not> is_nop (operation (instructions (nop_program m) ! nop_next m'))"
    "nopping_next m' = Ok (Some q, m')"
    using nopping_next_cases [OF inv] by (auto simp: nopping_ops_def)
  from * show "mz_next nopping_ops m' = Ok (Some q, m')" by (simp add: nopping_ops_def)
  show "smaller q (mz_current nopping_ops m)"
    unfolding *(6) nopping_ops_def using nopped_left [OF *(3, 7)] by (simp add: smaller_def nopped_def)
  have ctx: "prog_context q = prog_context (nop_program m)"
    and len: "length (instructions q) = length (instructions (nop_program m))"
    using *(6) by (simp_all add: nopped_def)
  from * ctx show "valid_program q \<and> prog_context q = prog_context (mz_current nopping_ops m)"
    by (simp add: nopping_ops_def)
  from * len nopped_left [OF *(3, 7)] show "nopping_inv (mz_success nopping_ops m') \<and>
      mz_current nopping_ops (mz_success nopping_ops m') = q \<and>
      nopping_work (mz_success nopping_ops m') < nopping_work m'"
    by (simp add: nopping_ops_def nopping_success_def nopping_inv_def nopping_work_def)
  from * show "nopping_inv (mz_failure nopping_ops m') \<and>
      mz_current nopping_ops (mz_failure nopping_ops m') = mz_current nopping_ops m \<and>
      nopping_work (mz_failure nopping_ops m') < nopping_work m'"
    by (simp add: nopping_ops_def nopping_failure_def nopping_inv_def nopping_work_def)
qed (auto simp: nopping_ops_def nopping_inv_def nopping_new_def)

section \<open>Removing blocks\<close>

definition block_ops :: "block_minimizer minimizer_ops" where
  "block_ops = \<lparr>mz_new = block_new, mz_next = block_next, mz_success = block_success,
     mz_failure = block_failure, mz_current = blk_program\<rparr>"

definition block_inv :: "block_minimizer \<Rightarrow> bool" where
  "block_inv m \<longleftrightarrow> valid_program (blk_program m)"

definition block_work :: "block_minimizer \<Rightarrow> nat" where
  "block_work m = (let n = length (instructions (blk_program m)) in n * n + n + (n - blk_next m))"

text \<open>What \<open>matching_end\<close> finds: the first place where the blocks opened since are closed.\<close>

lemma matching_end_from_Some:
  "matching_end_from d k ins = Ok (Some e) \<Longrightarrow>
   k \<le> e \<and> e < k + length ins \<and> int d + depth (map operation (take (Suc e - k) ins)) = 0"
proof (induction d k ins rule: matching_end_from.induct)
  case (2 d k i ins)
  let ?d = "if is_block_begin (operation i) then d + 1 else d"
  show ?case
  proof (cases "is_block_end (operation i)")
    case False
    with 2(2, 3) have "Suc k \<le> e \<and> e < Suc k + length ins \<and>
        int ?d + depth (map operation (take (Suc e - Suc k) ins)) = 0"
      by (auto simp: Let_def)
    with False show ?thesis by (auto simp: Suc_diff_le split: if_splits)
  next
    case True
    show ?thesis
    proof (cases "?d = 1")
      case True
      with 2(3) \<open>is_block_end _\<close> show ?thesis by (auto split: if_splits)
    next
      case False
      with 2(1, 3) True have "Suc k \<le> e \<and> e < Suc k + length ins \<and>
          int (?d - 1) + depth (map operation (take (Suc e - Suc k) ins)) = 0" and "?d \<noteq> 0"
        by (auto simp: Let_def split: if_splits)
      with True show ?thesis by (auto simp: Suc_diff_le split: if_splits)
    qed
  qed
qed simp

lemma matching_end_from_open:
  "0 < d \<Longrightarrow> matching_end_from d k ins \<noteq> Panic \<and> (\<forall>u. matching_end_from d k ins \<noteq> Err u)"
  by (induction d k ins rule: matching_end_from.induct) (auto simp: Let_def)

lemma matching_end_returns:
  assumes "b < length (instructions p)" and "is_block_begin (operation (instructions p ! b))"
  obtains "matching_end p b = Ok None"
  | e where "matching_end p b = Ok (Some e)" "b \<le> e" "e < length (instructions p)"
    "depth (map operation (take (Suc e - b) (drop b (instructions p)))) = 0"
proof -
  have drop: "drop b (instructions p) = instructions p ! b # drop (Suc b) (instructions p)"
    using assms(1) by (simp add: Cons_nth_drop_Suc)
  have "matching_end p b = matching_end_from 1 (Suc b) (drop (Suc b) (instructions p))"
    using assms(2) by (simp add: matching_end_def drop)
  with matching_end_from_open [of 1] have "\<exists>r. matching_end p b = Ok r"
    by (metis outcome.exhaust zero_less_one)
  then obtain r where r: "matching_end p b = Ok r" ..
  show ?thesis
  proof (cases r)
    case (Some e)
    with r matching_end_from_Some [of 0 b "drop b (instructions p)" e] assms(1)
    show ?thesis by (intro that(2) [of e]) (auto simp: matching_end_def)
  qed (use r that(1) in simp)
qed

lemma block_candidate:
  assumes "valid_program p" and "b \<le> e" and "e < length (instructions p)"
    and "depth (map operation (take (Suc e - b) (drop b (instructions p)))) = 0"
  obtains q where
    "without p (marks_between (length (instructions p)) b e) = (Ok q :: (unit, program) outcome)"
    "is_statically_valid q = (Ok (valid_program q) :: (unit, bool) outcome)"
    "prog_context q = prog_context p" "length (instructions q) < length (instructions p)"
    "map operation (instructions q) =
       map operation (take b (instructions p)) @ map operation (drop (Suc e) (instructions p))"
proof -
  let ?n = "length (instructions p)" and ?ins = "instructions p"
  obtain f where w: "without p (marks_between ?n b e) =
      (Ok \<lparr>prog_context = prog_context p,
           instructions = map (rename_inputs f) (take b ?ins @ drop (Suc e) ?ins)\<rparr>
         :: (unit, program) outcome)" (is "_ = Ok ?q")
    using without_valid [OF assms(1), of "marks_between ?n b e"]
      kept_of_marks_between [OF assms(2, 3)] by auto
  have "?ins = take b ?ins @ take (Suc e - b) (drop b ?ins) @ drop (Suc e) ?ins"
    using assms(2) append_take_drop_id [of "Suc e - b" "drop b ?ins"] by simp
  then have "map operation ?ins = map operation (take b ?ins) @
      map operation (take (Suc e - b) (drop b ?ins)) @ map operation (drop (Suc e) ?ins)"
    by (metis map_append)
  with valid_never_negative [OF assms(1)] assms(4)
  have "never_negative (map operation (take b ?ins) @ map operation (drop (Suc e) ?ins))"
    using never_negative_cut by metis
  then have "never_negative (map operation (instructions ?q))" by (simp add: comp_def)
  from that [OF w validity_decided [OF this]] assms(2, 3) show ?thesis by (simp add: comp_def)
qed

lemma block_next_cases:
  assumes "block_inv m"
  shows "(\<exists>m'. block_next m = Ok (None, m') \<and> block_inv m' \<and>
             blk_program m' = blk_program m \<and> blk_next m \<le> blk_next m') \<or>
    (\<exists>q m'. block_next m = Ok (Some q, m') \<and> block_inv m' \<and>
       blk_program m' = blk_program m \<and> blk_next m \<le> blk_next m' \<and>
       blk_next m' < length (instructions (blk_program m)) \<and>
       blk_candidate m' = Some q \<and> valid_program q \<and> prog_context q = prog_context (blk_program m) \<and>
       length (instructions q) < length (instructions (blk_program m)) \<and>
       block_next m' = Ok (Some q, m'))"
  using assms
proof (induction "length (instructions (blk_program m)) - blk_next m" arbitrary: m rule: less_induct)
  case (less m)
  let ?p = "blk_program m" and ?b = "blk_next m"
  let ?skip = "m\<lparr>blk_next := blk_next m + 1\<rparr>"
  show ?case
  proof (cases "?b < length (instructions ?p)")
    case False
    then show ?thesis using less.prems by (simp add: block_next.simps)
  next
    case lt: True
    have v: "valid_program ?p" and inv: "block_inv ?skip"
      using less.prems by (simp_all add: block_inv_def)
    have on: ?thesis if "block_next m = block_next ?skip"
    proof -
      have "length (instructions (blk_program ?skip)) - blk_next ?skip
          < length (instructions ?p) - ?b" using lt by simp
      from less.hyps [OF this inv] that show ?thesis by fastforce
    qed
    show ?thesis
    proof (cases "is_block_begin (operation (instructions ?p ! ?b))")
      case False
      with lt show ?thesis by (intro on) (subst block_next.simps, simp)
    next
      case True
      from lt True show ?thesis
      proof (cases rule: matching_end_returns)
        case 1
        with lt True show ?thesis by (intro on) (subst block_next.simps, simp)
      next
        case (2 e)
        obtain q where q: "without ?p (marks_between (length (instructions ?p)) ?b e) =
            (Ok q :: (unit, program) outcome)"
          "is_statically_valid q = (Ok (valid_program q) :: (unit, bool) outcome)"
          "prog_context q = prog_context ?p" "length (instructions q) < length (instructions ?p)"
          using block_candidate [OF v 2(2-4)] by blast
        have "block_next m = (if valid_program q
            then Ok (Some q, m\<lparr>blk_candidate := Some q\<rparr>) else block_next ?skip)"
          using lt True 2(1) q(1, 2) by (subst block_next.simps) (simp add: Let_def)
        moreover have "valid_program q \<Longrightarrow> block_next (m\<lparr>blk_candidate := Some q\<rparr>) =
            Ok (Some q, m\<lparr>blk_candidate := Some q\<rparr>)"
          using lt True 2(1) q(1, 2) by (subst block_next.simps) (simp add: Let_def)
        ultimately show ?thesis
          using on q less.prems lt by (cases "valid_program q") (auto simp: block_inv_def)
      qed
    qed
  qed
qed

lemma block_work_shrinks:
  fixes n k j :: nat
  assumes "k < n"
  shows "k * k + k + k < n * n + n + j"
proof -
  from assms have "k * k \<le> n * n" "2 * k < n + n"
    by (auto intro: mult_le_mono)
  moreover from assms have "k * k + k \<le> n * k" by (metis Suc_leI add.commute mult_Suc mult_le_mono1)
  moreover from assms have "n * k + n \<le> n * n" by (metis Suc_leI add.commute mult_Suc_right mult_le_mono2)
  ultimately show ?thesis using assms by linarith
qed

interpretation block: minimizer block_ops block_inv block_work
proof
  fix m r m' q
  assume inv: "block_inv m"
  from block_next_cases [OF inv] show "\<exists>r m'. mz_next block_ops m = Ok (r, m')"
    by (auto simp: block_ops_def)
  {
    assume "mz_next block_ops m = Ok (r, m')"
    then show "block_inv m' \<and> mz_current block_ops m' = mz_current block_ops m \<and>
        block_work m' \<le> block_work m"
      using block_next_cases [OF inv] by (auto simp: block_ops_def block_work_def Let_def)
  }
  assume nx: "mz_next block_ops m = Ok (Some q, m')"
  then have *: "block_inv m'" "blk_program m' = blk_program m"
    "blk_next m' < length (instructions (blk_program m))"
    "blk_candidate m' = Some q" "valid_program q" "prog_context q = prog_context (blk_program m)"
    "length (instructions q) < length (instructions (blk_program m))"
    "block_next m' = Ok (Some q, m')"
    using block_next_cases [OF inv] by (auto simp: block_ops_def)
  from * show "mz_next block_ops m' = Ok (Some q, m')" by (simp add: block_ops_def)
  from * show "smaller q (mz_current block_ops m)" by (simp add: block_ops_def smaller_def)
  from * show "valid_program q \<and> prog_context q = prog_context (mz_current block_ops m)"
    by (simp add: block_ops_def)
  from * block_work_shrinks [OF *(7), of "length (instructions (blk_program m)) - blk_next m'"] show "block_inv (mz_success block_ops m') \<and>
      mz_current block_ops (mz_success block_ops m') = q \<and>
      block_work (mz_success block_ops m') < block_work m'"
    by (simp add: block_ops_def block_success_def block_inv_def block_work_def Let_def)
  from * show "block_inv (mz_failure block_ops m') \<and>
      mz_current block_ops (mz_failure block_ops m') = mz_current block_ops m \<and>
      block_work (mz_failure block_ops m') < block_work m'"
    by (auto simp: block_ops_def block_failure_def block_inv_def block_work_def Let_def)
qed (auto simp: block_ops_def block_inv_def block_new_def)

section \<open>When a nop is harmless\<close>

text \<open>The typing state without some variables.\<close>

definition hide :: "nat set \<Rightarrow> typing_state \<Rightarrow> typing_state" where
  "hide S t = t\<lparr>frames := map (\<lambda>(b, F). (b, {x \<in> F. fst x \<notin> S})) (frames t)\<rparr>"

lemma hide_simps [simp]:
  "next_var (hide S t) = next_var t" "length (frames (hide S t)) = length (frames t)"
  by (simp_all add: hide_def)

lemma in_scope_hide: "in_scope (frames (hide S t)) x v \<longleftrightarrow> in_scope (frames t) x v \<and> x \<notin> S"
  by (force simp: in_scope_def hide_def)

lemma wt_inputs_hide:
  "wt_inputs (frames (hide S t)) i \<longleftrightarrow> wt_inputs (frames t) i \<and> set (inputs i) \<inter> S = {}"
proof -
  have "(\<forall>k < length (inputs i). inputs i ! k \<notin> S) \<longleftrightarrow> set (inputs i) \<inter> S = {}"
    unfolding disjoint_iff by (metis in_set_conv_nth)
  then show ?thesis by (auto simp: wt_inputs_def list_all2_conv_all_nth in_scope_hide)
qed

lemma hide_new:
  assumes "\<forall>x \<in> S. x < n"
  shows "{x \<in> outer_vars n op. fst x \<notin> S} = outer_vars n op"
    "{x \<in> inner_vars n op. fst x \<notin> S} = inner_vars n op"
  using assms by (fastforce dest: outer_vars_bounds inner_vars_bounds)+

lemma wt_step_hide:
  assumes "wt_step ctx t i t'" and "\<forall>x \<in> S. x < next_var t" and "set (inputs i) \<inter> S = {}"
  shows "wt_step ctx (hide S t) i (hide S t')"
proof -
  have un: "{x. (x \<in> A \<or> x \<in> B) \<and> fst x \<notin> S} = {x \<in> A. fst x \<notin> S} \<union> {x \<in> B. fst x \<notin> S}"
    for A B :: "(nat \<times> variable) set" by auto
  note new = hide_new [OF assms(2)]
  have inp: "wt_inputs (frames (hide S t)) i"
    using wt_step_inputs(1) [OF assms(1)] assms(3) by (simp add: wt_inputs_hide)
  from assms(1) show ?thesis
  proof cases
    case (wt_plain b F fs)
    from wt_step.wt_plain [of i "hide S t" ctx b "{x \<in> F. fst x \<notin> S}"
        "map (\<lambda>(b, F). (b, {x \<in> F. fst x \<notin> S})) fs"] wt_plain inp
    show ?thesis by (simp add: hide_def un new)
  next
    case wt_begin
    from wt_step.wt_begin [of i "hide S t" ctx] wt_begin inp
    show ?thesis by (simp add: hide_def new)
  next
    case (wt_end b F c G fs)
    from wt_step.wt_end [of i "hide S t" ctx b "{x \<in> F. fst x \<notin> S}" c "{x \<in> G. fst x \<notin> S}"
        "map (\<lambda>(b, F). (b, {x \<in> F. fst x \<notin> S})) fs"] wt_end inp
    show ?thesis by (simp add: hide_def un new)
  qed
qed

lemma wt_steps_hide:
  assumes "wt_steps ctx t ins t'" and "\<forall>x \<in> S. x < next_var t"
  shows "wt_steps ctx (hide S t) ins u \<longleftrightarrow>
    u = hide S t' \<and> (\<forall>i \<in> set ins. set (inputs i) \<inter> S = {})"
  using assms
proof (induction rule: wt_steps.induct)
  case (wt_cons t i t' ins t'')
  have below: "\<forall>x \<in> S. x < next_var t'"
    using wt_cons.prems wt_step_next [OF wt_cons.hyps(1)] by auto
  show ?case
  proof (cases "set (inputs i) \<inter> S = {}")
    case True
    note step = wt_step_hide [OF wt_cons.hyps(1) wt_cons.prems True]
    then have "wt_steps ctx (hide S t) (i # ins) u \<longleftrightarrow> wt_steps ctx (hide S t') ins u"
      unfolding wt_steps_simps(2) using wt_step_det [OF step] by blast
    with wt_cons.IH [OF below] True show ?thesis by simp
  next
    case False
    then have "\<not> wt_step ctx (hide S t) i w" for w
      using wt_step_inputs(1) [of ctx "hide S t" i w] by (auto simp: wt_inputs_hide)
    with False show ?thesis by auto
  qed
qed (auto intro: wt_steps.wt_nil)

text \<open>The variables instruction \<open>k\<close> of a program defines.\<close>

definition defined_by :: "program \<Rightarrow> nat \<Rightarrow> nat set" where
  "defined_by p k =
     (let n = variable_total (take k (instructions p))
      in {n..<n + num_defined (operation (instructions p ! k))})"

lemma nopped_typing:
  assumes "valid_program p" and "k < length (instructions p)" and "is_noppable (instructions p ! k)"
    and "\<not> is_nop (operation (instructions p ! k))"
  shows "valid_program (nopped p k) \<longleftrightarrow>
    (\<forall>i \<in> set (drop (Suc k) (instructions p)). set (inputs i) \<inter> defined_by p k = {})"
proof -
  let ?c = "prog_context p" and ?ins = "instructions p"
  let ?pre = "take k ?ins" and ?i = "?ins ! k" and ?post = "drop (Suc k) ?ins"
  let ?S = "defined_by p k"
  have split: "?ins = ?pre @ ?i # ?post" using assms(2) by (simp add: id_take_nth_drop)
  from assms(1) obtain t' where t': "wt_steps ?c init_typing ?ins t'" "length (frames t') = 1"
    by (auto simp: wt_program_def)
  then obtain t t1 where t: "wt_steps ?c init_typing ?pre t" "wt_step ?c t ?i t1"
    "wt_steps ?c t1 ?post t'"
    by (subst (asm) split) (auto simp: wt_steps_append)
  have nx: "next_var t = variable_total ?pre"
    using wt_steps_next [OF t(1)] by (simp add: init_typing_def)
  have S: "?S = {next_var t..<next_var t + num_defined (operation ?i)}"
    by (simp add: defined_by_def nx Let_def)
  then have below: "\<forall>x \<in> ?S. x < next_var t1" using wt_step_next [OF t(2)] by auto
  have old: "\<forall>fr \<in> set (frames t). \<forall>x \<in> snd fr. fst x \<notin> ?S"
    using wt_steps_below [OF t(1) frames_below_init]
    by (fastforce simp: S frames_below_def in_scope_def)
  from t(2) assms(3) obtain b F fs where fr: "frames t = (b, F) # fs"
    "t1 = \<lparr>frames = (b, F \<union> outer_vars (next_var t) (operation ?i)) # fs,
           next_var = next_var t + num_defined (operation ?i)\<rparr>"
    by (auto simp: is_noppable_def elim: wt_step.cases)
  have hid: "hide ?S t1 = \<lparr>frames = (b, F) # fs, next_var = next_var t1\<rparr>"
  proof -
    have "{x \<in> F \<union> outer_vars (next_var t) (operation ?i). fst x \<notin> ?S} = F"
      using old fr(1) by (fastforce simp: S dest: outer_vars_bounds)
    moreover have "map (\<lambda>(b, F). (b, {x \<in> F. fst x \<notin> ?S})) fs = fs"
      by (intro map_idI) (use old fr(1) in fastforce)
    ultimately show ?thesis by (simp add: hide_def fr(2))
  qed
  have nop_step: "wt_step ?c t (nop ?i) w \<longleftrightarrow> w = hide ?S t1" for w
  proof -
    have "wt_step ?c t (nop ?i) (hide ?S t1)"
      using wt_step.wt_plain [of "nop ?i" t ?c b F fs] fr(1)
      by (simp add: hid wt_inputs_def outer_vars_def wt_step_next [OF t(2)])
    then show ?thesis using wt_step_det by blast
  qed
  have one: "(\<exists>t'. wt_steps ?c init_typing ?pre t' \<and> Q t') \<longleftrightarrow> Q t" for Q
    using t(1) wt_steps_det [OF t(1)] by metis
  have run: "wt_steps ?c init_typing (?pre @ nop ?i # ?post) u \<longleftrightarrow>
      wt_steps ?c (hide ?S t1) ?post u" for u
    by (simp only: wt_steps_append one wt_steps_simps(2) nop_step ex_simps simp_thms)
  have "instructions (nopped p k) = ?pre @ nop ?i # ?post" "prog_context (nopped p k) = ?c"
    using assms(2) by (simp_all add: nopped_def upd_conv_take_nth_drop)
  then have "valid_program (nopped p k) \<longleftrightarrow>
      (\<exists>u. wt_steps ?c (hide ?S t1) ?post u \<and> length (frames u) = 1)"
    by (simp only: wt_program_def run)
  also have "\<dots> \<longleftrightarrow> (\<forall>i \<in> set ?post. set (inputs i) \<inter> ?S = {})"
    using wt_steps_hide [OF t(3) below] t'(2) by auto
  finally show ?thesis .
qed

section \<open>Properties\<close>



end
