(* ===== verification/Minimizer_Stage.thy ===== *)
theory Minimizer_Stage
  imports Minimizers
begin

text \<open>
  The stage of \<open>stratamoto-libafl/src/stages/mod.rs\<close> that drives a minimizer on a corpus entry.
  Running a candidate is libafl's and a parameter: \<open>execute\<close> gives no exit kind when it fails,
  and \<open>how_many_set\<close> counts the novelties the last run still covered. The loop is a partial
  function: \<open>None\<close> is a loop that does not end.
\<close>

section \<open>The stage\<close>

datatype exit_kind = ExitOk | ExitCrash | ExitTimeout | ExitOom

record 'x evaluator =
  execute :: "'x \<Rightarrow> program \<Rightarrow> exit_kind option \<times> 'x"
  how_many_set :: "'x \<Rightarrow> nat list \<Rightarrow> nat"

record stage =
  consecutive_failures :: nat
  max_consecutive_failures :: nat
  minimizing_crash :: bool
  keep_minimizing :: nat

record testcase =
  tc_scheduled :: nat
  tc_novelties :: "nat list option"
  tc_input :: program

record ('m, 'x) loop_state =
  ls_stage :: stage
  ls_minimizer :: 'm
  ls_current :: program
  ls_success :: bool
  ls_exec :: 'x

definition note_failure :: "'m minimizer_ops \<Rightarrow> ('m, 'x) loop_state \<Rightarrow> ('m, 'x) loop_state" where
  "note_failure ops s =
     s\<lparr>ls_minimizer := mz_failure ops (ls_minimizer s),
       ls_stage := (ls_stage s)\<lparr>consecutive_failures := consecutive_failures (ls_stage s) + 1\<rparr>\<rparr>"

definition note_success ::
  "'m minimizer_ops \<Rightarrow> program \<Rightarrow> ('m, 'x) loop_state \<Rightarrow> ('m, 'x) loop_state" where
  "note_success ops attempt s =
     s\<lparr>ls_minimizer := mz_success ops (ls_minimizer s), ls_success := True, ls_current := attempt,
       ls_stage := (ls_stage s)\<lparr>consecutive_failures := 0\<rparr>\<rparr>"

definition candidate_kept :: "'x evaluator \<Rightarrow> nat list \<Rightarrow> stage \<Rightarrow> exit_kind \<Rightarrow> 'x \<Rightarrow> bool" where
  "candidate_kept ev novelties st exit x \<longleftrightarrow>
     (minimizing_crash st \<and> exit \<noteq> ExitOk) \<or>
     (\<not> minimizing_crash st \<and> how_many_set ev x novelties = length novelties)"

text \<open>One round of the loop: \<open>Inl\<close> goes round again, \<open>Inr\<close> leaves the loop.\<close>

definition stage_round ::
  "'m minimizer_ops \<Rightarrow> 'x evaluator \<Rightarrow> nat list \<Rightarrow> ('m, 'x) loop_state \<Rightarrow>
   (unit, ('m, 'x) loop_state + ('m, 'x) loop_state) outcome" where
  "stage_round ops ev novelties s =
     andThen (mz_next ops (ls_minimizer s)) (\<lambda>(r, m).
       let s1 = s\<lparr>ls_minimizer := m\<rparr> in
       case r of
         None \<Rightarrow> Ok (Inr s1)
       | Some prog \<Rightarrow>
           if consecutive_failures (ls_stage s) > max_consecutive_failures (ls_stage s)
           then Ok (Inr s1)
           else andThen (is_statically_valid prog) (\<lambda>valid.
             if \<not> valid then Ok (Inl (note_failure ops s1))
             else case execute ev (ls_exec s1) prog of
                    (None, x) \<Rightarrow> Ok (Inl (s1\<lparr>ls_exec := x\<rparr>))
                  | (Some exit, x) \<Rightarrow>
                      let s2 = s1\<lparr>ls_exec := x\<rparr> in
                      if candidate_kept ev novelties (ls_stage s2) exit x
                      then Ok (Inl (note_success ops prog s2))
                      else Ok (Inl (note_failure ops s2))))"

partial_function (option) stage_loop ::
  "'m minimizer_ops \<Rightarrow> 'x evaluator \<Rightarrow> nat list \<Rightarrow> ('m, 'x) loop_state \<Rightarrow>
   (unit, ('m, 'x) loop_state) outcome option" where
  "stage_loop ops ev novelties s =
     (case stage_round ops ev novelties s of
        Ok (Inl s') \<Rightarrow> stage_loop ops ev novelties s'
      | Ok (Inr s') \<Rightarrow> Some (Ok s')
      | Err e \<Rightarrow> Some (Err e)
      | Panic \<Rightarrow> Some Panic)"

text \<open>\<open>perform\<close>, on the entry the fuzzer is at.\<close>

definition perform_stage ::
  "'m minimizer_ops \<Rightarrow> 'x evaluator \<Rightarrow> stage \<Rightarrow> testcase \<Rightarrow> 'x \<Rightarrow>
   (unit, stage \<times> testcase \<times> 'x) outcome option" where
  "perform_stage ops ev st tc x =
     (if tc_scheduled tc > 0 then Some (Ok (st, tc, x))
      else
        let novelties = (case tc_novelties tc of None \<Rightarrow> [] | Some l \<Rightarrow> l);
            s = \<lparr>ls_stage = st, ls_minimizer = mz_new ops (tc_input tc), ls_current = tc_input tc,
                 ls_success = False, ls_exec = x\<rparr>
        in map_option (\<lambda>r. andThen r (\<lambda>s'.
             if \<not> ls_success s' then Ok (ls_stage s', tc, ls_exec s')
             else andThen (remove_nops (ls_current s')) (\<lambda>q.
               let st' = ls_stage s' in
               Ok (st'\<lparr>keep_minimizing := keep_minimizing st' + 1\<rparr>, tc\<lparr>tc_input := q\<rparr>, ls_exec s'))))
           (stage_loop ops ev novelties s))"

section \<open>Driving any minimizer\<close>

text \<open>When every candidate can be run, the loop ends, without a panic; what it keeps is valid.\<close>

definition always_runs :: "'x evaluator \<Rightarrow> bool" where
  "always_runs ev \<longleftrightarrow> (\<forall>x p. fst (execute ev x p) \<noteq> None)"

definition loop_ok :: "program \<Rightarrow> nat \<Rightarrow> ('m \<Rightarrow> bool) \<Rightarrow> 'm minimizer_ops \<Rightarrow> ('m, 'x) loop_state \<Rightarrow> bool" where
  "loop_ok p n I ops s \<longleftrightarrow>
     I (ls_minimizer s) \<and> ls_current s = mz_current ops (ls_minimizer s) \<and>
     prog_context (ls_current s) = prog_context p \<and> valid_program (ls_current s) \<and>
     (if ls_success s then smaller (ls_current s) p else ls_current s = p) \<and>
     keep_minimizing (ls_stage s) = n"

text \<open>Removing the nops keeps a program smaller than what it is smaller than.\<close>

lemma no_nops_smaller:
  assumes "map operation (instructions q) = filter (Not \<circ> is_nop) (map operation (instructions p))"
    and "smaller p r"
  shows "smaller q r"
proof -
  have left: "nopping_left r = length (filter (Not \<circ> is_nop) (map operation (instructions r)))" for r
    by (simp add: nopping_left_def filter_map)
  have "length (map operation (instructions q)) = nopping_left p" unfolding assms(1) left ..
  then have len: "length (instructions q) = nopping_left p" by simp
  have "nopping_left q = nopping_left p" unfolding left assms(1) by (simp add: comp_def)
  moreover have "nopping_left p \<le> length (instructions p)" by (simp add: nopping_left_def)
  ultimately show ?thesis using assms(2) len by (auto simp: smaller_def)
qed

context minimizer
begin

lemma round_ok:
  assumes "loop_ok p n inv ops s"
  shows "(\<exists>s'. stage_round ops ev nv s = Ok (Inr s') \<and> loop_ok p n inv ops s') \<or>
    (\<exists>s'. stage_round ops ev nv s = Ok (Inl s') \<and> loop_ok p n inv ops s' \<and>
       (always_runs ev \<longrightarrow> work (ls_minimizer s') < work (ls_minimizer s)))"
proof -
  from assms have inv: "inv (ls_minimizer s)" by (simp add: loop_ok_def)
  obtain r m where nx: "mz_next ops (ls_minimizer s) = Ok (r, m)"
    using next_returns [OF inv] by blast
  note keep = next_keeps [OF inv nx]
  show ?thesis
  proof (cases r)
    case None
    with nx keep assms show ?thesis by (auto simp: stage_round_def loop_ok_def)
  next
    case (Some q)
    note nx' = nx [unfolded Some]
    note small = next_smaller [OF inv nx']
    with assms have "smaller q p" by (auto simp: loop_ok_def intro: smaller_trans split: if_splits)
    note val = next_valid [OF inv nx'] and suc = next_success [OF inv nx']
      and fail = next_failure [OF inv nx']
    have sv: "is_statically_valid q = (Ok True :: (unit, bool) outcome)"
      unfolding statically_valid_iff using val by blast
    obtain e x where ex: "execute ev (ls_exec s) q = (e, x)" by fastforce
    show ?thesis
    proof (cases e)
      case None
      with ex have "\<not> always_runs ev" by (auto simp: always_runs_def) (metis fst_conv)
      with None ex nx' keep sv assms show ?thesis
        by (auto simp: stage_round_def loop_ok_def Let_def)
    next
      case (Some k)
      with ex nx' keep sv assms val suc fail \<open>smaller q p\<close> show ?thesis
        by (auto simp: stage_round_def loop_ok_def Let_def note_success_def note_failure_def)
    qed
  qed
qed

lemma loop_returns:
  assumes "loop_ok p n inv ops s" and "always_runs ev"
  shows "\<exists>s'. stage_loop ops ev nv s = Some (Ok s') \<and> loop_ok p n inv ops s'"
  using assms(1)
proof (induction "work (ls_minimizer s)" arbitrary: s rule: less_induct)
  case less
  from round_ok [OF less.prems, of ev nv] show ?case
  proof (elim disjE exE conjE)
    fix s' assume "stage_round ops ev nv s = Ok (Inr s')" "loop_ok p n inv ops s'"
    then show ?thesis by (simp add: stage_loop.simps)
  next
    fix s' assume s': "stage_round ops ev nv s = Ok (Inl s')" "loop_ok p n inv ops s'"
      "always_runs ev \<longrightarrow> work (ls_minimizer s') < work (ls_minimizer s)"
    with less.hyps [of s'] assms(2) show ?thesis by (subst stage_loop.simps) simp
  qed
qed

lemma perform_reduces:
  assumes "always_runs ev" and "valid_program (tc_input tc)"
  shows "\<exists>st' tc' x'. perform_stage ops ev st tc x = Some (Ok (st', tc', x')) \<and>
    valid_program (tc_input tc') \<and> prog_context (tc_input tc') = prog_context (tc_input tc) \<and>
    (tc' = tc \<and> keep_minimizing st' = keep_minimizing st \<or>
     smaller (tc_input tc') (tc_input tc) \<and> keep_minimizing st' = keep_minimizing st + 1)"
proof (cases "tc_scheduled tc > 0")
  case False
  let ?s = "\<lparr>ls_stage = st, ls_minimizer = mz_new ops (tc_input tc), ls_current = tc_input tc,
             ls_success = False, ls_exec = x\<rparr>"
  let ?nv = "case tc_novelties tc of None \<Rightarrow> [] | Some l \<Rightarrow> l"
  have "loop_ok (tc_input tc) (keep_minimizing st) inv ops ?s"
    using assms(2) new_inv new_current by (simp add: loop_ok_def)
  from loop_returns [OF this assms(1), of ?nv] obtain s' where
    s': "stage_loop ops ev ?nv ?s = Some (Ok s')" "loop_ok (tc_input tc) (keep_minimizing st) inv ops s'" by blast
  show ?thesis
  proof (cases "ls_success s'")
    case True
    with s'(2) have v: "valid_program (ls_current s')"
      "prog_context (ls_current s') = prog_context (tc_input tc)" "smaller (ls_current s') (tc_input tc)"
      "keep_minimizing (ls_stage s') = keep_minimizing st" by (auto simp: loop_ok_def)
    from v(1) obtain q where q: "remove_nops (ls_current s') = (Ok q :: (unit, program) outcome)"
      "valid_program q" "prog_context q = prog_context (ls_current s')"
      "map operation (instructions q) = filter (Not \<circ> is_nop) (map operation (instructions (ls_current s')))"
      by (rule remove_nops_valid)
    have "smaller q (tc_input tc)" using no_nops_smaller [OF q(4) v(3)] .
    with True False s'(1) v q show ?thesis by (simp add: perform_stage_def Let_def)
  next
    case no: False
    with s'(2) have "keep_minimizing (ls_stage s') = keep_minimizing st" by (simp add: loop_ok_def)
    with no False s' assms(2) show ?thesis by (simp add: perform_stage_def Let_def)
  qed
qed (use assms in \<open>simp add: perform_stage_def\<close>)

lemma perform_returns:
  assumes "always_runs ev" and "valid_program (tc_input tc)"
  shows "\<exists>st' tc' x'. perform_stage ops ev st tc x = Some (Ok (st', tc', x')) \<and>
    valid_program (tc_input tc') \<and> prog_context (tc_input tc') = prog_context (tc_input tc)"
  using perform_reduces [OF assms] by blast

text \<open>When running a candidate fails, the minimizer is not told, so it proposes it again.\<close>

lemma round_stuck:
  assumes "inv (ls_minimizer s)" and "mz_next ops (ls_minimizer s) = Ok (Some q, m)"
    and "\<forall>x p. fst (execute ev x p) = None"
    and "consecutive_failures (ls_stage s) \<le> max_consecutive_failures (ls_stage s)"
  shows "\<exists>s'. stage_round ops ev nv s = Ok (Inl s') \<and> ls_minimizer s' = m \<and> ls_stage s' = ls_stage s"
proof -
  have "is_statically_valid q = (Ok True :: (unit, bool) outcome)"
    unfolding statically_valid_iff using next_valid [OF assms(1, 2)] by blast
  moreover obtain x where "execute ev (ls_exec s) q = (None, x)"
    using assms(3) by (metis prod.collapse)
  ultimately show ?thesis using assms(2, 4) by (simp add: stage_round_def Let_def)
qed

lemma loop_stuck:
  assumes "inv (ls_minimizer s)" and "mz_next ops (ls_minimizer s) = Ok (Some q, m)"
    and "\<forall>x p. fst (execute ev x p) = None"
    and "consecutive_failures (ls_stage s) \<le> max_consecutive_failures (ls_stage s)"
  shows "stage_loop ops ev nv s = None"
proof (rule ccontr)
  let ?stuck = "\<lambda>s. inv (ls_minimizer s) \<and> (\<exists>m. mz_next ops (ls_minimizer s) = Ok (Some q, m)) \<and>
     consecutive_failures (ls_stage s) \<le> max_consecutive_failures (ls_stage s)"
  let ?P = "\<lambda>o1 e1 n1 s (r :: (unit, ('m, 'b) loop_state) outcome).
     o1 = ops \<and> e1 = ev \<and> n1 = nv \<longrightarrow> \<not> ?stuck s"
  assume "stage_loop ops ev nv s \<noteq> None"
  then obtain r where r: "stage_loop ops ev nv s = Some r" by blast
  have "?P ops ev nv s r"
  proof (rule stage_loop.raw_induct [where P = ?P, OF _ r], intro impI notI, elim conjE)
    fix loop o1 e1 n1 s r
    assume hyp: "\<And>o1 e1 n1 s r. loop o1 e1 n1 s = Some r \<Longrightarrow> ?P o1 e1 n1 s r"
      and eq: "(case stage_round o1 e1 n1 s of Ok (Inl s') \<Rightarrow> loop o1 e1 n1 s'
         | Ok (Inr s') \<Rightarrow> Some (Ok s') | Err e \<Rightarrow> Some (Err e) | Panic \<Rightarrow> Some Panic) = Some r"
      and same: "o1 = ops" "e1 = ev" "n1 = nv"
      and st: "inv (ls_minimizer s)" "\<exists>m. mz_next ops (ls_minimizer s) = Ok (Some q, m)"
        "consecutive_failures (ls_stage s) \<le> max_consecutive_failures (ls_stage s)"
    from st(2) obtain m where m: "mz_next ops (ls_minimizer s) = Ok (Some q, m)" by blast
    from round_stuck [OF st(1) m assms(3) st(3), of nv] obtain s' where
      s': "stage_round ops ev nv s = Ok (Inl s')" "ls_minimizer s' = m" "ls_stage s' = ls_stage s"
      by blast
    have "?stuck s'" using s' st(3) next_keeps [OF st(1) m] next_again [OF st(1) m] by auto
    moreover have "loop ops ev nv s' = Some r" using eq s'(1) same by simp
    ultimately show False using hyp by blast
  qed
  with assms show False by blast
qed

end

lemma perform_given_up:
  assumes "consecutive_failures st > max_consecutive_failures st"
    and "mz_next ops (mz_new ops (tc_input tc)) = Ok (r, m)"
  shows "perform_stage ops ev st tc x = Some (Ok (st, tc, x))"
  using assms by (cases r) (simp_all add: perform_stage_def Let_def stage_round_def stage_loop.simps)

section \<open>Properties\<close>

text \<open>On a valid entry, when every candidate can be run, minimizing with any of the three
  minimizers ends, without a panic, and leaves a valid program for the same deployment.\<close>

theorem minimizing_ends:
  assumes "always_runs ev" and "is_statically_valid (tc_input tc) = Ok True"
  shows
    "(\<exists>st' tc' x'. perform_stage cutting_ops ev st tc x = Some (Ok (st', tc', x')) \<and>
        is_statically_valid (tc_input tc') = Ok True \<and>
        prog_context (tc_input tc') = prog_context (tc_input tc)) \<and>
     (\<exists>st' tc' x'. perform_stage nopping_ops ev st tc x = Some (Ok (st', tc', x')) \<and>
        is_statically_valid (tc_input tc') = Ok True \<and>
        prog_context (tc_input tc') = prog_context (tc_input tc)) \<and>
     (\<exists>st' tc' x'. perform_stage block_ops ev st tc x = Some (Ok (st', tc', x')) \<and>
        is_statically_valid (tc_input tc') = Ok True \<and>
        prog_context (tc_input tc') = prog_context (tc_input tc))"
proof -
  from assms(2) have v: "valid_program (tc_input tc)" by (simp add: statically_valid_iff)
  show ?thesis
    using cutting.perform_returns [OF assms(1) v] nopping.perform_returns [OF assms(1) v]
      block.perform_returns [OF assms(1) v]
    by (simp add: statically_valid_iff)
qed

definition demo_evaluator :: "unit evaluator" where
  "demo_evaluator = \<lparr>execute = (\<lambda>x p. (Some ExitOk, x)), how_many_set = (\<lambda>_ l. length l)\<rparr>"

definition demo_entry :: testcase where
  "demo_entry = \<lparr>tc_scheduled = 0, tc_novelties = None,
     tc_input = \<lparr>prog_context = \<lparr>num_roles = 1, num_connections = 0, seed = 0\<rparr>,
       instructions = [Instruction (LoadRole 0) [], Instruction Connect [0],
                       Instruction Probe []]\<rparr>\<rparr>"

definition demo_stage :: stage where
  "demo_stage = \<lparr>consecutive_failures = 0, max_consecutive_failures = 5,
     minimizing_crash = False, keep_minimizing = 0\<rparr>"

lemma demo_entry_valid: "is_statically_valid (tc_input demo_entry) = Ok True"
proof -
  have "is_statically_valid (tc_input demo_entry) = (Ok True :: (unit, bool) outcome)" by code_simp
  then show ?thesis by (simp add: statically_valid_iff)
qed

theorem minimizing_ends_witness:
  "\<exists>r. perform_stage cutting_ops demo_evaluator demo_stage demo_entry () = Some (Ok r)"
proof -
  have "always_runs demo_evaluator" by (simp add: always_runs_def demo_evaluator_def)
  from minimizing_ends [OF this demo_entry_valid, of demo_stage "()"] show ?thesis by blast
qed

text \<open>When running candidates keeps failing, the stage's loop does not end: it goes round
  without telling the minimizer, which proposes the same candidate for ever.\<close>

theorem failing_execution_hangs:
  assumes "\<forall>x q. fst (execute ev x q) = None" and "is_statically_valid (tc_input tc) = Ok True"
    and "consecutive_failures st \<le> max_consecutive_failures st" and "tc_scheduled tc = 0"
    and "mz_next cutting_ops (mz_new cutting_ops (tc_input tc)) = Ok (Some q, m)"
  shows "perform_stage cutting_ops ev st tc x = None"
proof -
  have "cutting_inv (mz_new cutting_ops (tc_input tc))"
    using assms(2) by (intro cutting.new_inv) (simp add: statically_valid_iff)
  with assms show ?thesis
    unfolding perform_stage_def Let_def by (simp add: cutting.loop_stuck)
qed

theorem failing_execution_hangs_witness:
  "perform_stage cutting_ops \<lparr>execute = (\<lambda>x p. (None, x)), how_many_set = (\<lambda>_ l. 0)\<rparr>
     demo_stage demo_entry () = None"
proof -
  let ?q = "\<lparr>prog_context = \<lparr>num_roles = 1, num_connections = 0, seed = 0\<rparr>,
     instructions = [Instruction (LoadRole 0) [], Instruction Connect [0]]\<rparr>"
  let ?m = "\<lparr>cut_program = tc_input demo_entry, cut_candidate = Some ?q, cut_length = 1\<rparr>"
  have "mz_next cutting_ops (mz_new cutting_ops (tc_input demo_entry)) = Ok (Some ?q, ?m)"
    by code_simp
  then show ?thesis
    by (intro failing_execution_hangs [OF _ demo_entry_valid, of _ demo_stage])
      (auto simp: demo_stage_def demo_entry_def)
qed

text \<open>A stage that has given up once, with more failures in a row than it allows, gives up
  on every later entry too: the counter is reset by a success only, and there is none any more.\<close>

theorem stage_stays_given_up:
  assumes "consecutive_failures st > max_consecutive_failures st"
    and "is_statically_valid (tc_input tc) = Ok True"
  shows "perform_stage nopping_ops ev st tc x = Some (Ok (st, tc, x))"
proof -
  have "nopping_inv (mz_new nopping_ops (tc_input tc))"
    using assms(2) by (intro nopping.new_inv) (simp add: statically_valid_iff)
  from nopping.next_returns [OF this] obtain r m where
    "mz_next nopping_ops (mz_new nopping_ops (tc_input tc)) = Ok (r, m)" by blast
  then show ?thesis by (rule perform_given_up [OF assms(1)])
qed

theorem stage_stays_given_up_witness:
  "perform_stage nopping_ops demo_evaluator (demo_stage\<lparr>consecutive_failures := 6\<rparr>) demo_entry () =
     Some (Ok (demo_stage\<lparr>consecutive_failures := 6\<rparr>, demo_entry, ()))"
  by (rule stage_stays_given_up [OF _ demo_entry_valid]) (simp add: demo_stage_def)

end
