(* ===== verification/Timeouts.thy ===== *)
theory Timeouts
  imports Filing Minimizer_Stage
begin

text \<open>
  Timeouts (\<open>CaptureTimeoutFeedback\<close> of \<open>feedbacks.rs\<close> and \<open>stages/verify_timeouts.rs\<close> of
  \<open>stratamoto-libafl\<close>): a run that timed out is queued, and becomes a finding only when it times
  out again with a multiple of the timeout. The campaign is the part of the fuzzer they share:
  the executor's timeout, the flag that says whether timeouts are captured, and the queue in the
  state's metadata, beside everything else.
\<close>

section \<open>The queue\<close>

type_synonym timeouts_to_verify = "program list"

definition no_timeouts :: timeouts_to_verify where "no_timeouts = []"

definition push_timeout :: "program \<Rightarrow> timeouts_to_verify \<Rightarrow> timeouts_to_verify" where
  "push_timeout p q = q @ [p]"

fun pop_timeout :: "timeouts_to_verify \<Rightarrow> program option \<times> timeouts_to_verify" where
  "pop_timeout [] = (None, [])"
| "pop_timeout (p # q) = (Some p, q)"

record 'x campaign =
  cp_timeout :: duration
  cp_capture :: bool
  cp_queue :: "timeouts_to_verify option"
  cp_rest :: 'x

text \<open>\<open>state.metadata_or_insert_with(TimeoutsToVerify::new)\<close>.\<close>

definition queued :: "'x campaign \<Rightarrow> timeouts_to_verify" where
  "queued c = (case cp_queue c of None \<Rightarrow> no_timeouts | Some q \<Rightarrow> q)"

section \<open>Capturing\<close>

record capture_feedback =
  cpf_found :: nat
  cpf_dir :: string
  cpf_triggered :: bool

definition capture_interesting ::
  "program \<Rightarrow> exit_kind \<Rightarrow> capture_feedback \<Rightarrow> 'x campaign \<Rightarrow> bool \<times> capture_feedback \<times> 'x campaign"
  where
  "capture_interesting p exit fb c =
     (let fb1 = fb\<lparr>cpf_triggered := False\<rparr> in
      if cp_capture c \<and> exit = ExitTimeout
      then (False, fb1, c\<lparr>cp_queue := Some (push_timeout p (queued c))\<rparr>)
      else (exit = ExitTimeout, fb1\<lparr>cpf_triggered := (exit = ExitTimeout)\<rparr>, c))"

definition capture_append ::
  "(program \<Rightarrow> string) \<Rightarrow> 'm firing \<Rightarrow> capture_feedback \<Rightarrow> objective \<Rightarrow> 'm \<Rightarrow>
   (string, objective) outcome \<times> capture_feedback \<times> 'm" where
  "capture_append gen_name fire fb tc m =
     (if \<not> cpf_triggered fb then (Ok tc, fb, m)
      else
        let fb1 = fb\<lparr>cpf_found := cpf_found fb + 1\<rparr>
        in case fire ''timeout'' (cpf_found fb1) m of
             (Inl e, m') \<Rightarrow> (Err e, fb1, m')
           | (Inr _, m') \<Rightarrow> (set_filename gen_name (cpf_dir fb) ''timeout'' tc, fb1, m'))"

section \<open>Verifying\<close>

record verify_stage =
  vs_multiple :: duration
  vs_original :: duration

definition new_verify_stage :: "duration \<Rightarrow> nat \<Rightarrow> verify_stage" where
  "new_verify_stage configured k = \<lparr>vs_multiple = configured * k, vs_original = configured\<rparr>"

text \<open>The evaluation of an input is libafl's: a parameter, which fails or not.\<close>

type_synonym ('e, 'x) evaluation = "program \<Rightarrow> 'x campaign \<Rightarrow> ('e + unit) \<times> 'x campaign"

lemma pop_timeout_shorter: "pop_timeout q = (Some p, q') \<Longrightarrow> length q' < length q"
  by (cases q) simp_all

function verify_queue ::
  "('e, 'x) evaluation \<Rightarrow> timeouts_to_verify \<Rightarrow> 'x campaign \<Rightarrow> ('e + unit) \<times> 'x campaign" where
  "verify_queue ev q c =
     (case pop_timeout q of
        (None, _) \<Rightarrow> (Inr (), c)
      | (Some p, q') \<Rightarrow>
          (case ev p c of
             (Inl e, c') \<Rightarrow> (Inl e, c')
           | (Inr _, c') \<Rightarrow> verify_queue ev q' c'))"
  by pat_completeness auto

termination
  by (relation "measure (\<lambda>(ev, q, c). length q)") (auto dest: pop_timeout_shorter [OF sym])

text \<open>\<open>perform\<close>; the \<open>Panic\<close> is the \<open>unwrap\<close> of metadata that an evaluation removed.\<close>

definition verify_timeouts ::
  "('e, 'x) evaluation \<Rightarrow> verify_stage \<Rightarrow> 'x campaign \<Rightarrow> ('e, unit) outcome \<times> 'x campaign" where
  "verify_timeouts ev vs c =
     (let q = queued c; c1 = c\<lparr>cp_queue := Some q\<rparr> in
      if length q = 0 then (Ok (), c1)
      else
        case verify_queue ev q (c1\<lparr>cp_timeout := vs_multiple vs, cp_capture := False\<rparr>) of
          (Inl e, c2) \<Rightarrow> (Err e, c2)
        | (Inr _, c2) \<Rightarrow>
            let c3 = c2\<lparr>cp_timeout := vs_original vs, cp_capture := True\<rparr>
            in case cp_queue c3 of
                 None \<Rightarrow> (Panic, c3)
               | Some _ \<Rightarrow> (Ok (), c3\<lparr>cp_queue := Some no_timeouts\<rparr>))"

section \<open>A pass over the queue\<close>

text \<open>The campaigns in which the entries of a queue are evaluated, one after the other.\<close>

fun evaluated_in :: "('e, 'x) evaluation \<Rightarrow> program list \<Rightarrow> 'x campaign \<Rightarrow> 'x campaign list" where
  "evaluated_in ev [] c = []"
| "evaluated_in ev (p # q) c = c # evaluated_in ev q (snd (ev p c))"

text \<open>An evaluation leaves the executor's timeout and the capture flag alone and removes no queue,
  and with the flag off it adds nothing to it.\<close>

definition evaluation_ok :: "('e, 'x) evaluation \<Rightarrow> bool" where
  "evaluation_ok ev \<longleftrightarrow>
     (\<forall>p c. cp_timeout (snd (ev p c)) = cp_timeout c \<and> cp_capture (snd (ev p c)) = cp_capture c \<and>
        (cp_queue c \<noteq> None \<longrightarrow> cp_queue (snd (ev p c)) \<noteq> None) \<and>
        (\<not> cp_capture c \<longrightarrow> cp_queue (snd (ev p c)) = cp_queue c))"

lemma evaluation_okD:
  assumes "evaluation_ok ev" and "ev p c = (r, c')"
  shows "cp_timeout c' = cp_timeout c" "cp_capture c' = cp_capture c"
    "cp_queue c \<noteq> None \<Longrightarrow> cp_queue c' \<noteq> None" "\<not> cp_capture c \<Longrightarrow> cp_queue c' = cp_queue c"
  using assms unfolding evaluation_ok_def by (metis snd_conv)+

declare verify_queue.simps [simp del]

lemma verify_queue_simps [simp]:
  "verify_queue ev [] c = (Inr (), c)"
  "verify_queue ev (p # q) c =
     (case ev p c of (Inl e, c') \<Rightarrow> (Inl e, c') | (Inr _, c') \<Rightarrow> verify_queue ev q c')"
  by (subst verify_queue.simps, simp)+

lemma verify_queue_frame:
  assumes "evaluation_ok ev" and "verify_queue ev q c = (r, c')" and "\<not> cp_capture c"
  shows "cp_timeout c' = cp_timeout c \<and> \<not> cp_capture c' \<and> cp_queue c' = cp_queue c"
  using assms(2, 3)
proof (induction q arbitrary: c)
  case (Cons p q)
  obtain r1 c1 where ev: "ev p c = (r1, c1)" by fastforce
  with evaluation_okD [OF assms(1) ev] Cons show ?case by (cases r1) auto
qed simp

lemma evaluated_in_frame:
  assumes "evaluation_ok ev" and "c' \<in> set (evaluated_in ev q c)" and "\<not> cp_capture c"
  shows "cp_timeout c' = cp_timeout c \<and> \<not> cp_capture c'"
  using assms(2, 3)
proof (induction q arbitrary: c)
  case (Cons p q)
  obtain r1 c1 where ev: "ev p c = (r1, c1)" by fastforce
  with evaluation_okD [OF assms(1) ev] Cons show ?case by auto
qed simp

text \<open>A pass that succeeds has evaluated every entry once, in order.\<close>

lemma verify_queue_all:
  "verify_queue ev q c = (Inr u, c') \<longleftrightarrow>
   (\<forall>(p, d) \<in> set (zip q (evaluated_in ev q c)). \<exists>v. fst (ev p d) = Inr v) \<and>
   c' = fold (\<lambda>p d. snd (ev p d)) q c"
proof (induction q arbitrary: c)
  case (Cons p q)
  obtain r1 c1 where ev: "ev p c = (r1, c1)" by fastforce
  with Cons show ?case by (cases r1) auto
qed auto

lemma length_evaluated_in [simp]: "length (evaluated_in ev q c) = length q"
  by (induction q arbitrary: c) simp_all

text \<open>The campaign a pass starts from.\<close>

definition verifying :: "verify_stage \<Rightarrow> 'x campaign \<Rightarrow> 'x campaign" where
  "verifying vs c =
     c\<lparr>cp_queue := Some (queued c), cp_timeout := vs_multiple vs, cp_capture := False\<rparr>"

lemma verifying_simps [simp]:
  "cp_timeout (verifying vs c) = vs_multiple vs" "cp_capture (verifying vs c) = False"
  "cp_queue (verifying vs c) = Some (queued c)"
  by (simp_all add: verifying_def)

lemma verify_timeouts_pass:
  assumes "queued c \<noteq> []"
  shows "verify_timeouts ev vs c =
    (case verify_queue ev (queued c) (verifying vs c) of
       (Inl e, c2) \<Rightarrow> (Err e, c2)
     | (Inr _, c2) \<Rightarrow>
         (if cp_queue c2 = None then Panic else Ok (),
          c2\<lparr>cp_timeout := vs_original vs, cp_capture := True,
             cp_queue := (if cp_queue c2 = None then None else Some no_timeouts)\<rparr>))"
  using assms
  by (auto simp: verify_timeouts_def verifying_def Let_def split: sum.splits prod.splits option.splits)

section \<open>Properties\<close>

text \<open>C20: When no evaluation fails, a pass evaluates every queued input exactly once, in the order
  they were captured, each with the multiple of the timeout and with capturing off, so that a
  second timeout is a finding; it ends with an empty queue, the original timeout and capturing on.\<close>

theorem timeouts_are_verified:
  assumes "evaluation_ok ev" and "\<forall>p d. \<exists>v. fst (ev p d) = Inr v" and "queued c \<noteq> []"
  shows "\<exists>c'. verify_timeouts ev vs c = (Ok (), c') \<and>
    c' = (fold (\<lambda>p d. snd (ev p d)) (queued c) (verifying vs c))
           \<lparr>cp_timeout := vs_original vs, cp_capture := True, cp_queue := Some []\<rparr> \<and>
    length (evaluated_in ev (queued c) (verifying vs c)) = length (queued c) \<and>
    (\<forall>d \<in> set (evaluated_in ev (queued c) (verifying vs c)).
       cp_timeout d = vs_multiple vs \<and>
       (\<forall>p exit fb. capture_interesting p exit fb d =
          (exit = ExitTimeout, fb\<lparr>cpf_triggered := (exit = ExitTimeout)\<rparr>, d)))"
proof -
  let ?c = "verifying vs c"
  let ?fin = "fold (\<lambda>p d. snd (ev p d)) (queued c) ?c"
  have "verify_queue ev (queued c) ?c = (Inr (), ?fin)"
    unfolding verify_queue_all using assms(2) by fastforce
  moreover from verify_queue_frame [OF assms(1) this] have "cp_queue ?fin = Some (queued c)" by simp
  ultimately have "verify_timeouts ev vs c =
      (Ok (), ?fin\<lparr>cp_timeout := vs_original vs, cp_capture := True, cp_queue := Some []\<rparr>)"
    by (simp add: verify_timeouts_pass [OF assms(3)] no_timeouts_def)
  then show ?thesis
    using evaluated_in_frame [OF assms(1)] by (auto simp: capture_interesting_def Let_def)
qed

theorem timeouts_are_verified_witness:
  "verify_timeouts (\<lambda>p d. (Inr () :: string + unit, d\<lparr>cp_rest := p # cp_rest d\<rparr>))
     (new_verify_stage 5 3)
     \<lparr>cp_timeout = 5, cp_capture = True, cp_queue = Some [demo_program, setup_program], cp_rest = []\<rparr> =
   (Ok (), \<lparr>cp_timeout = 5, cp_capture = True, cp_queue = Some [],
            cp_rest = [setup_program, demo_program]\<rparr>)"
proof -
  let ?ev = "\<lambda>p d. (Inr () :: string + unit, d\<lparr>cp_rest := p # cp_rest d\<rparr>)"
  let ?c = "\<lparr>cp_timeout = 5, cp_capture = True, cp_queue = Some [demo_program, setup_program], cp_rest = []\<rparr>"
  have "evaluation_ok ?ev" by (simp add: evaluation_ok_def)
  from timeouts_are_verified [OF this, where c = ?c and vs = "new_verify_stage 5 3"] show ?thesis
    by (simp add: queued_def verifying_def new_verify_stage_def)
qed

text \<open>When an evaluation of the pass fails, the stage leaves by the error at once: the executor
  keeps the multiple of the timeout and capturing stays off, so that until a later pass succeeds
  every timeout is a finding without a second run; the queue is kept whole, the inputs already
  verified included.\<close>

theorem failed_verification_keeps_timeout:
  assumes "evaluation_ok ev" and "queued c \<noteq> []"
    and "verify_timeouts ev vs c = (Err e, c')"
  shows "cp_timeout c' = vs_multiple vs \<and> cp_queue c' = Some (queued c) \<and>
    (\<forall>p fb. fst (capture_interesting p ExitTimeout fb c'))"
proof -
  obtain r c2 where r: "verify_queue ev (queued c) (verifying vs c) = (r, c2)" by fastforce
  with assms(3) have "c' = c2" by (cases r) (auto simp: verify_timeouts_pass [OF assms(2)] split: if_splits)
  with verify_queue_frame [OF assms(1) r] show ?thesis by (simp add: capture_interesting_def Let_def)
qed

theorem failed_verification_keeps_timeout_witness:
  "cp_timeout (snd (verify_timeouts (\<lambda>p d. (Inl ''lost'' :: string + unit, d)) (new_verify_stage 5 3)
     \<lparr>cp_timeout = 5, cp_capture = True, cp_queue = Some [demo_program], cp_rest = ()\<rparr>)) = 15"
proof -
  let ?ev = "\<lambda>p d. (Inl ''lost'' :: string + unit, d)"
  let ?c = "\<lparr>cp_timeout = 5, cp_capture = True, cp_queue = Some [demo_program], cp_rest = ()\<rparr>"
  have "evaluation_ok ?ev" by (simp add: evaluation_ok_def)
  moreover have q: "queued ?c \<noteq> []" by (simp add: queued_def)
  moreover have "verify_timeouts ?ev (new_verify_stage 5 3) ?c =
      (Err ''lost'', verifying (new_verify_stage 5 3) ?c)"
    unfolding verify_timeouts_pass [OF q] by (simp add: queued_def)
  ultimately show ?thesis
    using failed_verification_keeps_timeout [of ?ev ?c "new_verify_stage 5 3"]
    by (simp add: new_verify_stage_def)
qed

end
