(* ===== verification/Stability.thy ===== *)
theory Stability
  imports Minimizer_Stage
begin

text \<open>
  The stability check (\<open>stages/stability_check.rs\<close> of \<open>stratamoto-libafl\<close>): a new corpus entry is
  run again and again, and the coverage entries in which the runs differ are disabled. Running
  the target, its observers and the events are libafl's: parameters over a world. A map entry is
  of any type with a default and a greatest value; \<open>None\<close> of a hook or a run is its error.
\<close>

section \<open>One run\<close>

record ('e, 'x) target =
  pre_exec :: "'x \<Rightarrow> unit option \<times> 'x"
  exec :: "'x \<Rightarrow> exit_kind option \<times> 'x"
  post_exec :: "exit_kind \<Rightarrow> 'x \<Rightarrow> unit option \<times> 'x"
  observed :: "'x \<Rightarrow> 'e list"
  count_bytes :: "'x \<Rightarrow> nat"
  fire_ratio :: "nat \<Rightarrow> nat \<Rightarrow> 'x \<Rightarrow> unit option \<times> 'x"
  ent_default :: 'e
  ent_max :: 'e

definition run_target_once ::
  "('e, 'x) target \<Rightarrow> bool \<Rightarrow> 'x \<Rightarrow> (exit_kind \<times> bool) option \<times> 'x" where
  "run_target_once t had_errors x =
     (case pre_exec t x of
        (None, x1) \<Rightarrow> (None, x1)
      | (Some _, x1) \<Rightarrow>
          (case exec t x1 of
             (None, x2) \<Rightarrow> (None, x2)
           | (Some k, x2) \<Rightarrow>
               let has_errors = (if k \<noteq> ExitOk \<and> \<not> had_errors then True else had_errors)
               in case post_exec t k x2 of
                    (None, x3) \<Rightarrow> (None, x3)
                  | (Some _, x3) \<Rightarrow> (Some (k, has_errors), x3)))"

section \<open>Marking unstable entries\<close>

definition cal_stage_max :: nat where "cal_stage_max = 8"

text \<open>libafl's \<open>MapFeedbackMetadata\<close>, as far as the stage uses it.\<close>

record 'e map_feedback =
  num_covered :: nat
  history_map :: "'e list"

definition resized :: "('e, 'x) target \<Rightarrow> nat \<Rightarrow> 'e list \<Rightarrow> 'e list" where
  "resized t n h = (if length h < n then h @ replicate (n - length h) (ent_default t) else h)"

text \<open>The loop over the zipped maps, from entry \<open>k\<close>: the new history, how many entries it covers
  that it did not, and the entries found unstable.\<close>

fun mark_unstable ::
  "('e, 'x) target \<Rightarrow> nat \<Rightarrow> 'e list \<Rightarrow> 'e list \<Rightarrow> 'e list \<Rightarrow> 'e list \<times> nat \<times> nat list" where
  "mark_unstable t k (first # fs) (cur # cs) (h # hs) =
     (let (hs', n, us) = mark_unstable t (k + 1) fs cs hs in
      if first \<noteq> cur \<and> h \<noteq> ent_max t
      then (ent_max t # hs', n + (if h = ent_default t then 1 else 0), k # us)
      else (h # hs', n, us))"
| "mark_unstable t k fs cs hs = (hs, 0, [])"

definition mark_feedback ::
  "('e, 'x) target \<Rightarrow> 'e list \<Rightarrow> 'e list \<Rightarrow> 'e map_feedback \<Rightarrow> 'e map_feedback \<times> nat list" where
  "mark_feedback t first cur fb =
     (case mark_unstable t 0 first cur (resized t (length first) (history_map fb)) of
        (h, n, us) \<Rightarrow> (\<lparr>num_covered = num_covered fb + n, history_map = h\<rparr>, us))"

section \<open>The loop\<close>

record ('e, 'x) calibration =
  ca_iter :: nat
  ca_round :: nat
  ca_errors :: bool
  ca_unstable :: "nat list"
  ca_feedback :: "'e map_feedback option"
  ca_world :: 'x

text \<open>One round; the \<open>Panic\<close> is the \<open>unwrap\<close> of the feedback's metadata.\<close>

definition calibration_round ::
  "('e, 'x) target \<Rightarrow> 'e list \<Rightarrow> ('e, 'x) calibration \<Rightarrow> (unit, unit) outcome \<times> ('e, 'x) calibration"
  where
  "calibration_round t first s =
     (case run_target_once t (ca_errors s) (ca_world s) of
        (None, x) \<Rightarrow> (Err (), s\<lparr>ca_world := x\<rparr>)
      | (Some (k, errors), x) \<Rightarrow>
          let s1 = s\<lparr>ca_errors := errors, ca_world := x\<rparr> in
          if k = ExitTimeout then (Ok (), s1\<lparr>ca_round := ca_round s1 + 1\<rparr>)
          else case ca_feedback s1 of
                 None \<Rightarrow> (Panic, s1)
               | Some fb \<Rightarrow>
                   (let (fb', us) = mark_feedback t first (observed t x) fb;
                        unstable = ca_unstable s1 @ us;
                        iter = (if unstable \<noteq> [] \<and> ca_iter s1 < cal_stage_max
                                then ca_iter s1 + 2 else ca_iter s1)
                    in (Ok (), s1\<lparr>ca_feedback := Some fb', ca_unstable := unstable, ca_iter := iter,
                                  ca_round := ca_round s1 + 1\<rparr>)))"

lemma calibration_round_Ok:
  assumes "calibration_round t first s = (Ok (), s')"
  shows "ca_round s' = ca_round s + 1"
    and "ca_iter s' = ca_iter s \<or> ca_iter s < 8 \<and> ca_iter s' = ca_iter s + 2"
  using assms
  by (auto simp: calibration_round_def Let_def cal_stage_max_def
      split: prod.splits option.splits if_splits)

function calibrate ::
  "('e, 'x) target \<Rightarrow> 'e list \<Rightarrow> ('e, 'x) calibration \<Rightarrow> (unit, unit) outcome \<times> ('e, 'x) calibration"
  where
  "calibrate t first s =
     (if ca_round s < ca_iter s then
        (case calibration_round t first s of
           (Ok _, s') \<Rightarrow> calibrate t first s'
         | (Err e, s') \<Rightarrow> (Err e, s')
         | (Panic, s') \<Rightarrow> (Panic, s'))
      else (Ok (), s))"
  by pat_completeness auto

text \<open>A round makes the limit larger only while it is below eight, and then by two.\<close>

termination
proof (relation "measure (\<lambda>(t, first, s). max (ca_iter s) 9 - ca_round s)")
  fix t :: "('e, 'x) target" and first s r s' u
  assume "ca_round s < ca_iter s" "(r, s') = calibration_round t first s" "r = Ok u"
  with calibration_round_Ok [of t first s s']
  show "((t, first, s'), (t, first, s)) \<in> measure (\<lambda>(t, first, s). max (ca_iter s) 9 - ca_round s)"
    by auto
qed simp

declare calibrate.simps [simp del]

section \<open>The stage\<close>

record unstable_metadata =
  unstable_entries :: "nat set"
  filled_entries_count :: nat

definition new_unstable_metadata :: unstable_metadata where
  "new_unstable_metadata = \<lparr>unstable_entries = {}, filled_entries_count = 0\<rparr>"

record ('e, 'x) stability_state =
  ss_seen :: "nat set"
  ss_feedback :: "'e map_feedback option"
  ss_unstable :: "unstable_metadata option"
  ss_world :: 'x

text \<open>What follows the loop: the metadata, and the event, whose assertion is the \<open>Panic\<close>.\<close>

definition report_stability ::
  "('e, 'x) target \<Rightarrow> nat \<Rightarrow> nat list \<Rightarrow> ('e, 'x) stability_state \<Rightarrow>
   (unit, unit) outcome \<times> ('e, 'x) stability_state" where
  "report_stability t filled unstable s =
     (if unstable \<noteq> [] then
        let md = (case ss_unstable s of None \<Rightarrow> new_unstable_metadata | Some m \<Rightarrow> m);
            md' = \<lparr>unstable_entries = unstable_entries md \<union> set unstable, filled_entries_count = filled\<rparr>;
            s1 = s\<lparr>ss_unstable := Some md'\<rparr>
        in if filled = 0 then (Panic, s1)
           else (case fire_ratio t (filled - card (unstable_entries md')) filled (ss_world s1) of
                   (None, x) \<Rightarrow> (Err (), s1\<lparr>ss_world := x\<rparr>)
                 | (Some _, x) \<Rightarrow> (Ok (), s1\<lparr>ss_world := x\<rparr>))
      else if ss_unstable s = None \<and> filled > 0 then
        let s1 = s\<lparr>ss_unstable := Some new_unstable_metadata\<rparr>
        in (case fire_ratio t 1 1 (ss_world s1) of
              (None, x) \<Rightarrow> (Err (), s1\<lparr>ss_world := x\<rparr>)
            | (Some _, x) \<Rightarrow> (Ok (), s1\<lparr>ss_world := x\<rparr>))
      else (Ok (), s))"

text \<open>\<open>perform\<close> on the current entry of the corpus; \<open>loads\<close> is whether its input does.\<close>

definition check_stability ::
  "('e, 'x) target \<Rightarrow> nat \<Rightarrow> nat option \<Rightarrow> bool \<Rightarrow> ('e, 'x) stability_state \<Rightarrow>
   (unit, unit) outcome \<times> ('e, 'x) stability_state" where
  "check_stability t stage_max current loads s =
     (case current of
        None \<Rightarrow> (Panic, s)
      | Some cur \<Rightarrow>
          if cur \<in> ss_seen s \<or> \<not> loads then (Ok (), s)
          else case run_target_once t False (ss_world s) of
                 (None, x) \<Rightarrow> (Err (), s\<lparr>ss_world := x\<rparr>)
               | (Some _, x) \<Rightarrow>
                   (let filled = (case ss_feedback s of Some fb \<Rightarrow> num_covered fb
                                                      | None \<Rightarrow> count_bytes t x);
                        (r, c) = calibrate t (observed t x)
                          \<lparr>ca_iter = stage_max, ca_round = 1, ca_errors = False, ca_unstable = [],
                           ca_feedback = ss_feedback s, ca_world = x\<rparr>;
                        s1 = s\<lparr>ss_feedback := ca_feedback c, ss_world := ca_world c\<rparr>
                    in case r of
                         Ok _ \<Rightarrow>
                           (case report_stability t filled (ca_unstable c) s1 of
                              (Ok _, s2) \<Rightarrow> (Ok (), s2\<lparr>ss_seen := insert cur (ss_seen s2)\<rparr>)
                            | (r2, s2) \<Rightarrow> (r2, s2))
                       | r1 \<Rightarrow> (r1, s1)))"

section \<open>What a round does to the feedback\<close>

definition covered :: "('e, 'x) target \<Rightarrow> 'e list \<Rightarrow> nat" where
  "covered t h = length (filter (\<lambda>e. e \<noteq> ent_default t) h)"

text \<open>The count is in sync with the history, and the entries listed as unstable are disabled.\<close>

definition feedback_ok :: "('e, 'x) target \<Rightarrow> nat list \<Rightarrow> 'e map_feedback \<Rightarrow> bool" where
  "feedback_ok t unstable fb \<longleftrightarrow>
     num_covered fb = covered t (history_map fb) \<and>
     (\<forall>j \<in> set unstable. j < length (history_map fb) \<and> history_map fb ! j = ent_max t)"

lemma mark_unstable_effect:
  assumes "mark_unstable t k fs cs hs = (hs', n, us)" and "ent_max t \<noteq> ent_default t"
  shows "length hs' = length hs \<and> covered t hs' = covered t hs + n \<and>
    (\<forall>j < length hs. hs' ! j = (if k + j \<in> set us then ent_max t else hs ! j)) \<and>
    (\<forall>u \<in> set us. k \<le> u \<and> u < k + length hs)"
  using assms
proof (induction t k fs cs hs arbitrary: hs' n us rule: mark_unstable.induct)
  case (1 t k first fs cur cs h hs)
  obtain hs1 n1 us1 where rec: "mark_unstable t (k + 1) fs cs hs = (hs1, n1, us1)"
    using prod_cases3 by blast
  note IH = "1.IH" [OF rec "1.prems"(2)]
  have res: "hs' = (if first \<noteq> cur \<and> h \<noteq> ent_max t then ent_max t else h) # hs1"
    "us = (if first \<noteq> cur \<and> h \<noteq> ent_max t then k # us1 else us1)"
    "n = n1 + (if first \<noteq> cur \<and> h \<noteq> ent_max t \<and> h = ent_default t then 1 else 0)"
    using "1.prems"(1) rec by (auto simp: Let_def split: if_splits)
  have "hs' ! j = (if k + j \<in> set us then ent_max t else (h # hs) ! j)" if "j < length (h # hs)" for j
    using IH that res by (cases j) auto
  moreover have "covered t hs' = covered t (h # hs) + n"
    using IH res "1.prems"(2) by (auto simp: covered_def)
  ultimately show ?case using IH res by auto
qed (auto simp: covered_def)

lemma covered_resized [simp]: "covered t (resized t n h) = covered t h"
  by (simp add: covered_def resized_def)

lemma mark_feedback_ok:
  assumes "mark_feedback t first cur fb = (fb', us)" and "ent_max t \<noteq> ent_default t"
    and "feedback_ok t unstable fb"
  shows "feedback_ok t (unstable @ us) fb'"
proof -
  let ?h = "resized t (length first) (history_map fb)"
  obtain n where marked: "mark_unstable t 0 first cur ?h = (history_map fb', n, us)"
    and n: "num_covered fb' = num_covered fb + n"
    using assms(1) by (auto simp: mark_feedback_def split: prod.splits)
  note eff = mark_unstable_effect [OF marked assms(2)]
  have longer: "j < length ?h" "?h ! j = history_map fb ! j" if "j < length (history_map fb)" for j
    using that by (auto simp: resized_def nth_append)
  show ?thesis
    unfolding feedback_ok_def
  proof
    show "num_covered fb' = covered t (history_map fb')"
      using n eff assms(3) by (simp add: feedback_ok_def)
    show "\<forall>j \<in> set (unstable @ us). j < length (history_map fb') \<and> history_map fb' ! j = ent_max t"
      using eff longer assms(3) by (auto simp: feedback_ok_def)
  qed
qed

definition calibration_ok :: "('e, 'x) target \<Rightarrow> ('e, 'x) calibration \<Rightarrow> bool" where
  "calibration_ok t s \<longleftrightarrow> (\<forall>fb. ca_feedback s = Some fb \<longrightarrow> feedback_ok t (ca_unstable s) fb)"

lemma calibration_round_ok:
  assumes "calibration_round t first s = (r, s')" and "ent_max t \<noteq> ent_default t"
    and "calibration_ok t s"
  shows "calibration_ok t s'"
  using assms mark_feedback_ok [OF _ assms(2)]
  by (fastforce simp: calibration_round_def calibration_ok_def Let_def
      split: prod.splits option.splits if_splits)

lemma calibrate_ok:
  assumes "calibrate t first s = (r, s')" and "ent_max t \<noteq> ent_default t" and "calibration_ok t s"
    and "ca_round s \<le> max (ca_iter s) 9"
  shows "calibration_ok t s' \<and> ca_round s' \<le> max (ca_iter s) 9"
  using assms
proof (induction t first s rule: calibrate.induct)
  case (1 t first s)
  show ?case
  proof (cases "ca_round s < ca_iter s")
    case False
    with "1.prems" show ?thesis by (simp add: calibrate.simps [of t first s])
  next
    case True
    obtain r1 s1 where round: "calibration_round t first s = (r1, s1)" by fastforce
    from calibration_round_ok [OF this "1.prems"(2, 3)] have ok: "calibration_ok t s1" .
    have same: "ca_round s1 = ca_round s" if "r1 \<noteq> Ok ()"
      using round that by (auto simp: calibration_round_def Let_def split: prod.splits option.splits if_splits)
    show ?thesis
    proof (cases "r1 = Ok ()")
      case r1: True
      note bound = calibration_round_Ok [OF round [unfolded r1]]
      from round r1 "1.prems"(1) True have "calibrate t first s1 = (r, s')"
        by (simp add: calibrate.simps [of t first s])
      moreover have "ca_round s1 \<le> max (ca_iter s1) 9" using bound True by auto
      moreover have "max (ca_iter s1) 9 \<le> max (ca_iter s) 9" using bound by auto
      ultimately show ?thesis using "1.IH" [OF True round [symmetric] r1 _ "1.prems"(2) ok] by auto
    next
      case r1: False
      with round "1.prems"(1) True have "s' = s1"
        by (cases r1) (auto simp: calibrate.simps [of t first s])
      with ok same [OF r1] "1.prems"(4) show ?thesis by simp
    qed
  qed
qed

lemma calibrate_no_metadata:
  assumes "ca_feedback s = None" and "ca_round s < ca_iter s"
    and "\<And>x. \<exists>y. pre_exec t x = (Some (), y)" "\<And>x. \<exists>y. exec t x = (Some ExitOk, y)"
    and "\<And>k x. \<exists>y. post_exec t k x = (Some (), y)"
  shows "fst (calibrate t first s) = Panic"
proof -
  obtain y z w where "pre_exec t (ca_world s) = (Some (), y)" "exec t y = (Some ExitOk, z)"
    "post_exec t ExitOk z = (Some (), w)" using assms(3-5) by metis
  then have "run_target_once t (ca_errors s) (ca_world s) = (Some (ExitOk, ca_errors s), w)"
    by (simp add: run_target_once_def)
  with assms(1, 2) show ?thesis
    by (simp add: calibrate.simps [of t first s] calibration_round_def Let_def)
qed

section \<open>Properties\<close>

text \<open>C21: The calibration of an entry ends: with the run before it, it runs the target at most nine
  times, or as often as the stage is told to when that is more, whatever the runs do; and however it ends, the count of covered
  entries is the number of entries of the history that are covered, and every entry found
  unstable is disabled there.\<close>

theorem calibration_ends_in_sync:
  assumes "ent_max t \<noteq> ent_default t"
    and "\<forall>fb. feedback = Some fb \<longrightarrow> num_covered fb = covered t (history_map fb)"
    and "calibrate t first
      \<lparr>ca_iter = stage_max, ca_round = 1, ca_errors = False, ca_unstable = [],
       ca_feedback = feedback, ca_world = x\<rparr> = (r, c)"
  shows "ca_round c \<le> max stage_max 9 \<and>
    (\<forall>fb. ca_feedback c = Some fb \<longrightarrow>
       num_covered fb = covered t (history_map fb) \<and>
       (\<forall>j \<in> set (ca_unstable c). history_map fb ! j = ent_max t))"
  using calibrate_ok [OF assms(3, 1)] assms(2)
  by (auto simp: calibration_ok_def feedback_ok_def)

definition flaky_target :: "(nat, nat) target" where
  "flaky_target =
     \<lparr>pre_exec = (\<lambda>x. (Some (), x)), exec = (\<lambda>x. (Some ExitOk, Suc x)),
      post_exec = (\<lambda>k x. (Some (), x)), observed = (\<lambda>x. [1, x]), count_bytes = (\<lambda>x. 2),
      fire_ratio = (\<lambda>a b x. (Some (), x)), ent_default = 0, ent_max = 255\<rparr>"

theorem calibration_ends_in_sync_witness:
  "\<exists>r c. calibrate flaky_target [1, 1]
      \<lparr>ca_iter = 4, ca_round = 1, ca_errors = False, ca_unstable = [],
       ca_feedback = Some \<lparr>num_covered = 1, history_map = [1]\<rparr>, ca_world = 1\<rparr> = (r, c) \<and>
    ca_round c \<le> 9"
proof -
  obtain r c where c: "calibrate flaky_target [1, 1]
      \<lparr>ca_iter = 4, ca_round = 1, ca_errors = False, ca_unstable = [],
       ca_feedback = Some \<lparr>num_covered = 1, history_map = [1]\<rparr>, ca_world = 1\<rparr> = (r, c)"
    by fastforce
  have "ent_max flaky_target \<noteq> ent_default flaky_target" by (simp add: flaky_target_def)
  from calibration_ends_in_sync [OF this _ c] c show ?thesis
    by (auto simp: covered_def flaky_target_def)
qed

text \<open>A stage that runs an entry more than once panics when the state has no metadata of the
  map feedback, although it has counted the filled entries itself for exactly that case.\<close>

theorem stability_needs_metadata:
  assumes "ss_feedback s = None" and "cur \<notin> ss_seen s" and "2 \<le> stage_max"
    and "\<And>x. \<exists>y. pre_exec t x = (Some (), y)" "\<And>x. \<exists>y. exec t x = (Some ExitOk, y)"
    and "\<And>k x. \<exists>y. post_exec t k x = (Some (), y)"
  shows "fst (check_stability t stage_max (Some cur) True s) = Panic"
proof -
  obtain y z x where "pre_exec t (ss_world s) = (Some (), y)" "exec t y = (Some ExitOk, z)"
    "post_exec t ExitOk z = (Some (), x)" using assms(4-6) by metis
  then have "run_target_once t False (ss_world s) = (Some (ExitOk, False), x)"
    by (simp add: run_target_once_def)
  moreover obtain r c where c: "calibrate t (observed t x)
      \<lparr>ca_iter = stage_max, ca_round = 1, ca_errors = False, ca_unstable = [],
       ca_feedback = None, ca_world = x\<rparr> = (r, c)" by fastforce
  moreover from calibrate_no_metadata [OF _ _ assms(4-6), of
      "\<lparr>ca_iter = stage_max, ca_round = 1, ca_errors = False, ca_unstable = [],
        ca_feedback = None, ca_world = x\<rparr>" "observed t x"] assms(3) c
  have "r = Panic" by simp
  ultimately show ?thesis using assms(1, 2) by (simp add: check_stability_def Let_def)
qed

theorem stability_needs_metadata_witness:
  "fst (check_stability flaky_target 4 (Some 0) True
     \<lparr>ss_seen = {}, ss_feedback = None, ss_unstable = None, ss_world = 0\<rparr>) = Panic"
  by (rule stability_needs_metadata) (simp_all add: flaky_target_def)

end
