(* ===== verification/Sim_Time.thy ===== *)
theory Sim_Time
  imports "HOL-Library.Multiset" Prelude
begin

text \<open>
  Simulated time (\<open>time/instant.rs\<close>, \<open>time/timer.rs\<close> and \<open>time/mod.rs\<close> of \<open>stratamoto-dst\<close>).
  An instant is a number of nanoseconds. A timer's callback is opaque, a value of type \<open>'c\<close>:
  firing yields the callbacks in the order they are called. The queue is a \<open>BinaryHeap\<close>, which
  yields an event of the earliest deadline but does not say which of several: that choice is the
  argument \<open>pk\<close>, the position of the event it yields.
\<close>

section \<open>Instants\<close>

type_synonym instant = nat

definition duration_since :: "instant \<Rightarrow> instant \<Rightarrow> duration" where
  "duration_since t earlier = t - earlier"

definition check_duration_since :: "instant \<Rightarrow> instant \<Rightarrow> duration option" where
  "check_duration_since t earlier = (if t < earlier then None else Some (t - earlier))"

definition saturating_duration_since :: "instant \<Rightarrow> instant \<Rightarrow> duration" where
  "saturating_duration_since t earlier = t - earlier"

definition instant_add :: "instant \<Rightarrow> duration \<Rightarrow> instant" where
  "instant_add t d = t + d"

definition instant_sub :: "instant \<Rightarrow> duration \<Rightarrow> (unit, instant) outcome" where
  "instant_sub t d = (if t < d then Panic else Ok (t - d))"

section \<open>The timer\<close>

record 'c timer_event =
  ev_deadline :: instant
  ev_callback :: 'c

type_synonym 'c timer = "'c timer_event list"

definition heap_ok :: "('c timer \<Rightarrow> nat) \<Rightarrow> bool" where
  "heap_ok pk \<longleftrightarrow>
     (\<forall>q. q \<noteq> [] \<longrightarrow> pk q < length q \<and> (\<forall>e \<in> set q. ev_deadline (q ! pk q) \<le> ev_deadline e))"

definition timer_push :: "instant \<Rightarrow> 'c \<Rightarrow> 'c timer \<Rightarrow> 'c timer" where
  "timer_push deadline callback q = q @ [\<lparr>ev_deadline = deadline, ev_callback = callback\<rparr>]"

definition heap_pop :: "('c timer \<Rightarrow> nat) \<Rightarrow> 'c timer \<Rightarrow> ('c timer_event \<times> 'c timer) option" where
  "heap_pop pk q =
     (case get q (pk q) of
        None \<Rightarrow> None
      | Some e \<Rightarrow> Some (e, take (pk q) q @ drop (Suc (pk q)) q))"

definition next_time :: "('c timer \<Rightarrow> nat) \<Rightarrow> 'c timer \<Rightarrow> instant option" where
  "next_time pk q = map_option ev_deadline (get q (pk q))"

lemma heap_pop_mset: "heap_pop pk q = Some (e, q') \<Longrightarrow> mset q = add_mset e (mset q')"
proof -
  assume "heap_pop pk q = Some (e, q')"
  then have k: "pk q < length q" "e = q ! pk q" "q' = take (pk q) q @ drop (Suc (pk q)) q"
    by (auto simp: heap_pop_def get_def split: option.splits if_splits)
  from id_take_nth_drop [OF k(1)] have "mset q = mset (take (pk q) q @ q ! pk q # drop (Suc (pk q)) q)"
    by simp
  with k show ?thesis by simp
qed

lemma heap_pop_length: "heap_pop pk q = Some (e, q') \<Longrightarrow> length q' < length q"
  using heap_pop_mset [of pk q e q'] by (metis lessI size_add_mset size_mset)

function timer_fire ::
  "('c timer \<Rightarrow> nat) \<Rightarrow> instant \<Rightarrow> 'c timer \<Rightarrow> 'c timer_event list \<times> 'c timer" where
  "timer_fire pk time q =
     (case next_time pk q of
        None \<Rightarrow> ([], q)
      | Some t \<Rightarrow>
          if time < t then ([], q)
          else (case heap_pop pk q of
              None \<Rightarrow> ([], q)
            | Some (e, q') \<Rightarrow> let (fired, q'') = timer_fire pk time q' in (e # fired, q'')))"
  by pat_completeness auto

termination
  by (relation "measure (\<lambda>(pk, time, q). length q)") (auto dest: heap_pop_length)

declare timer_fire.simps [simp del]

section \<open>The clock and the runtime\<close>

record clock =
  ck_base :: instant
  ck_advance :: duration

definition clock_set :: "instant \<Rightarrow> clock \<Rightarrow> clock" where
  "clock_set time c = c\<lparr>ck_advance := duration_since time (ck_base c)\<rparr>"

definition clock_now :: "clock \<Rightarrow> instant" where
  "clock_now c = instant_add (ck_base c) (ck_advance c)"

definition clock_elapsed :: "clock \<Rightarrow> duration" where
  "clock_elapsed c = ck_advance c"

record 'c time_runtime =
  rt_timer :: "'c timer"
  rt_clock :: clock

definition new_time_runtime :: "instant \<Rightarrow> 'c time_runtime" where
  "new_time_runtime now = \<lparr>rt_timer = [], rt_clock = \<lparr>ck_base = now, ck_advance = 0\<rparr>\<rparr>"

definition add_timer :: "instant \<Rightarrow> 'c \<Rightarrow> 'c time_runtime \<Rightarrow> 'c time_runtime" where
  "add_timer deadline callback rt = rt\<lparr>rt_timer := timer_push deadline callback (rt_timer rt)\<rparr>"

text \<open>\<open>advance\<close>: whether there was a timer, what it fired, and the runtime it leaves.\<close>

definition advance ::
  "('c timer \<Rightarrow> nat) \<Rightarrow> 'c time_runtime \<Rightarrow> bool \<times> 'c timer_event list \<times> 'c time_runtime" where
  "advance pk rt =
     (case next_time pk (rt_timer rt) of
        None \<Rightarrow> (False, [], rt)
      | Some time \<Rightarrow>
          let (fired, q) = timer_fire pk time (rt_timer rt)
          in (True, fired, rt\<lparr>rt_timer := q, rt_clock := clock_set time (rt_clock rt)\<rparr>))"

text \<open>One poll of \<open>sleep_until\<close>: ready, or a timer that wakes the task.\<close>

definition poll_sleep_until ::
  "instant \<Rightarrow> 'c \<Rightarrow> 'c time_runtime \<Rightarrow> bool \<times> 'c time_runtime" where
  "poll_sleep_until deadline waker rt =
     (if deadline \<le> clock_now (rt_clock rt) then (True, rt) else (False, add_timer deadline waker rt))"

definition sleep_deadline :: "duration \<Rightarrow> 'c time_runtime \<Rightarrow> instant" where
  "sleep_deadline d rt = instant_add (clock_now (rt_clock rt)) d"

section \<open>Firing\<close>

lemma next_time_iff:
  assumes "heap_ok pk"
  shows "next_time pk q = None \<longleftrightarrow> q = []"
    and "next_time pk q = Some t \<Longrightarrow> (\<exists>e \<in> set q. ev_deadline e = t) \<and> (\<forall>e \<in> set q. t \<le> ev_deadline e)"
proof -
  have pk: "pk q < length q" "\<forall>e \<in> set q. ev_deadline (q ! pk q) \<le> ev_deadline e" if "q \<noteq> []"
    using assms that by (simp_all add: heap_ok_def)
  then show "next_time pk q = None \<longleftrightarrow> q = []"
    by (cases "q = []") (auto simp: next_time_def get_def)
  assume "next_time pk q = Some t"
  then have "pk q < length q" "t = ev_deadline (q ! pk q)"
    by (auto simp: next_time_def get_def split: if_splits)
  moreover from this have "q \<noteq> []" by auto
  ultimately show "(\<exists>e \<in> set q. ev_deadline e = t) \<and> (\<forall>e \<in> set q. t \<le> ev_deadline e)" using pk by auto
qed

lemma heap_pop_next:
  "next_time pk q = Some t \<Longrightarrow> \<exists>e q'. heap_pop pk q = Some (e, q') \<and> ev_deadline e = t"
  by (auto simp: next_time_def heap_pop_def get_def split: if_splits)

lemma timer_fire_exact:
  assumes "timer_fire pk time q = (fired, q')" and "heap_ok pk"
  shows "mset q = mset fired + mset q' \<and> sorted (map ev_deadline fired) \<and>
    (\<forall>e \<in> set fired. ev_deadline e \<le> time) \<and> (\<forall>e \<in> set q'. time < ev_deadline e)"
  using assms
proof (induction pk time q arbitrary: fired q' rule: timer_fire.induct)
  case (1 pk time q)
  show ?case
  proof (cases "next_time pk q")
    case None
    with 1 next_time_iff(1) [OF "1.prems"(2)] show ?thesis
      by (auto simp: timer_fire.simps [of pk time q])
  next
    case (Some t)
    note early = next_time_iff(2) [OF "1.prems"(2) Some]
    show ?thesis
    proof (cases "time < t")
      case True
      with 1 Some early show ?thesis by (auto simp: timer_fire.simps [of pk time q])
    next
      case False
      obtain e q1 where pop: "heap_pop pk q = Some (e, q1)" "ev_deadline e = t"
        using heap_pop_next [OF Some] by blast
      obtain fired1 q2 where rec: "timer_fire pk time q1 = (fired1, q2)" by fastforce
      with 1 Some False pop have res: "fired = e # fired1" "q' = q2"
        by (auto simp: timer_fire.simps [of pk time q])
      note IH = "1.IH" [OF Some False pop(1) refl rec "1.prems"(2)]
      note all = heap_pop_mset [OF pop(1)]
      have "set_mset (mset fired1) \<subseteq> set_mset (mset q)" unfolding all using IH by auto
      then have "set fired1 \<subseteq> set q" by simp
      with early have "\<forall>e' \<in> set fired1. t \<le> ev_deadline e'" by blast
      with IH all res pop(2) False show ?thesis by auto
    qed
  qed
qed

section \<open>Advancing\<close>

text \<open>No timer is due before now.\<close>

definition none_overdue :: "'c time_runtime \<Rightarrow> bool" where
  "none_overdue rt \<longleftrightarrow> (\<forall>e \<in> set (rt_timer rt). clock_now (rt_clock rt) \<le> ev_deadline e)"

lemma clock_now_set [simp]: "clock_now (clock_set t c) = max (ck_base c) t"
  by (simp add: clock_now_def clock_set_def duration_since_def instant_add_def)

lemma base_before_now [simp]: "ck_base c \<le> clock_now c"
  by (simp add: clock_now_def instant_add_def)

lemma none_overdue_intros:
  "none_overdue (new_time_runtime now)"
  "none_overdue rt \<Longrightarrow> clock_now (rt_clock rt) \<le> t \<Longrightarrow> none_overdue (add_timer t c rt)"
  "none_overdue rt \<Longrightarrow> none_overdue (snd (poll_sleep_until t c rt))"
  by (simp_all add: none_overdue_def new_time_runtime_def add_timer_def timer_push_def
      poll_sleep_until_def)

lemma advance_cases:
  assumes "heap_ok pk"
  obtains "rt_timer rt = []" "advance pk rt = (False, [], rt)"
  | t fired q where "rt_timer rt \<noteq> []" "timer_fire pk t (rt_timer rt) = (fired, q)"
      "\<exists>e \<in> set (rt_timer rt). ev_deadline e = t" "\<forall>e \<in> set (rt_timer rt). t \<le> ev_deadline e"
      "advance pk rt = (True, fired, rt\<lparr>rt_timer := q, rt_clock := clock_set t (rt_clock rt)\<rparr>)"
proof (cases "next_time pk (rt_timer rt)")
  case None
  then have "advance pk rt = (False, [], rt)" by (simp add: advance_def)
  moreover from None have "rt_timer rt = []" by (simp only: next_time_iff(1) [OF assms])
  ultimately show ?thesis using that(1) by blast
next
  case (Some t)
  obtain fired q where fire: "timer_fire pk t (rt_timer rt) = (fired, q)" by fastforce
  note early = next_time_iff(2) [OF assms Some]
  show ?thesis
  proof (rule that(2) [OF _ fire])
    show "rt_timer rt \<noteq> []" using early by auto
    show "advance pk rt = (True, fired, rt\<lparr>rt_timer := q, rt_clock := clock_set t (rt_clock rt)\<rparr>)"
      using Some fire by (simp add: advance_def)
  qed (use early in blast)+
qed

lemma fired_at_deadline:
  assumes "timer_fire pk t q = (fired, q')" and "heap_ok pk"
    and "\<exists>e \<in> set q. ev_deadline e = t" "\<forall>e \<in> set q. t \<le> ev_deadline e"
  shows "\<forall>e \<in> set fired. ev_deadline e = t" and "fired \<noteq> []"
proof -
  note exact = timer_fire_exact [OF assms(1, 2)]
  have all: "set q = set fired \<union> set q'"
    using exact by (metis set_mset_mset set_mset_union)
  with exact assms(4) show "\<forall>e \<in> set fired. ev_deadline e = t" by (fastforce intro: antisym)
  from assms(3) all exact show "fired \<noteq> []" by auto
qed

section \<open>Properties\<close>

text \<open>As long as no timer is set for a time that is past, simulated time never goes back:
  advancing moves the clock to the earliest deadline and fires exactly the timers of that
  deadline, each once; the others stay, all of them later, and no timer is lost. Only without a
  timer does it not advance.\<close>

theorem time_never_goes_back:
  assumes "heap_ok pk" and "none_overdue rt" and "advance pk rt = (going, fired, rt')"
  shows "clock_now (rt_clock rt) \<le> clock_now (rt_clock rt') \<and> none_overdue rt' \<and>
    mset (rt_timer rt) = mset fired + mset (rt_timer rt') \<and>
    (\<forall>e \<in> set fired. ev_deadline e = clock_now (rt_clock rt')) \<and>
    (\<forall>e \<in> set (rt_timer rt'). clock_now (rt_clock rt') < ev_deadline e) \<and>
    (going \<longleftrightarrow> rt_timer rt \<noteq> []) \<and> (going \<longleftrightarrow> fired \<noteq> [])"
proof (cases rule: advance_cases [OF assms(1), of rt])
  case 1
  with assms(2, 3) show ?thesis by simp
next
  case (2 t fired1 q)
  note exact = timer_fire_exact [OF 2(2) assms(1)] and at = fired_at_deadline [OF 2(2) assms(1) 2(3, 4)]
  from assms(3) 2(5) have res: "going" "fired = fired1"
    "rt' = rt\<lparr>rt_timer := q, rt_clock := clock_set t (rt_clock rt)\<rparr>" by simp_all
  have le: "clock_now (rt_clock rt) \<le> t" using assms(2) 2(3) by (auto simp: none_overdue_def)
  then have "max (ck_base (rt_clock rt)) t = t"
    using base_before_now [of "rt_clock rt"] by (metis max.absorb2 order_trans)
  with exact at res le 2(1) show ?thesis by (auto simp: none_overdue_def)
qed

definition first_of :: "'c timer \<Rightarrow> nat" where
  "first_of q = length (takeWhile (\<lambda>e. ev_deadline e \<noteq> Min (ev_deadline ` set q)) q)"

lemma first_of_ok: "heap_ok first_of"
  unfolding heap_ok_def
proof (intro allI impI conjI)
  fix q :: "'c timer" assume q: "q \<noteq> []"
  have "Min (ev_deadline ` set q) \<in> ev_deadline ` set q" using q by (intro Min_in) simp_all
  then obtain e where "e \<in> set q" "ev_deadline e = Min (ev_deadline ` set q)" by auto
  then show less: "first_of q < length q"
    unfolding first_of_def
    by (metis (mono_tags, lifting) length_takeWhile_le nat_less_le takeWhile_eq_all_conv
        takeWhile_eq_take take_all_iff order_refl)
  from nth_length_takeWhile [OF less [unfolded first_of_def]]
  have "ev_deadline (q ! first_of q) = Min (ev_deadline ` set q)" by (simp add: first_of_def)
  then show "\<forall>e \<in> set q. ev_deadline (q ! first_of q) \<le> ev_deadline e" by simp
qed

theorem time_never_goes_back_witness:
  "\<exists>fired rt. advance first_of (add_timer 7 ''b'' (add_timer 5 ''a'' (new_time_runtime 3))) =
     (True, fired, rt) \<and> 3 \<le> clock_now (rt_clock rt) \<and> fired \<noteq> []"
proof -
  let ?rt = "add_timer 7 ''b'' (add_timer 5 ''a'' (new_time_runtime 3))"
  have now: "clock_now (rt_clock ?rt) = 3"
    by (simp add: add_timer_def new_time_runtime_def clock_now_def instant_add_def)
  have ahead: "none_overdue ?rt"
    by (intro none_overdue_intros) (simp_all add: add_timer_def new_time_runtime_def clock_now_def instant_add_def)
  have "rt_timer ?rt \<noteq> []" by (simp add: add_timer_def timer_push_def)
  moreover obtain going fired rt where adv: "advance first_of ?rt = (going, fired, rt)"
    using prod_cases3 by blast
  ultimately show ?thesis using time_never_goes_back [OF first_of_ok ahead adv] now adv by auto
qed

text \<open>A timer may be added for a time that is past, and advancing then turns the clock back to
  it, although an instant is meant to be read from a clock that never goes back.\<close>

theorem overdue_timer_turns_back:
  assumes "heap_ok pk" and "none_overdue rt"
    and "ck_base (rt_clock rt) \<le> t" and "t < clock_now (rt_clock rt)"
  shows "\<exists>fired rt'. advance pk (add_timer t c rt) = (True, fired, rt') \<and>
    clock_now (rt_clock rt') = t"
proof (cases rule: advance_cases [OF assms(1), of "add_timer t c rt"])
  case 1
  then show ?thesis by (simp add: add_timer_def timer_push_def)
next
  case (2 s fired q)
  have "s = t"
  proof (rule antisym)
    show "s \<le> t" using 2(4) by (simp add: add_timer_def timer_push_def)
    show "t \<le> s" using 2(3) assms(2, 4)
      by (fastforce simp: add_timer_def timer_push_def none_overdue_def)
  qed
  with 2(5) assms(3) show ?thesis by (simp add: add_timer_def)
qed

theorem overdue_timer_turns_back_witness:
  "\<exists>fired rt'. advance first_of (add_timer 5 ''late''
      \<lparr>rt_timer = [], rt_clock = \<lparr>ck_base = 3, ck_advance = 6\<rparr>\<rparr>) = (True, fired, rt') \<and>
    clock_now (rt_clock rt') = 5"
  by (rule overdue_timer_turns_back [OF first_of_ok])
    (simp_all add: none_overdue_def clock_now_def instant_add_def)

end
