(* ===== verification/Sim_Net.thy ===== *)
theory Sim_Net
  imports Sim_Time Rng
begin

text \<open>
  The simulated network (\<open>net/network.rs\<close> and \<open>net/mod.rs\<close> of \<open>stratamoto-dst\<close>). A message
  under way is a timer whose callback puts it on a channel. A channel is unbounded; the network
  and the handles share it, so it is a number under which the network holds what is on it. An
  address is a number. What waits for a message is the executor's: here a receive either finds
  one or does not.
\<close>

section \<open>The network\<close>

type_synonym addr = nat

record message =
  ms_tag :: "64 word"
  ms_data :: "u8 list"
  ms_from :: addr

text \<open>What a timer does when it fires: deliver a message to a channel, or wake a task.\<close>

datatype callback = Deliver nat message | Wake nat

record config =
  packet_loss_rate :: rat
  send_latency :: "duration \<times> duration"

definition default_config :: config where
  "default_config = \<lparr>packet_loss_rate = 0, send_latency = (nanos_per_milli, 10 * nanos_per_milli)\<rparr>"

record network =
  nw_config :: config
  nw_msg_count :: nat
  nw_endpoints :: "addr \<rightharpoonup> nat"
  nw_clogged :: "addr set"
  nw_channels :: "nat \<Rightarrow> message list"
  nw_fresh :: nat

definition new_network :: network where
  "new_network =
     \<lparr>nw_config = default_config, nw_msg_count = 0, nw_endpoints = Map.empty, nw_clogged = {},
      nw_channels = (\<lambda>_. []), nw_fresh = 0\<rparr>"

definition update_config :: "(config \<Rightarrow> config) \<Rightarrow> network \<Rightarrow> network" where
  "update_config f nw = nw\<lparr>nw_config := f (nw_config nw)\<rparr>"

definition net_stat :: "network \<Rightarrow> nat" where
  "net_stat nw = nw_msg_count nw"

definition net_get :: "addr \<Rightarrow> network \<Rightarrow> nat \<times> network" where
  "net_get target nw =
     (case nw_endpoints nw target of
        Some ch \<Rightarrow> (ch, nw)
      | None \<Rightarrow>
          (nw_fresh nw, nw\<lparr>nw_endpoints := (nw_endpoints nw)(target \<mapsto> nw_fresh nw),
             nw_fresh := Suc (nw_fresh nw)\<rparr>))"

definition net_remove :: "addr \<Rightarrow> network \<Rightarrow> network" where
  "net_remove target nw =
     nw\<lparr>nw_endpoints := (nw_endpoints nw)(target := None), nw_clogged := nw_clogged nw - {target}\<rparr>"

definition clog :: "addr \<Rightarrow> network \<Rightarrow> network" where
  "clog target nw = nw\<lparr>nw_clogged := insert target (nw_clogged nw)\<rparr>"

definition unclog :: "addr \<Rightarrow> network \<Rightarrow> network" where
  "unclog target nw = nw\<lparr>nw_clogged := insert target (nw_clogged nw)\<rparr>"

text \<open>\<open>send\<close>; whether to drop the message is drawn only when nothing else drops it.\<close>

definition net_send ::
  "'r rng_ops \<Rightarrow> addr \<Rightarrow> addr \<Rightarrow> 64 word \<Rightarrow> u8 list \<Rightarrow> network \<Rightarrow> callback time_runtime \<Rightarrow> 'r \<Rightarrow>
   (unit, unit) outcome \<times> callback time_runtime \<times> 'r" where
  "net_send g src dst tag data nw rt r =
     (if nw_endpoints nw src = None then (Panic, rt, r)
      else case nw_endpoints nw dst of
        None \<Rightarrow> (Ok (), rt, r)
      | Some ch \<Rightarrow>
          if src \<in> nw_clogged nw \<or> dst \<in> nw_clogged nw then (Ok (), rt, r)
          else
            let (fault, r1) = random_bool g (packet_loss_rate (nw_config nw)) r in
            if fault then (Ok (), rt, r1)
            else
              let (lo, hi) = send_latency (nw_config nw);
                  (latency, r2) = random_range g lo hi r1;
                  msg = \<lparr>ms_tag = tag, ms_data = data, ms_from = src\<rparr>
              in (Ok (), add_timer (instant_add (clock_now (rt_clock rt)) latency) (Deliver ch msg) rt, r2))"

text \<open>The callback of a message's timer.\<close>

fun run_callback :: "callback \<Rightarrow> network \<Rightarrow> network" where
  "run_callback (Deliver ch msg) nw =
     nw\<lparr>nw_channels := (nw_channels nw)(ch := nw_channels nw ch @ [msg])\<rparr>"
| "run_callback (Wake task) nw = nw"

section \<open>Handles\<close>

record local_handle =
  lh_addr :: addr
  lh_receiver :: nat

definition net_local_handle :: "addr \<Rightarrow> network \<Rightarrow> local_handle \<times> network" where
  "net_local_handle a nw =
     (let (ch, nw') = net_get a nw in (\<lparr>lh_addr = a, lh_receiver = ch\<rparr>, nw'))"

definition set_packet_loss_rate :: "rat \<Rightarrow> network \<Rightarrow> network" where
  "set_packet_loss_rate rate nw = update_config (\<lambda>cfg. cfg\<lparr>packet_loss_rate := rate\<rparr>) nw"

definition net_connect :: "addr \<Rightarrow> network \<Rightarrow> network" where
  "net_connect a nw = unclog a nw"

definition net_disconnect :: "addr \<Rightarrow> network \<Rightarrow> network" where
  "net_disconnect a nw = clog a nw"

definition send_to ::
  "'r rng_ops \<Rightarrow> local_handle \<Rightarrow> addr \<Rightarrow> 64 word \<Rightarrow> u8 list \<Rightarrow> network \<Rightarrow> callback time_runtime \<Rightarrow> 'r \<Rightarrow>
   (unit, unit) outcome \<times> callback time_runtime \<times> 'r" where
  "send_to g h dst tag data nw rt r = net_send g (lh_addr h) dst tag data nw rt r"

definition try_recv ::
  "local_handle \<Rightarrow> network \<Rightarrow> (u8 list \<times> 64 word \<times> addr) option \<times> network" where
  "try_recv h nw =
     (case nw_channels nw (lh_receiver h) of
        [] \<Rightarrow> (None, nw)
      | msg # rest \<Rightarrow>
          (Some (ms_data msg, ms_tag msg, ms_from msg),
           nw\<lparr>nw_channels := (nw_channels nw)(lh_receiver h := rest)\<rparr>))"

text \<open>\<open>recv_from\<close> once there is a message: what the buffer holds then, and how much of it is new.\<close>

definition recv_from ::
  "local_handle \<Rightarrow> u8 list \<Rightarrow> network \<Rightarrow> (u8 list \<times> nat \<times> 64 word \<times> addr) option \<times> network" where
  "recv_from h buf nw =
     (case try_recv h nw of
        (None, nw') \<Rightarrow> (None, nw')
      | (Some (data, tag, from_addr), nw') \<Rightarrow>
          let len = min (length buf) (length data)
          in (Some (take len data @ drop len buf, len, tag, from_addr), nw'))"

section \<open>Messages under way\<close>

definition deliveries :: "nat \<Rightarrow> callback timer_event list \<Rightarrow> message list" where
  "deliveries ch es =
     List.map_filter (\<lambda>e. case ev_callback e of
        Deliver c msg \<Rightarrow> if c = ch then Some msg else None
      | Wake _ \<Rightarrow> None) es"

text \<open>Time passes with nothing else happening: the timers of the next deadline fire.\<close>

definition net_advance ::
  "(callback timer \<Rightarrow> nat) \<Rightarrow> network \<times> callback time_runtime \<Rightarrow> network \<times> callback time_runtime" where
  "net_advance pk = (\<lambda>(nw, rt).
     case advance pk rt of (_, fired, rt') \<Rightarrow> (fold (\<lambda>e. run_callback (ev_callback e)) fired nw, rt'))"

lemma deliveries_simps [simp]:
  "deliveries ch [] = []" "deliveries ch (es @ fs) = deliveries ch es @ deliveries ch fs"
  by (simp_all add: deliveries_def map_filter_def)

lemma mset_deliveries:
  "mset (deliveries ch es) = image_mset (\<lambda>e. case ev_callback e of Deliver c msg \<Rightarrow> msg)
     (filter_mset (\<lambda>e. \<exists>msg. ev_callback e = Deliver ch msg) (mset es))"
proof (induction es)
  case (Cons e es)
  then show ?case
    by (cases "ev_callback e") (auto simp: deliveries_def map_filter_simps)
qed simp

lemma deliveries_union:
  assumes "mset es = mset fs + mset gs"
  shows "mset (deliveries ch es) = mset (deliveries ch fs) + mset (deliveries ch gs)"
  unfolding mset_deliveries assms by simp

lemma run_callbacks:
  "nw_channels (fold (\<lambda>e. run_callback (ev_callback e)) es nw) ch =
   nw_channels nw ch @ deliveries ch es"
proof (induction es arbitrary: nw)
  case (Cons e es)
  then show ?case by (cases "ev_callback e") (auto simp: deliveries_def map_filter_simps)
qed simp

lemma net_advance_effect:
  assumes "heap_ok pk" and "net_advance pk (nw, rt) = (nw', rt')"
  shows "mset (nw_channels nw' ch) + mset (deliveries ch (rt_timer rt')) =
      mset (nw_channels nw ch) + mset (deliveries ch (rt_timer rt))"
    and "length (rt_timer rt') \<le> length (rt_timer rt) - 1"
proof -
  show "mset (nw_channels nw' ch) + mset (deliveries ch (rt_timer rt')) =
      mset (nw_channels nw ch) + mset (deliveries ch (rt_timer rt))"
    and "length (rt_timer rt') \<le> length (rt_timer rt) - 1"
  proof (atomize (full), cases rule: advance_cases [OF assms(1), of rt])
    case 1
    with assms(2) show "mset (nw_channels nw' ch) + mset (deliveries ch (rt_timer rt')) =
        mset (nw_channels nw ch) + mset (deliveries ch (rt_timer rt)) \<and>
        length (rt_timer rt') \<le> length (rt_timer rt) - 1"
      by (simp add: net_advance_def)
  next
    case (2 t fired q)
    note exact = timer_fire_exact [OF 2(2) assms(1)]
    then have all: "mset (rt_timer rt) = mset fired + mset q" by blast
    then have "length (rt_timer rt) = length fired + length q"
      by (metis size_mset size_union)
    moreover have "fired \<noteq> []" using fired_at_deadline(2) [OF 2(2) assms(1) 2(3, 4)] .
    ultimately have "length q \<le> length (rt_timer rt) - 1" by (cases fired) auto
    with assms(2) 2(5) deliveries_union [OF all, of ch]
    show "mset (nw_channels nw' ch) + mset (deliveries ch (rt_timer rt')) =
        mset (nw_channels nw ch) + mset (deliveries ch (rt_timer rt)) \<and>
        length (rt_timer rt') \<le> length (rt_timer rt) - 1"
      by (auto simp: net_advance_def run_callbacks)
  qed
qed

text \<open>With as many advances as there are timers, everything under way arrives.\<close>

lemma net_advance_all:
  assumes "heap_ok pk" and "(net_advance pk ^^ n) (nw, rt) = (nw', rt')"
    and "length (rt_timer rt) \<le> n"
  shows "rt_timer rt' = [] \<and>
    mset (nw_channels nw' ch) = mset (nw_channels nw ch) + mset (deliveries ch (rt_timer rt))"
  using assms(2, 3)
proof (induction n arbitrary: nw rt)
  case (Suc n)
  obtain nw1 rt1 where one: "net_advance pk (nw, rt) = (nw1, rt1)" by fastforce
  note eff = net_advance_effect [OF assms(1) one]
  from Suc.prems one have "(net_advance pk ^^ n) (nw1, rt1) = (nw', rt')"
    by (simp add: funpow_Suc_right del: funpow.simps)
  moreover have "length (rt_timer rt1) \<le> n" using eff(2) Suc.prems(2) by linarith
  ultimately show ?case using Suc.IH eff(1) by metis
qed simp

section \<open>Properties\<close>

text \<open>C30: A message between connected addresses that no fault drops is under way for a time in
  the configured range, and arrives exactly once: when the pending timers have fired, the
  receiver's channel holds what it held, what was under way and the message, and nothing else.\<close>

theorem message_arrives_once:
  assumes "rng_ok g" and "heap_ok pk" and "nw_endpoints nw src \<noteq> None" and "nw_endpoints nw dst = Some ch"
    and "src \<notin> nw_clogged nw" "dst \<notin> nw_clogged nw"
    and "\<not> fst (random_bool g (packet_loss_rate (nw_config nw)) r)"
    and "send_latency (nw_config nw) = (lo, hi)" "lo < hi"
  shows "\<exists>t rt1 r1. net_send g src dst tag data nw rt r = (Ok (), rt1, r1) \<and>
    clock_now (rt_clock rt) + lo \<le> t \<and> t < clock_now (rt_clock rt) + hi \<and>
    rt1 = add_timer t (Deliver ch \<lparr>ms_tag = tag, ms_data = data, ms_from = src\<rparr>) rt \<and>
    (\<forall>nw2 rt2. (net_advance pk ^^ length (rt_timer rt1)) (nw, rt1) = (nw2, rt2) \<longrightarrow>
       rt_timer rt2 = [] \<and>
       mset (nw_channels nw2 ch) = mset (nw_channels nw ch) + mset (deliveries ch (rt_timer rt)) +
         {#\<lparr>ms_tag = tag, ms_data = data, ms_from = src\<rparr>#})"
proof -
  let ?msg = "\<lparr>ms_tag = tag, ms_data = data, ms_from = src\<rparr>"
  obtain r1 where fault: "random_bool g (packet_loss_rate (nw_config nw)) r = (False, r1)"
    using assms(7) by (metis prod.collapse)
  obtain latency r2 where lat: "random_range g lo hi r1 = (latency, r2)" by fastforce
  let ?t = "clock_now (rt_clock rt) + latency"
  let ?rt = "add_timer ?t (Deliver ch ?msg) rt"
  have send: "net_send g src dst tag data nw rt r = (Ok (), ?rt, r2)"
    using assms(3-6, 8) fault lat by (simp add: net_send_def instant_add_def)
  have range: "lo \<le> latency" "latency < hi"
    using rng_okD(1, 2) [OF assms(1, 9), of r1] lat by simp_all
  have "rt_timer rt2 = [] \<and> mset (nw_channels nw2 ch) =
      mset (nw_channels nw ch) + mset (deliveries ch (rt_timer rt)) + {#?msg#}"
    if "(net_advance pk ^^ length (rt_timer ?rt)) (nw, ?rt) = (nw2, rt2)" for nw2 rt2
    using net_advance_all [OF assms(2) that order_refl, of ch]
    by (simp add: add_timer_def timer_push_def deliveries_def map_filter_def)
  moreover have "clock_now (rt_clock rt) + lo \<le> ?t" "?t < clock_now (rt_clock rt) + hi"
    using range by simp_all
  ultimately show ?thesis using send by blast
qed

definition two_hosts :: network where
  "two_hosts = snd (net_local_handle 2 (snd (net_local_handle 1 new_network)))"

theorem message_arrives_once_witness:
  "\<exists>t rt1 r1. net_send counting_rng 1 2 9 [7] two_hosts (new_time_runtime 0) 1 = (Ok (), rt1, r1) \<and>
     nanos_per_milli \<le> t \<and> rt1 = add_timer t (Deliver 1 \<lparr>ms_tag = 9, ms_data = [7], ms_from = 1\<rparr>)
       (new_time_runtime 0)"
proof -
  have hosts: "nw_endpoints two_hosts 1 \<noteq> None" "nw_endpoints two_hosts 2 = Some 1"
    "1 \<notin> nw_clogged two_hosts" "2 \<notin> nw_clogged two_hosts"
    "nw_config two_hosts = default_config"
    by (simp_all add: two_hosts_def net_local_handle_def net_get_def new_network_def)
  have fault: "\<not> fst (random_bool counting_rng (packet_loss_rate (nw_config two_hosts)) 1)"
    by (simp add: counting_rng_def)
  have lat: "send_latency (nw_config two_hosts) = (nanos_per_milli, 10 * nanos_per_milli)"
    by (simp add: hosts default_config_def)
  have "nanos_per_milli < 10 * nanos_per_milli" by simp
  from message_arrives_once [OF counting_rng_ok first_of_ok hosts(1-4) fault lat this,
      of 9 "[7]" "new_time_runtime 0"] show ?thesis
    by (auto simp: new_time_runtime_def clock_now_def instant_add_def)
qed

text \<open>Connecting an address again does not connect it: after a disconnect and a connect, a
  message from or to the address is dropped, without so much as a draw.\<close>

theorem reconnect_stays_cut:
  assumes "nw_endpoints nw src \<noteq> None" and "a = src \<or> a = dst"
  shows "net_send g src dst tag data (net_connect a (net_disconnect a nw)) rt r = (Ok (), rt, r)"
  using assms
  by (auto simp: net_send_def net_connect_def net_disconnect_def clog_def unclog_def
      split: option.splits)

theorem reconnect_stays_cut_witness:
  "net_send counting_rng 1 2 9 [7] (net_connect 2 (net_disconnect 2 two_hosts)) (new_time_runtime 0) 1 =
   (Ok (), new_time_runtime 0, 1)"
  by (rule reconnect_stays_cut) (simp_all add: two_hosts_def net_local_handle_def net_get_def new_network_def)

end
