(* ===== verification/Sim_Fs.thy ===== *)
theory Sim_Fs
  imports Sim_Net
begin

text \<open>
  The simulated file system (\<open>fs.rs\<close> of \<open>stratamoto-dst\<close>): every address has its own map from
  paths to inodes. An inode is shared by the files opened on it, so it is a number under which
  the state holds its data. A path is a string; a buffer is passed and returned.
\<close>

section \<open>The state\<close>

record inode =
  in_path :: string
  in_data :: "u8 list"

record fs_file =
  f_inode :: nat
  can_write :: bool

record fs_state =
  fs_handles :: "addr \<rightharpoonup> (string \<rightharpoonup> nat)"
  fs_inodes :: "nat \<Rightarrow> inode"
  fs_fresh :: nat

text \<open>The kinds of error; the text of the first quotes the path.\<close>

datatype fs_error = NotFound string | PermissionDenied

definition new_inode :: "string \<Rightarrow> inode" where
  "new_inode path = \<lparr>in_path = path, in_data = []\<rparr>"

definition new_fs :: fs_state where
  "new_fs = \<lparr>fs_handles = Map.empty, fs_inodes = (\<lambda>_. new_inode []), fs_fresh = 0\<rparr>"

text \<open>\<open>local_handle\<close>: the handle of an address is the address once its map is there.\<close>

definition fs_local_handle :: "addr \<Rightarrow> fs_state \<Rightarrow> addr \<times> fs_state" where
  "fs_local_handle a st =
     (case fs_handles st a of
        Some _ \<Rightarrow> (a, st)
      | None \<Rightarrow> (a, st\<lparr>fs_handles := (fs_handles st)(a \<mapsto> Map.empty)\<rparr>))"

definition files_of :: "addr \<Rightarrow> fs_state \<Rightarrow> (string \<rightharpoonup> nat)" where
  "files_of a st = (case fs_handles st a of Some m \<Rightarrow> m | None \<Rightarrow> Map.empty)"

definition fs_open :: "addr \<Rightarrow> string \<Rightarrow> fs_state \<Rightarrow> (fs_error, fs_file) outcome" where
  "fs_open a path st =
     (case files_of a st path of
        None \<Rightarrow> Err (NotFound path)
      | Some i \<Rightarrow> Ok \<lparr>f_inode = i, can_write = False\<rparr>)"

definition fs_create :: "addr \<Rightarrow> string \<Rightarrow> fs_state \<Rightarrow> fs_file \<times> fs_state" where
  "fs_create a path st =
     (case files_of a st path of
        Some i \<Rightarrow> (\<lparr>f_inode = i, can_write = True\<rparr>, st)
      | None \<Rightarrow>
          (let i = fs_fresh st in
           (\<lparr>f_inode = i, can_write = True\<rparr>,
            st\<lparr>fs_handles := (fs_handles st)(a \<mapsto> (files_of a st)(path \<mapsto> i)),
               fs_inodes := (fs_inodes st)(i := new_inode path), fs_fresh := Suc i\<rparr>)))"

definition data_of :: "fs_file \<Rightarrow> fs_state \<Rightarrow> u8 list" where
  "data_of f st = in_data (fs_inodes st (f_inode f))"

definition set_data :: "fs_file \<Rightarrow> u8 list \<Rightarrow> fs_state \<Rightarrow> fs_state" where
  "set_data f data st =
     st\<lparr>fs_inodes := (fs_inodes st)(f_inode f := (fs_inodes st (f_inode f))\<lparr>in_data := data\<rparr>)\<rparr>"

text \<open>The \<open>Panic\<close> of a read and of a write is the subtraction \<open>end - offset\<close>.\<close>

definition read_at :: "fs_file \<Rightarrow> u8 list \<Rightarrow> nat \<Rightarrow> fs_state \<Rightarrow> (fs_error, u8 list \<times> nat) outcome" where
  "read_at f buf offset st =
     (let data = data_of f st; stop = min (length data) (offset + length buf) in
      if stop < offset then Panic
      else let len = stop - offset in Ok (take len (drop offset data) @ drop len buf, len))"

definition write_all_at ::
  "fs_file \<Rightarrow> u8 list \<Rightarrow> nat \<Rightarrow> fs_state \<Rightarrow> (fs_error, unit) outcome \<times> fs_state" where
  "write_all_at f buf offset st =
     (if \<not> can_write f then (Err PermissionDenied, st)
      else
        let data = data_of f st; stop = min (length data) (offset + length buf) in
        if stop < offset then (Panic, st)
        else
          let len = stop - offset;
              data1 = take offset data @ take len buf @ drop stop data;
              data2 = (if len < length buf then data1 @ drop len buf else data1)
          in (Ok (), set_data f data2 st))"

definition set_len :: "fs_file \<Rightarrow> nat \<Rightarrow> fs_state \<Rightarrow> (fs_error, unit) outcome \<times> fs_state" where
  "set_len f n st =
     (let data = data_of f st
      in (Ok (), set_data f (take n data @ replicate (n - length data) 0) st))"

section \<open>Separate files\<close>

text \<open>An inode belongs to one path of one address.\<close>

definition fs_ok :: "fs_state \<Rightarrow> bool" where
  "fs_ok st \<longleftrightarrow>
     (\<forall>a p i. files_of a st p = Some i \<longrightarrow> i < fs_fresh st) \<and>
     (\<forall>a p b q i. files_of a st p = Some i \<longrightarrow> files_of b st q = Some i \<longrightarrow> a = b \<and> p = q)"

lemma data_of_set [simp]:
  "data_of f (set_data f data st) = data"
  "f_inode f \<noteq> f_inode f' \<Longrightarrow> data_of f' (set_data f data st) = data_of f' st"
  by (simp_all add: data_of_def set_data_def)

lemma files_of_set [simp]: "files_of a (set_data f data st) = files_of a st"
  by (simp add: files_of_def set_data_def)

lemma fs_ok_new: "fs_ok new_fs"
  by (simp add: fs_ok_def new_fs_def files_of_def)

lemma fs_ok_set_data [simp]: "fs_ok (set_data f data st) = fs_ok st"
proof -
  have "fs_fresh (set_data f data st) = fs_fresh st" by (simp add: set_data_def)
  then show ?thesis by (simp add: fs_ok_def)
qed

lemma files_of_handle [simp]: "files_of b (snd (fs_local_handle a st)) = files_of b st"
  by (auto simp: files_of_def fs_local_handle_def split: option.splits)

lemma fs_ok_create:
  assumes "fs_ok st"
  shows "fs_ok (snd (fs_create a p st))"
proof (cases "files_of a st p")
  case None
  have "files_of b (snd (fs_create a p st)) = (if b = a then (files_of a st)(p \<mapsto> fs_fresh st) else files_of b st)" for b
    using None by (simp add: fs_create_def Let_def) (simp add: files_of_def)
  with None assms show ?thesis
    unfolding fs_ok_def by (auto simp: fs_create_def Let_def less_Suc_eq)
qed (use assms in \<open>simp add: fs_create_def\<close>)

lemma fs_ok_steps:
  assumes "fs_ok st"
  shows "fs_ok (snd (fs_local_handle a st))" "fs_ok (snd (fs_create a p st))"
    "fs_ok (snd (write_all_at f buf off st))" "fs_ok (snd (set_len f n st))"
proof -
  have "fs_fresh (snd (fs_local_handle a st)) = fs_fresh st"
    by (simp add: fs_local_handle_def split: option.splits)
  with assms show "fs_ok (snd (fs_local_handle a st))" by (simp add: fs_ok_def)
qed (use assms fs_ok_create in \<open>simp_all add: write_all_at_def set_len_def Let_def\<close>)

text \<open>What a successful write leaves.\<close>

lemma write_all_at_Ok:
  "write_all_at f buf offset st = (Ok (), st') \<longleftrightarrow>
   can_write f \<and> offset \<le> length (data_of f st) \<and>
   st' = set_data f (take offset (data_of f st) @ buf @ drop (offset + length buf) (data_of f st)) st"
  by (auto simp: write_all_at_def Let_def min_def split: if_splits)

section \<open>The specification\<close>

text \<open>Every address has its own files, and a file is its bytes. An operation on an open file acts on the
  file under its path.\<close>

type_synonym file_system = "addr \<Rightarrow> string \<rightharpoonup> u8 list"

definition spec_create :: "addr \<Rightarrow> string \<Rightarrow> file_system \<Rightarrow> file_system" where
  "spec_create a path S =
     S(a := (S a)(path \<mapsto> (case S a path of None \<Rightarrow> [] | Some data \<Rightarrow> data)))"

definition spec_change :: "addr \<Rightarrow> string \<Rightarrow> (u8 list \<Rightarrow> u8 list) \<Rightarrow> file_system \<Rightarrow> file_system" where
  "spec_change a path f S = S(a := (S a)(path := map_option f (S a path)))"

definition written_over :: "u8 list \<Rightarrow> nat \<Rightarrow> u8 list \<Rightarrow> u8 list" where
  "written_over buf offset data = take offset data @ buf @ drop (offset + length buf) data"

definition resized :: "nat \<Rightarrow> u8 list \<Rightarrow> u8 list" where
  "resized n data = take n data @ replicate (n - length data) 0"

definition abs_fs :: "fs_state \<Rightarrow> file_system" where
  "abs_fs st a path = map_option (\<lambda>i. in_data (fs_inodes st i)) (files_of a st path)"

text \<open>An open file, of the path it was opened under.\<close>

definition opened_at :: "fs_state \<Rightarrow> fs_file \<Rightarrow> addr \<Rightarrow> string \<Rightarrow> bool" where
  "opened_at st f a path \<longleftrightarrow> files_of a st path = Some (f_inode f)"

lemma files_of_create:
  "files_of b (snd (fs_create a path st)) =
     (if b = a \<and> files_of a st path = None then (files_of a st)(path \<mapsto> fs_fresh st) else files_of b st)"
  by (auto simp: fs_create_def Let_def files_of_def split: option.splits)

lemma abs_create:
  assumes "fs_ok st"
  shows "abs_fs (snd (fs_create a path st)) = spec_create a path (abs_fs st)"
proof (cases "files_of a st path")
  case None
  have old: "i < fs_fresh st" if "files_of b st q = Some i" for b q i
    using assms that unfolding fs_ok_def by blast
  have inodes: "fs_inodes (snd (fs_create a path st)) = (fs_inodes st)(fs_fresh st := new_inode path)"
    using None by (simp add: fs_create_def Let_def)
  have others: "map_option (\<lambda>i. in_data (if i = fs_fresh st then x else fs_inodes st i)) (files_of b st q) =
      map_option (\<lambda>i. in_data (fs_inodes st i)) (files_of b st q)" for b q x
    using old [of b q] by (cases "files_of b st q") auto
  show ?thesis
    by (intro ext) (auto simp: abs_fs_def spec_create_def files_of_create None others inodes new_inode_def)
next
  case (Some i)
  then show ?thesis by (intro ext) (simp add: fs_create_def abs_fs_def spec_create_def)
qed

lemma abs_set_data:
  assumes "fs_ok st" and "opened_at st f a path"
  shows "abs_fs (set_data f (g (data_of f st)) st) = spec_change a path g (abs_fs st)"
proof (intro ext)
  fix b q
  have "(b, q) = (a, path)" if "files_of b st q = Some (f_inode f)"
    using assms that unfolding fs_ok_def opened_at_def by blast
  with assms(2) show "abs_fs (set_data f (g (data_of f st)) st) b q = spec_change a path g (abs_fs st) b q"
    by (cases "files_of b st q")
      (auto simp: abs_fs_def spec_change_def opened_at_def set_data_def data_of_def files_of_def)
qed

lemma opened_at_steps:
  assumes "fs_ok st" and "opened_at st f a path"
  shows "opened_at (snd (fs_create b q st)) f a path" "opened_at (set_data f' data st) f a path"
  using assms(2) by (auto simp: opened_at_def files_of_create)

section \<open>Properties\<close>



text \<open>What is written is read back: a write that starts within the file succeeds, a read of
  as many bytes at the same place then yields exactly them, the bytes before and after are as they
  were, and the files at every other path and address too.\<close>

theorem written_is_read_back:
  assumes "fs_ok st" and "fs_create a path st = (f, st1)"
    and "offset \<le> length (data_of f st1)" and "length buf' = length buf"
  shows "\<exists>st2. write_all_at f buf offset st1 = (Ok (), st2) \<and>
    read_at f buf' offset st2 = Ok (buf, length buf) \<and>
    data_of f st2 = take offset (data_of f st1) @ buf @ drop (offset + length buf) (data_of f st1) \<and>
    (\<forall>b q g. fs_open b q st2 = Ok g \<longrightarrow> (b, q) \<noteq> (a, path) \<longrightarrow> data_of g st2 = data_of g st1)"
proof -
  let ?data = "take offset (data_of f st1) @ buf @ drop (offset + length buf) (data_of f st1)"
  let ?st = "set_data f ?data st1"
  have f: "can_write f" "files_of a st1 path = Some (f_inode f)"
    using assms(2) by (auto simp: fs_create_def Let_def files_of_def split: option.splits)
  then have wrote: "write_all_at f buf offset st1 = (Ok (), ?st)"
    using assms(3) by (simp add: write_all_at_Ok)
  have "fs_ok st1" using fs_ok_steps(2) [OF assms(1), of a path] assms(2) by simp
  have others: "data_of g ?st = data_of g st1"
    if "fs_open b q ?st = Ok g" "(b, q) \<noteq> (a, path)" for b q g
  proof (rule data_of_set(2))
    have "files_of b st1 q = Some (f_inode g)"
      using that(1) by (auto simp: fs_open_def split: option.splits)
    with \<open>fs_ok st1\<close> f(2) that(2) show "f_inode f \<noteq> f_inode g"
      unfolding fs_ok_def by (metis prod.inject)
  qed
  have "min (length ?data) (offset + length buf') = offset + length buf"
    using assms(3, 4) by simp
  with assms(3, 4) have "read_at f buf' offset ?st = Ok (buf, length buf)"
    by (simp add: read_at_def Let_def)
  with wrote others show ?thesis by fastforce
qed

theorem written_is_read_back_witness:
  "\<exists>st2. write_all_at \<lparr>f_inode = 0, can_write = True\<rparr> [1, 2] 0 (snd (fs_create 7 ''a'' new_fs)) =
      (Ok (), st2) \<and> read_at \<lparr>f_inode = 0, can_write = True\<rparr> [0, 0] 0 st2 = Ok ([1, 2], 2)"
proof -
  have create: "fs_create 7 ''a'' new_fs =
      (\<lparr>f_inode = 0, can_write = True\<rparr>, snd (fs_create 7 ''a'' new_fs))"
    by (simp add: fs_create_def new_fs_def files_of_def Let_def)
  from written_is_read_back [OF fs_ok_new create, of 0 "[0, 0]" "[1, 2]"] show ?thesis by auto
qed

text \<open>A read, and a write to a file opened for writing, panic exactly when they start past the
  end of the file, where a file system would read nothing or fill the gap.\<close>

theorem past_the_end_panics:
  "(read_at f buf offset st = Panic \<longleftrightarrow> length (data_of f st) < offset) \<and>
   (fst (write_all_at f buf offset st) = Panic \<longleftrightarrow> can_write f \<and> length (data_of f st) < offset)"
  by (auto simp: read_at_def write_all_at_def Let_def min_def)

text \<open>A file opened for reading refuses to be written and is cut to any length all the same.\<close>

theorem read_only_is_resized:
  assumes "fs_open a path st = Ok f"
  shows "write_all_at f buf offset st = (Err PermissionDenied, st) \<and>
    (\<exists>st'. set_len f 0 st = (Ok (), st') \<and> data_of f st' = [])"
  using assms
  by (auto simp: fs_open_def write_all_at_def set_len_def Let_def split: option.splits)

theorem read_only_is_resized_witness:
  "\<exists>st'. set_len \<lparr>f_inode = 0, can_write = False\<rparr> 0 (snd (fs_create 7 ''a'' new_fs)) = (Ok (), st')"
proof -
  have "fs_open 7 ''a'' (snd (fs_create 7 ''a'' new_fs)) = Ok \<lparr>f_inode = 0, can_write = False\<rparr>"
    by (simp add: fs_open_def fs_create_def new_fs_def files_of_def Let_def)
  from read_only_is_resized [OF this] show ?thesis by blast
qed

end
