(* ===== verification/Sim_Task.thy ===== *)
theory Sim_Task
  imports Sim_Net
begin

text \<open>
  The executor of the simulation (\<open>task.rs\<close> of \<open>stratamoto-dst\<close>, with the address of the running
  task from \<open>context.rs\<close>). Every node has an info that its tasks share; killing a node marks its
  info and forgets it. A task is a number; what it does when it runs is the program under
  simulation, and what a runnable does when it is run, dropped or woken is the async-task
  library's: parameters, which act on the executor only through its operations.
\<close>

section \<open>The state\<close>

record task_info =
  ti_addr :: addr
  ti_killed :: bool

text \<open>The queue holds runnables, each with the info its schedule function sends along; \<open>ex_owner\<close>
  is the info that function holds, and \<open>ex_addr\<close> the address of the running task.\<close>

record 'x executor =
  ex_queue :: "(nat \<times> nat) list"
  ex_nodes :: "addr \<rightharpoonup> nat"
  ex_infos :: "nat \<Rightarrow> task_info"
  ex_fresh :: nat
  ex_owner :: "nat \<rightharpoonup> nat"
  ex_tasks :: nat
  ex_time :: "callback time_runtime"
  ex_addr :: "addr option"
  ex_world :: 'x

definition new_executor :: "instant \<Rightarrow> 'x \<Rightarrow> 'x executor" where
  "new_executor now x =
     \<lparr>ex_queue = [], ex_nodes = Map.empty, ex_infos = (\<lambda>_. \<lparr>ti_addr = 0, ti_killed = False\<rparr>),
      ex_fresh = 0, ex_owner = Map.empty, ex_tasks = 0, ex_time = new_time_runtime now,
      ex_addr = None, ex_world = x\<rparr>"

section \<open>Handles\<close>

definition new_info :: "addr \<Rightarrow> 'x executor \<Rightarrow> nat \<times> 'x executor" where
  "new_info a s =
     (ex_fresh s,
      s\<lparr>ex_infos := (ex_infos s)(ex_fresh s := \<lparr>ti_addr = a, ti_killed = False\<rparr>),
        ex_fresh := Suc (ex_fresh s)\<rparr>)"

definition task_local_handle :: "addr \<Rightarrow> 'x executor \<Rightarrow> nat \<times> 'x executor" where
  "task_local_handle a s =
     (case ex_nodes s a of
        Some i \<Rightarrow> (i, s)
      | None \<Rightarrow> (let (i, s1) = new_info a s in (i, s1\<lparr>ex_nodes := (ex_nodes s1)(a \<mapsto> i)\<rparr>)))"

definition kill_node :: "addr \<Rightarrow> 'x executor \<Rightarrow> 'x executor" where
  "kill_node a s =
     (case ex_nodes s a of
        None \<Rightarrow> s
      | Some i \<Rightarrow> s\<lparr>ex_nodes := (ex_nodes s)(a := None),
                     ex_infos := (ex_infos s)(i := (ex_infos s i)\<lparr>ti_killed := True\<rparr>)\<rparr>)"

text \<open>The schedule function of a task.\<close>

definition schedule :: "nat \<Rightarrow> 'x executor \<Rightarrow> 'x executor" where
  "schedule t s =
     (case ex_owner s t of None \<Rightarrow> s | Some i \<Rightarrow> s\<lparr>ex_queue := ex_queue s @ [(t, i)]\<rparr>)"

definition spawn_on :: "nat \<Rightarrow> 'x executor \<Rightarrow> nat \<times> 'x executor" where
  "spawn_on i s =
     (ex_tasks s,
      schedule (ex_tasks s) (s\<lparr>ex_owner := (ex_owner s)(ex_tasks s \<mapsto> i), ex_tasks := Suc (ex_tasks s)\<rparr>))"

text \<open>\<open>spawn\<close>: the new task belongs to the node of the task that spawns it.\<close>

definition spawn :: "'x executor \<Rightarrow> (unit, nat) outcome \<times> 'x executor" where
  "spawn s =
     (case ex_addr s of
        None \<Rightarrow> (Panic, s)
      | Some a \<Rightarrow>
          (let (i, s1) = task_local_handle a s; (t, s2) = spawn_on i s1 in (Ok t, s2)))"

section \<open>Running\<close>

text \<open>Running a runnable says whether the task panicked.\<close>

record ('v, 'x) tasks =
  tk_run :: "nat \<Rightarrow> 'x executor \<Rightarrow> bool \<times> 'x executor"
  tk_drop :: "nat \<Rightarrow> 'x executor \<Rightarrow> 'x executor"
  tk_fire :: "callback \<Rightarrow> 'x executor \<Rightarrow> 'x executor"
  tk_poll :: "nat \<Rightarrow> 'x executor \<Rightarrow> 'v option \<times> 'x executor"

text \<open>A task runs under its node's address, and the address before it is restored, by a guard,
  whether it panics or not.\<close>

definition run_task ::
  "('v, 'x) tasks \<Rightarrow> nat \<Rightarrow> nat \<Rightarrow> 'x executor \<Rightarrow> (unit, unit) outcome \<times> 'x executor" where
  "run_task tk t i s =
     (let old = ex_addr s;
          (panicked, s1) = tk_run tk t (s\<lparr>ex_addr := Some (ti_addr (ex_infos s i))\<rparr>)
      in (if panicked then Panic else Ok (), s1\<lparr>ex_addr := old\<rparr>))"

text \<open>One turn of the loop over the queue: it is over, or goes on.\<close>

definition ready_turn ::
  "('v, 'x) tasks \<Rightarrow> 'x executor \<Rightarrow> (unit, unit) outcome \<times> 'x executor + 'x executor" where
  "ready_turn tk s =
     (case ex_queue s of
        [] \<Rightarrow> Inl (Ok (), s)
      | (t, i) # q \<Rightarrow>
          if ti_killed (ex_infos s i) then Inr (tk_drop tk t (s\<lparr>ex_queue := q\<rparr>))
          else (case run_task tk t i (s\<lparr>ex_queue := q\<rparr>) of
                  (Ok _, s1) \<Rightarrow> Inr s1
                | (r, s1) \<Rightarrow> Inl (r, s1)))"

partial_function (option) run_all_ready ::
  "('v, 'x) tasks \<Rightarrow> 'x executor \<Rightarrow> ((unit, unit) outcome \<times> 'x executor) option" where
  "run_all_ready tk s =
     (case ready_turn tk s of Inl res \<Rightarrow> Some res | Inr s1 \<Rightarrow> run_all_ready tk s1)"

text \<open>The callbacks of the timers that fire run before the clock is set. They do not touch the
  timers, whose lock the advance holds.\<close>

definition time_advance ::
  "(callback timer \<Rightarrow> nat) \<Rightarrow> ('v, 'x) tasks \<Rightarrow> 'x executor \<Rightarrow> bool \<times> 'x executor" where
  "time_advance pk tk s =
     (case advance pk (ex_time s) of
        (going, fired, rt) \<Rightarrow>
          (going, (fold (\<lambda>e. tk_fire tk (ev_callback e)) fired s)\<lparr>ex_time := rt\<rparr>))"

partial_function (option) block_loop ::
  "(callback timer \<Rightarrow> nat) \<Rightarrow> ('v, 'x) tasks \<Rightarrow> nat \<Rightarrow> 'x executor \<Rightarrow>
   ((unit, 'v) outcome \<times> 'x executor) option" where
  "block_loop pk tk main s =
     (case run_all_ready tk s of
        None \<Rightarrow> None
      | Some (Ok _, s1) \<Rightarrow>
          (case tk_poll tk main s1 of
             (Some v, s2) \<Rightarrow> Some (Ok v, s2)
           | (None, s2) \<Rightarrow>
               (case time_advance pk tk s2 of
                  (going, s3) \<Rightarrow> if going then block_loop pk tk main s3 else Some (Panic, s3)))
      | Some (_, s1) \<Rightarrow> Some (Panic, s1))"

text \<open>The main task has an info of its own, which no handle knows.\<close>

definition unspecified_addr :: addr where
  "unspecified_addr = 0"

definition block_on ::
  "(callback timer \<Rightarrow> nat) \<Rightarrow> ('v, 'x) tasks \<Rightarrow> 'x executor \<Rightarrow>
   ((unit, 'v) outcome \<times> 'x executor) option" where
  "block_on pk tk s =
     (let (i, s1) = new_info unspecified_addr s; (main, s2) = spawn_on i s1
      in block_loop pk tk main s2)"

section \<open>What the code under simulation can do\<close>

text \<open>It acts on the executor by waking tasks, by the operations of its handles and of \<open>spawn\<close>,
  by setting timers and by changing its own state.\<close>

inductive acts :: "'x executor \<Rightarrow> 'x executor \<Rightarrow> bool" where
  acts_refl: "acts s s"
| acts_wake: "acts s s' \<Longrightarrow> acts s (schedule t s')"
| acts_handle: "acts s s' \<Longrightarrow> acts s (snd (task_local_handle a s'))"
| acts_spawn: "acts s s' \<Longrightarrow> acts s (snd (spawn s'))"
| acts_spawn_on: "acts s s' \<Longrightarrow> acts s (snd (spawn_on i s'))"
| acts_kill: "acts s s' \<Longrightarrow> acts s (kill_node a s')"
| acts_time: "acts s s' \<Longrightarrow> acts s (s'\<lparr>ex_time := rt\<rparr>)"
| acts_world: "acts s s' \<Longrightarrow> acts s (s'\<lparr>ex_world := x\<rparr>)"

definition tasks_ok :: "('v, 'x) tasks \<Rightarrow> bool" where
  "tasks_ok tk \<longleftrightarrow>
     (\<forall>t s. acts s (snd (tk_run tk t s)) \<and> acts s (tk_drop tk t s) \<and> acts s (snd (tk_poll tk t s))) \<and>
     (\<forall>c s. acts s (tk_fire tk c s))"

text \<open>A runnable in the queue is one of a task that was spawned, with that task's info.\<close>

definition exec_ok :: "'x executor \<Rightarrow> bool" where
  "exec_ok s \<longleftrightarrow>
     (\<forall>t i. (t, i) \<in> set (ex_queue s) \<longrightarrow> ex_owner s t = Some i) \<and>
     (\<forall>t i. ex_owner s t = Some i \<longrightarrow> t < ex_tasks s) \<and>
     (\<forall>a i. ex_nodes s a = Some i \<longrightarrow>
        i < ex_fresh s \<and> ti_addr (ex_infos s i) = a \<and> \<not> ti_killed (ex_infos s i))"

definition dead :: "nat \<Rightarrow> 'x executor \<Rightarrow> bool" where
  "dead i s \<longleftrightarrow> i < ex_fresh s \<and> ti_killed (ex_infos s i)"

named_theorems executor_defs

lemmas [executor_defs] = exec_ok_def dead_def new_info_def schedule_def

lemma exec_ok_schedule [simp]:
  "exec_ok s \<Longrightarrow> exec_ok (schedule t s)" "dead i (schedule t s) = dead i s"
  by (auto simp: executor_defs split: option.splits)

lemma exec_ok_handle [simp]:
  "exec_ok s \<Longrightarrow> exec_ok (snd (task_local_handle a s))"
  "dead i s \<Longrightarrow> dead i (snd (task_local_handle a s))"
proof -
  show "exec_ok (snd (task_local_handle a s))" if ok: "exec_ok s"
  proof (cases "ex_nodes s a")
    case None
    with ok show ?thesis
      unfolding exec_ok_def by (auto simp: task_local_handle_def new_info_def Let_def less_Suc_eq)
  qed (simp add: task_local_handle_def ok)
  show "dead i (snd (task_local_handle a s))" if "dead i s"
    using that by (simp add: executor_defs task_local_handle_def Let_def split: option.splits)
qed

lemma exec_ok_spawn_on [simp]:
  "exec_ok s \<Longrightarrow> exec_ok (snd (spawn_on i s))" "dead j (snd (spawn_on i s)) = dead j s"
proof -
  let ?s = "s\<lparr>ex_owner := (ex_owner s)(ex_tasks s \<mapsto> i), ex_tasks := Suc (ex_tasks s)\<rparr>"
  show "dead j (snd (spawn_on i s)) = dead j s" by (simp add: spawn_on_def) (simp add: dead_def)
  assume ok: "exec_ok s"
  then have "t \<noteq> ex_tasks s" if "(t, k) \<in> set (ex_queue s)" for t k
    using that unfolding exec_ok_def by blast
  with ok have "exec_ok ?s" unfolding exec_ok_def by (auto simp: less_Suc_eq)
  then show "exec_ok (snd (spawn_on i s))" by (simp add: spawn_on_def)
qed

lemma snd_spawn:
  "snd (spawn s) =
     (case ex_addr s of None \<Rightarrow> s
      | Some a \<Rightarrow> snd (spawn_on (fst (task_local_handle a s)) (snd (task_local_handle a s))))"
  by (simp add: spawn_def Let_def split: option.splits prod.splits)

lemma exec_ok_spawn [simp]:
  "exec_ok s \<Longrightarrow> exec_ok (snd (spawn s))" "dead i s \<Longrightarrow> dead i (snd (spawn s))"
  by (simp_all add: snd_spawn split: option.splits)

lemma exec_ok_kill [simp]:
  "exec_ok s \<Longrightarrow> exec_ok (kill_node a s)" "dead i s \<Longrightarrow> dead i (kill_node a s)"
proof -
  show "dead i (kill_node a s)" if "dead i s"
    using that by (auto simp: executor_defs kill_node_def split: option.splits)
  assume ok: "exec_ok s"
  show "exec_ok (kill_node a s)"
  proof (cases "ex_nodes s a")
    case (Some i)
    then have "j \<noteq> i" if "ex_nodes s b = Some j" "b \<noteq> a" for b j
      using ok that unfolding exec_ok_def by metis
    with Some ok show ?thesis unfolding exec_ok_def by (auto simp: kill_node_def)
  qed (simp add: kill_node_def ok)
qed

lemma exec_ok_updates [simp]:
  "exec_ok (s\<lparr>ex_time := rt\<rparr>) = exec_ok s" "dead i (s\<lparr>ex_time := rt\<rparr>) = dead i s"
  "exec_ok (s\<lparr>ex_world := x\<rparr>) = exec_ok s" "dead i (s\<lparr>ex_world := x\<rparr>) = dead i s"
  "exec_ok (s\<lparr>ex_addr := b\<rparr>) = exec_ok s" "dead i (s\<lparr>ex_addr := b\<rparr>) = dead i s"
  "dead i (s\<lparr>ex_queue := q\<rparr>) = dead i s"
  by (simp_all add: executor_defs)

lemma acts_keep: "acts s s' \<Longrightarrow> exec_ok s \<Longrightarrow> exec_ok s' \<and> (dead i s \<longrightarrow> dead i s')"
  by (induction rule: acts.induct) auto

section \<open>Killed tasks\<close>

lemma tasks_okD:
  assumes "tasks_ok tk" and "exec_ok s"
  shows "exec_ok (tk_drop tk t s)" "dead i s \<Longrightarrow> dead i (tk_drop tk t s)"
    "tk_run tk t s = (b, s') \<Longrightarrow> exec_ok s'" "tk_run tk t s = (b, s') \<Longrightarrow> dead i s \<Longrightarrow> dead i s'"
    "tk_poll tk t s = (v, s') \<Longrightarrow> exec_ok s'" "tk_poll tk t s = (v, s') \<Longrightarrow> dead i s \<Longrightarrow> dead i s'"
    "exec_ok (tk_fire tk c s)" "dead i s \<Longrightarrow> dead i (tk_fire tk c s)"
  using assms acts_keep unfolding tasks_ok_def by (metis snd_conv)+

lemma exec_ok_pop: "exec_ok s \<Longrightarrow> ex_queue s = x # q \<Longrightarrow> exec_ok (s\<lparr>ex_queue := q\<rparr>)"
  unfolding exec_ok_def by simp

lemma run_task_keep:
  assumes "tasks_ok tk" "exec_ok s" "run_task tk t j s = (r, s')"
  shows "exec_ok s'" "dead i s \<Longrightarrow> dead i s'"
proof -
  let ?s = "s\<lparr>ex_addr := Some (ti_addr (ex_infos s j))\<rparr>"
  obtain b s1 where run: "tk_run tk t ?s = (b, s1)" by fastforce
  then have s': "s' = s1\<lparr>ex_addr := ex_addr s\<rparr>"
    using assms(3) by (auto simp: run_task_def Let_def)
  have ok: "exec_ok ?s" using assms(2) by simp
  show "exec_ok s'" unfolding s' using tasks_okD(3) [OF assms(1) ok run] by simp
  show "dead i s \<Longrightarrow> dead i s'" unfolding s' using tasks_okD(4) [OF assms(1) ok run] by simp
qed

lemma time_advance_keep:
  assumes "tasks_ok tk" "exec_ok s" "time_advance pk tk s = (going, s')"
  shows "exec_ok s'" "dead i s \<Longrightarrow> dead i s'"
proof -
  have "exec_ok (fold (\<lambda>e. tk_fire tk (ev_callback e)) es s) \<and>
      (dead i s \<longrightarrow> dead i (fold (\<lambda>e. tk_fire tk (ev_callback e)) es s))" for es
    using assms(2) by (induction es arbitrary: s) (use tasks_okD(7, 8) [OF assms(1)] in auto)
  note keep = this
  obtain fired rt where "advance pk (ex_time s) = (going, fired, rt)"
    "s' = (fold (\<lambda>e. tk_fire tk (ev_callback e)) fired s)\<lparr>ex_time := rt\<rparr>"
    using assms(3) by (auto simp: time_advance_def split: prod.splits)
  with keep [of fired] show "exec_ok s'" "dead i s \<Longrightarrow> dead i s'" by simp_all
qed

text \<open>Two behaviours that differ only in what the tasks of one info do when they are run.\<close>

definition agree_but :: "nat \<Rightarrow> ('v, 'x) tasks \<Rightarrow> ('v, 'x) tasks \<Rightarrow> bool" where
  "agree_but i tk tk' \<longleftrightarrow>
     tk_drop tk' = tk_drop tk \<and> tk_fire tk' = tk_fire tk \<and> tk_poll tk' = tk_poll tk \<and>
     (\<forall>t s. ex_owner s t \<noteq> Some i \<longrightarrow> tk_run tk' t s = tk_run tk t s)"

lemma agree_but_sym: "agree_but i tk tk' \<Longrightarrow> agree_but i tk' tk"
  by (simp add: agree_but_def)

lemma ready_turn_agree:
  assumes "tasks_ok tk" and "exec_ok s" and "dead i s" and "agree_but i tk tk'"
  shows "ready_turn tk' s = ready_turn tk s"
    and "ready_turn tk s = Inr s1 \<Longrightarrow> exec_ok s1 \<and> dead i s1"
    and "ready_turn tk s = Inl (r, s1) \<Longrightarrow> exec_ok s1 \<and> dead i s1"
proof (atomize (full), cases "ex_queue s")
  case Nil
  with assms show "ready_turn tk' s = ready_turn tk s \<and> (ready_turn tk s = Inr s1 \<longrightarrow> exec_ok s1 \<and> dead i s1) \<and>
      (ready_turn tk s = Inl (r, s1) \<longrightarrow> exec_ok s1 \<and> dead i s1)" by (auto simp: ready_turn_def)
next
  case (Cons x q)
  obtain t j where x: "x = (t, j)" by fastforce
  let ?s = "s\<lparr>ex_queue := q\<rparr>"
  have ok: "exec_ok ?s" and dead: "dead i ?s"
    using exec_ok_pop [OF assms(2) Cons] assms(3) by simp_all
  obtain r1 s2 where run: "run_task tk t j ?s = (r1, s2)" by fastforce
  note keep = run_task_keep [OF assms(1) ok run] tasks_okD(1) [OF assms(1) ok, of t] tasks_okD(2) [OF assms(1) ok dead, of t]
  have "run_task tk' t j ?s = run_task tk t j ?s" if "\<not> ti_killed (ex_infos s j)"
  proof -
    have "ex_owner s t = Some j" using assms(2) Cons x by (auto simp: exec_ok_def)
    with that assms(3) have "ex_owner s t \<noteq> Some i" by (auto simp: dead_def)
    then show ?thesis using assms(4) by (simp add: run_task_def agree_but_def)
  qed
  with Cons x run keep dead assms(4)
  show "ready_turn tk' s = ready_turn tk s \<and> (ready_turn tk s = Inr s1 \<longrightarrow> exec_ok s1 \<and> dead i s1) \<and>
      (ready_turn tk s = Inl (r, s1) \<longrightarrow> exec_ok s1 \<and> dead i s1)"
    by (auto simp: ready_turn_def agree_but_def split: outcome.splits)
qed

lemma run_all_ready_agree:
  fixes tk :: "('v, 'x) tasks"
  assumes "run_all_ready tk s = Some y" and "tasks_ok tk" and "exec_ok s" and "dead i s"
    and "agree_but i tk tk'"
  shows "run_all_ready tk' s = Some y \<and> exec_ok (snd y) \<and> dead i (snd y)"
proof -
  let ?P = "\<lambda>(tk :: ('v, 'x) tasks) s y. tasks_ok tk \<longrightarrow> exec_ok s \<longrightarrow> dead i s \<longrightarrow> agree_but i tk tk' \<longrightarrow>
      run_all_ready tk' s = Some y \<and> exec_ok (snd y) \<and> dead i (snd y)"
  have "?P tk s y"
  proof (rule run_all_ready.raw_induct [where P = ?P, OF _ assms(1)])
    fix again :: "('v, 'x) tasks \<Rightarrow> 'x executor \<Rightarrow> ((unit, unit) outcome \<times> 'x executor) option" and tk s y
    assume IH: "\<And>tk s y. again tk s = Some y \<Longrightarrow> ?P tk s y"
      and eq: "(case ready_turn tk s of Inl res \<Rightarrow> Some res | Inr s1 \<Rightarrow> again tk s1) = Some y"
    show "?P tk s y"
    proof (intro impI)
      assume ok: "tasks_ok tk" "exec_ok s" "dead i s" "agree_but i tk tk'"
      note turn = ready_turn_agree [OF ok]
      show "run_all_ready tk' s = Some y \<and> exec_ok (snd y) \<and> dead i (snd y)"
      proof (cases "ready_turn tk s")
        case (Inl res)
        with eq turn(1) turn(3) [of "fst res" "snd res"] show ?thesis
          by (simp add: run_all_ready.simps [of tk'])
      next
        case (Inr s1)
        with eq IH [of tk s1 y] turn(1) turn(2) [OF Inr] ok(1, 4) show ?thesis
          by (simp add: run_all_ready.simps [of tk' s])
      qed
    qed
  qed
  with assms show ?thesis by blast
qed

lemma block_loop_agree:
  fixes tk :: "('v, 'x) tasks"
  assumes "block_loop pk tk main s = Some y" and "tasks_ok tk" and "exec_ok s" and "dead i s"
    and "agree_but i tk tk'"
  shows "block_loop pk tk' main s = Some y"
proof -
  let ?P = "\<lambda>pk (tk :: ('v, 'x) tasks) main s y. tasks_ok tk \<longrightarrow> exec_ok s \<longrightarrow> dead i s \<longrightarrow>
      agree_but i tk tk' \<longrightarrow> block_loop pk tk' main s = Some y"
  have "?P pk tk main s y"
  proof (rule block_loop.raw_induct [where P = ?P, OF _ assms(1)])
    fix again :: "(callback timer \<Rightarrow> nat) \<Rightarrow> ('v, 'x) tasks \<Rightarrow> nat \<Rightarrow> 'x executor \<Rightarrow>
        ((unit, 'v) outcome \<times> 'x executor) option" and pk tk main s y
    assume IH: "\<And>pk tk main s y. again pk tk main s = Some y \<Longrightarrow> ?P pk tk main s y"
      and eq: "(case run_all_ready tk s of
            None \<Rightarrow> None
          | Some (Ok _, s1) \<Rightarrow>
              (case tk_poll tk main s1 of
                 (Some v, s2) \<Rightarrow> Some (Ok v, s2)
               | (None, s2) \<Rightarrow>
                   (case time_advance pk tk s2 of
                      (going, s3) \<Rightarrow> if going then again pk tk main s3 else Some (Panic, s3)))
          | Some (_, s1) \<Rightarrow> Some (Panic, s1)) = Some y"
    show "?P pk tk main s y"
    proof (intro impI)
      assume ok: "tasks_ok tk" "exec_ok s" "dead i s" and agree: "agree_but i tk tk'"
      from eq obtain r s1 where ready: "run_all_ready tk s = Some (r, s1)"
        by (auto split: option.splits)
      from run_all_ready_agree [OF this ok agree]
      have ready': "run_all_ready tk' s = Some (r, s1)" and s1: "exec_ok s1" "dead i s1" by simp_all
      obtain v s2 where poll: "tk_poll tk main s1 = (v, s2)" by fastforce
      note s2 = tasks_okD(5, 6) [OF ok(1) s1(1) poll]
      obtain going s3 where adv: "time_advance pk tk s2 = (going, s3)" by fastforce
      note s3 = time_advance_keep [OF ok(1) s2(1) adv]
      have "tk_poll tk' main s1 = (v, s2)" "time_advance pk tk' s2 = (going, s3)"
        using poll adv agree by (simp_all add: agree_but_def time_advance_def)
      with eq ready ready' poll adv IH [of pk tk main s3 y] ok(1) s3(1) s3(2) [OF s2(2) [OF s1(2)]] agree
      show "block_loop pk tk' main s = Some y"
        by (subst block_loop.simps) (auto split: outcome.splits option.splits if_splits)
    qed
  qed
  with assms show ?thesis by blast
qed

text \<open>Executors that come about by the operations are well-formed.\<close>

lemma exec_ok_new: "exec_ok (new_executor now x)"
  by (simp add: exec_ok_def new_executor_def)

lemma handle_alive:
  assumes "exec_ok s" and "task_local_handle a s = (i, s')"
  shows "ti_addr (ex_infos s' i) = a" "\<not> ti_killed (ex_infos s' i)"
  using assms unfolding exec_ok_def
  by (auto simp: task_local_handle_def new_info_def Let_def split: option.splits)

text \<open>A task belongs to the node of the task that spawned it, or to the one it was spawned on.\<close>

lemma spawned_on_node:
  assumes "exec_ok s" and "ex_addr s = Some a" and "spawn s = (Ok t, s')"
  shows "\<exists>i. ex_owner s' t = Some i \<and> ti_addr (ex_infos s' i) = a \<and> \<not> ti_killed (ex_infos s' i)"
proof -
  obtain i s1 where h: "task_local_handle a s = (i, s1)" by fastforce
  with assms(2, 3) have "ex_owner s' t = Some i" "ex_infos s' = ex_infos s1"
    by (auto simp: spawn_def spawn_on_def schedule_def)
  with handle_alive [OF assms(1) h] show ?thesis by simp
qed

section \<open>Properties\<close>


text \<open>Tasks that note that they ran, and the same tasks with those of one info panicking.\<close>

definition logging_tasks :: "(unit, nat list) tasks" where
  "logging_tasks =
     \<lparr>tk_run = (\<lambda>t s. (False, s\<lparr>ex_world := t # ex_world s\<rparr>)), tk_drop = (\<lambda>t s. s),
      tk_fire = (\<lambda>c s. s), tk_poll = (\<lambda>t s. (Some (), s))\<rparr>"

definition panicking_node :: "nat \<Rightarrow> (unit, nat list) tasks" where
  "panicking_node i =
     logging_tasks\<lparr>tk_run := (\<lambda>t s. if ex_owner s t = Some i then (True, s)
                                    else tk_run logging_tasks t s)\<rparr>"

definition two_tasks :: "nat list executor" where
  "two_tasks = snd (spawn_on 0 (snd (task_local_handle 7 (new_executor 0 []))))"


end
