(* ===== verification/Objectives.thy ===== *)
theory Objectives
  imports Timeouts
begin

text \<open>
  What the fuzzer keeps as a finding: the objective that \<open>Instance::run\<close> composes
  (\<open>stratamoto-libafl/src/instance.rs\<close>) from the feedbacks of \<open>feedbacks.rs\<close> and from libafl's.
  libafl's combinators, its crash feedback and its coverage feedback are parameters; what their
  documentation says of them is the hypothesis \<open>libafl_ok\<close>. A feedback acts on the whole state
  \<open>'s\<close> of the fuzzer.
\<close>

section \<open>Feedbacks\<close>

record 's feedback =
  interesting :: "program \<Rightarrow> exit_kind \<Rightarrow> 's \<Rightarrow> (string + bool) \<times> 's"
  append_metadata :: "objective \<Rightarrow> 's \<Rightarrow> (string, objective) outcome \<times> 's"

record 's libafl =
  feedback_and :: "'s feedback \<Rightarrow> 's feedback \<Rightarrow> 's feedback"
  feedback_or :: "'s feedback \<Rightarrow> 's feedback \<Rightarrow> 's feedback"
  feedback_or_fast :: "'s feedback \<Rightarrow> 's feedback \<Rightarrow> 's feedback"
  const_feedback :: "bool \<Rightarrow> 's feedback"
  crash_kind_feedback :: "'s feedback"
  map_coverage_feedback :: "'s feedback"

text \<open>The state: the two feedbacks of the repository, the campaign, the events fired, the output of
  the last run, and what libafl keeps.\<close>

record ('m, 'x) fuzzer =
  fz_crash :: crash_feedback
  fz_capture :: capture_feedback
  fz_campaign :: "'x campaign"
  fz_events :: 'm
  fz_output :: "string option option"

definition crash_cause_feedback ::
  "(program \<Rightarrow> string) \<Rightarrow> 'm firing \<Rightarrow> (string set \<Rightarrow> string list) \<Rightarrow> ('m, 'x) fuzzer feedback" where
  "crash_cause_feedback gen_name fire keys =
     \<lparr>interesting = (\<lambda>p k s. (Inr False, s)),
      append_metadata = (\<lambda>tc s.
        case crash_append gen_name fire keys (fz_output s) (fz_crash s) tc (fz_events s) of
          (r, fb, m) \<Rightarrow> (r, s\<lparr>fz_crash := fb, fz_events := m\<rparr>))\<rparr>"

definition capture_timeout_feedback ::
  "(program \<Rightarrow> string) \<Rightarrow> 'm firing \<Rightarrow> ('m, 'x) fuzzer feedback" where
  "capture_timeout_feedback gen_name fire =
     \<lparr>interesting = (\<lambda>p k s.
        case capture_interesting p k (fz_capture s) (fz_campaign s) of
          (b, fb, c) \<Rightarrow> (Inr b, s\<lparr>fz_capture := fb, fz_campaign := c\<rparr>)),
      append_metadata = (\<lambda>tc s.
        case capture_append gen_name fire (fz_capture s) tc (fz_events s) of
          (r, fb, m) \<Rightarrow> (r, s\<lparr>fz_capture := fb, fz_events := m\<rparr>))\<rparr>"

text \<open>The objective of \<open>Instance::run\<close>.\<close>

definition findings_objective ::
  "('m, 'x) fuzzer libafl \<Rightarrow> bool \<Rightarrow> (program \<Rightarrow> string) \<Rightarrow> 'm firing \<Rightarrow> (string set \<Rightarrow> string list) \<Rightarrow>
   ('m, 'x) fuzzer feedback" where
  "findings_objective lb ignore_hangs gen_name fire keys =
     feedback_and lb
       (feedback_or_fast lb
          (feedback_or lb (crash_kind_feedback lb) (crash_cause_feedback gen_name fire keys))
          (feedback_and lb (const_feedback lb (\<not> ignore_hangs)) (capture_timeout_feedback gen_name fire)))
       (map_coverage_feedback lb)"

text \<open>The stage that verifies timeouts, under libafl's \<open>IfStage\<close>.\<close>

definition timeout_verify_stage ::
  "bool \<Rightarrow> ('e, 'x) evaluation \<Rightarrow> verify_stage \<Rightarrow> 'x campaign \<Rightarrow> ('e, unit) outcome \<times> 'x campaign" where
  "timeout_verify_stage ignore_hangs ev vs c =
     (if \<not> ignore_hangs then verify_timeouts ev vs c else (Ok (), c))"

section \<open>What libafl documents\<close>

definition and_then_if ::
  "(string + bool) \<times> 's \<Rightarrow> bool \<Rightarrow> ('s \<Rightarrow> (string + bool) \<times> 's) \<Rightarrow> (bool \<Rightarrow> bool \<Rightarrow> bool) \<Rightarrow>
   (string + bool) \<times> 's" where
  "and_then_if first skip_if_true second combine =
     (case first of
        (Inl e, s) \<Rightarrow> (Inl e, s)
      | (Inr b, s) \<Rightarrow>
          if skip_if_true \<and> b then (Inr True, s)
          else (case second s of (Inl e, s') \<Rightarrow> (Inl e, s') | (Inr b', s') \<Rightarrow> (Inr (combine b b'), s')))"

definition append_both ::
  "'s feedback \<Rightarrow> 's feedback \<Rightarrow> objective \<Rightarrow> 's \<Rightarrow> (string, objective) outcome \<times> 's" where
  "append_both a b tc s =
     (case append_metadata a tc s of
        (Ok tc', s') \<Rightarrow> append_metadata b tc' s'
      | (r, s') \<Rightarrow> (r, s'))"

text \<open>The combinators without \<open>fast\<close> ask both feedbacks, \<open>feedback_or_fast\<close> asks the second only
  when the first says no, and all of them let both append; a constant and the crash feedback keep
  no state. The coverage feedback answers by what libafl keeps of the campaign, and changes
  nothing else.\<close>

definition libafl_ok ::
  "(program \<Rightarrow> exit_kind \<Rightarrow> 'x \<Rightarrow> bool) \<Rightarrow> ('m, 'x) fuzzer libafl \<Rightarrow> bool" where
  "libafl_ok novel lb \<longleftrightarrow>
     (\<forall>a b p k s.
        interesting (feedback_and lb a b) p k s =
          and_then_if (interesting a p k s) False (interesting b p k) (\<and>) \<and>
        interesting (feedback_or lb a b) p k s =
          and_then_if (interesting a p k s) False (interesting b p k) (\<or>) \<and>
        interesting (feedback_or_fast lb a b) p k s =
          and_then_if (interesting a p k s) True (interesting b p k) (\<or>)) \<and>
     (\<forall>a b tc s.
        append_metadata (feedback_and lb a b) tc s = append_both a b tc s \<and>
        append_metadata (feedback_or lb a b) tc s = append_both a b tc s \<and>
        append_metadata (feedback_or_fast lb a b) tc s = append_both a b tc s) \<and>
     (\<forall>c p k s. interesting (const_feedback lb c) p k s = (Inr c, s)) \<and>
     (\<forall>c tc s. append_metadata (const_feedback lb c) tc s = (Ok tc, s)) \<and>
     (\<forall>p k s. interesting (crash_kind_feedback lb) p k s = (Inr (k = ExitCrash), s)) \<and>
     (\<forall>tc s. append_metadata (crash_kind_feedback lb) tc s = (Ok tc, s)) \<and>
     (\<forall>p k s. interesting (map_coverage_feedback lb) p k s =
        (Inr (novel p k (cp_rest (fz_campaign s))), s)) \<and>
     (\<forall>tc s. \<exists>x. append_metadata (map_coverage_feedback lb) tc s =
        (Ok tc, s\<lparr>fz_campaign := (fz_campaign s)\<lparr>cp_rest := x\<rparr>\<rparr>))"

section \<open>The objective\<close>

lemma objective_interesting:
  assumes "libafl_ok novel lb"
  shows "interesting (findings_objective lb ignore_hangs gen_name fire keys) p k s =
    (let c = fz_campaign s;
         captured = (k = ExitTimeout \<and> cp_capture c);
         confirmed = (k = ExitTimeout \<and> \<not> cp_capture c)
     in (Inr ((k = ExitCrash \<or> confirmed \<and> \<not> ignore_hangs) \<and> novel p k (cp_rest c)),
         if k = ExitCrash then s
         else s\<lparr>fz_capture := (fz_capture s)\<lparr>cpf_triggered := confirmed\<rparr>,
                fz_campaign := (if captured then c\<lparr>cp_queue := Some (push_timeout p (queued c))\<rparr> else c)\<rparr>))"
  using assms
  by (auto simp: libafl_ok_def findings_objective_def and_then_if_def crash_cause_feedback_def
      capture_timeout_feedback_def capture_interesting_def Let_def)

lemma map_append:
  "libafl_ok novel lb \<Longrightarrow> \<exists>x. append_metadata (map_coverage_feedback lb) tc s =
     (Ok tc, s\<lparr>fz_campaign := (fz_campaign s)\<lparr>cp_rest := x\<rparr>\<rparr>)"
  by (simp add: libafl_ok_def)

text \<open>What the objective appends: the cause a scenario's output reports, and then a timeout's.\<close>

lemma objective_append:
  assumes "libafl_ok novel lb" and "\<forall>c n m. \<exists>m'. fire c n m = (Inr (), m')"
    and "fz_output s = Some output" and "ob_filename tc = Some base"
  shows "\<exists>tc' s'. append_metadata (findings_objective lb ignore_hangs gen_name fire keys) tc s = (Ok tc', s') \<and>
    fz_capture s' = (if cpf_triggered (fz_capture s)
      then (fz_capture s)\<lparr>cpf_found := cpf_found (fz_capture s) + 1\<rparr> else fz_capture s) \<and>
    ob_path tc' =
      (if cpf_triggered (fz_capture s) then Some (cpf_dir (fz_capture s), ''timeout-'' @ base)
       else case Option.bind output cause_of of
              None \<Rightarrow> ob_path tc
            | Some cause \<Rightarrow> Some (cf_dir (fz_crash s), cause @ ''-'' @ base))"
proof -
  let ?cause = "Option.bind output cause_of"
  let ?tc = "case ?cause of None \<Rightarrow> tc | Some c \<Rightarrow> tc\<lparr>ob_path := Some (cf_dir (fz_crash s), c @ ''-'' @ base)\<rparr>"
  have "\<exists>fb m. crash_append gen_name fire keys (fz_output s) (fz_crash s) tc (fz_events s) = (Ok ?tc, fb, m)"
  proof (cases ?cause)
    case None
    then show ?thesis by (simp add: crash_append_def assms(3))
  next
    case (Some cause)
    then obtain out where "output = Some out" "cause_of out = Some cause" by (auto simp: bind_eq_Some_conv)
    with crash_append_files [OF assms(2) this(2) assms(4)] assms(3) show ?thesis by fastforce
  qed
  then obtain fb m where crash:
    "crash_append gen_name fire keys (fz_output s) (fz_crash s) tc (fz_events s) = (Ok ?tc, fb, m)" by blast
  let ?s = "s\<lparr>fz_crash := fb, fz_events := m\<rparr>"
  let ?tc2 = "if cpf_triggered (fz_capture s)
    then ?tc\<lparr>ob_path := Some (cpf_dir (fz_capture s), ''timeout'' @ ''-'' @ base)\<rparr> else ?tc"
  let ?fb2 = "if cpf_triggered (fz_capture s)
    then (fz_capture s)\<lparr>cpf_found := cpf_found (fz_capture s) + 1\<rparr> else fz_capture s"
  have name: "ob_filename ?tc = Some base" using assms(4) by (simp split: option.splits)
  obtain m2 where "fire ''timeout'' (cpf_found (fz_capture s) + 1) m = (Inr (), m2)" using assms(2) by blast
  with name have "\<exists>m2. capture_append gen_name fire (fz_capture s) ?tc m = (Ok ?tc2, ?fb2, m2)"
    by (auto simp: capture_append_def set_filename_def Let_def)
  then obtain m2 where "capture_append gen_name fire (fz_capture s) ?tc m = (Ok ?tc2, ?fb2, m2)" by blast
  with crash have "append_both
      (feedback_or_fast lb (feedback_or lb (crash_kind_feedback lb) (crash_cause_feedback gen_name fire keys))
         (feedback_and lb (const_feedback lb (\<not> ignore_hangs)) (capture_timeout_feedback gen_name fire)))
      (map_coverage_feedback lb) tc s =
      append_metadata (map_coverage_feedback lb) ?tc2 (?s\<lparr>fz_capture := ?fb2, fz_events := m2\<rparr>)"
    using assms(1)
    by (simp add: libafl_ok_def append_both_def crash_cause_feedback_def capture_timeout_feedback_def)
  moreover obtain x where "append_metadata (map_coverage_feedback lb) ?tc2 (?s\<lparr>fz_capture := ?fb2, fz_events := m2\<rparr>) =
      (Ok ?tc2, ?s\<lparr>fz_capture := ?fb2, fz_events := m2, fz_campaign := (fz_campaign s)\<lparr>cp_rest := x\<rparr>\<rparr>)"
    using map_append [OF assms(1), of ?tc2 "?s\<lparr>fz_capture := ?fb2, fz_events := m2\<rparr>"] by auto
  ultimately show ?thesis
    using assms(1) by (auto simp: libafl_ok_def findings_objective_def split: option.splits)
qed

section \<open>Properties\<close>

text \<open>A run is kept as a finding exactly when its coverage is new among the findings and it crashed,
  or timed out while timeouts are not captured and hangs are not ignored. A timeout while they are
  captured is queued for verification instead, whatever its coverage, and no other run changes
  the queue.\<close>

theorem findings_are_exact:
  assumes "libafl_ok novel lb"
    and "interesting (findings_objective lb ignore_hangs gen_name fire keys) p k s = (r, s')"
  shows "r = Inr (novel p k (cp_rest (fz_campaign s)) \<and>
      (k = ExitCrash \<or> k = ExitTimeout \<and> \<not> cp_capture (fz_campaign s) \<and> \<not> ignore_hangs)) \<and>
    fz_campaign s' = (if k = ExitTimeout \<and> cp_capture (fz_campaign s)
      then (fz_campaign s)\<lparr>cp_queue := Some (queued (fz_campaign s) @ [p])\<rparr> else fz_campaign s)"
proof -
  have "\<not> (ExitCrash = ExitTimeout)" by simp
  with assms(2) show ?thesis
    by (auto simp: objective_interesting [OF assms(1)] Let_def push_timeout_def)
qed

text \<open>Combinators that do what libafl documents.\<close>

definition demo_libafl :: "('m, 'x) fuzzer libafl" where
  "demo_libafl =
     \<lparr>feedback_and = (\<lambda>a b. \<lparr>interesting = (\<lambda>p k s. and_then_if (interesting a p k s) False (interesting b p k) (\<and>)),
                             append_metadata = append_both a b\<rparr>),
      feedback_or = (\<lambda>a b. \<lparr>interesting = (\<lambda>p k s. and_then_if (interesting a p k s) False (interesting b p k) (\<or>)),
                            append_metadata = append_both a b\<rparr>),
      feedback_or_fast = (\<lambda>a b. \<lparr>interesting = (\<lambda>p k s. and_then_if (interesting a p k s) True (interesting b p k) (\<or>)),
                                 append_metadata = append_both a b\<rparr>),
      const_feedback = (\<lambda>c. \<lparr>interesting = (\<lambda>p k s. (Inr c, s)), append_metadata = (\<lambda>tc s. (Ok tc, s))\<rparr>),
      crash_kind_feedback = \<lparr>interesting = (\<lambda>p k s. (Inr (k = ExitCrash), s)), append_metadata = (\<lambda>tc s. (Ok tc, s))\<rparr>,
      map_coverage_feedback = \<lparr>interesting = (\<lambda>p k s. (Inr True, s)), append_metadata = (\<lambda>tc s. (Ok tc, s))\<rparr>\<rparr>"

lemma demo_libafl_ok: "libafl_ok (\<lambda>p k x. True) demo_libafl"
proof -
  have "\<exists>x. s = s\<lparr>fz_campaign := (fz_campaign s)\<lparr>cp_rest := x\<rparr>\<rparr>" for s :: "('m, 'x) fuzzer"
    by (intro exI [of _ "cp_rest (fz_campaign s)"]) simp
  then show ?thesis by (auto simp: libafl_ok_def demo_libafl_def)
qed

definition demo_fuzzer :: "bool \<Rightarrow> (unit, unit) fuzzer" where
  "demo_fuzzer capture =
     \<lparr>fz_crash = \<lparr>cf_counts = Map.empty, cf_dir = ''crashes''\<rparr>,
      fz_capture = \<lparr>cpf_found = 0, cpf_dir = ''crashes'', cpf_triggered = False\<rparr>,
      fz_campaign = \<lparr>cp_timeout = 5, cp_capture = capture, cp_queue = None, cp_rest = ()\<rparr>,
      fz_events = (), fz_output = Some None\<rparr>"

abbreviation demo_objective :: "bool \<Rightarrow> (unit, unit) fuzzer feedback" where
  "demo_objective ignore \<equiv>
     findings_objective demo_libafl ignore (\<lambda>_. []) (\<lambda>c n m. (Inr (), m)) (\<lambda>_. [])"

theorem findings_are_exact_witness:
  "fst (interesting (demo_objective False) demo_program ExitTimeout (demo_fuzzer True)) = Inr False \<and>
   cp_queue (fz_campaign (snd (interesting (demo_objective False) demo_program ExitTimeout
     (demo_fuzzer True)))) = Some [demo_program]"
proof -
  obtain r s' where run: "interesting (demo_objective False) demo_program ExitTimeout (demo_fuzzer True) = (r, s')"
    by fastforce
  from findings_are_exact [OF demo_libafl_ok run] run show ?thesis
    by (simp add: demo_fuzzer_def queued_def no_timeouts_def)
qed

text \<open>A crash right after a confirmed timeout is filed as a timeout: the objective does not ask the
  capture of timeouts about a crash, which leaves it triggered by the run before, and so the
  crash counts as a timeout and goes under \<open>timeout\<close>, whatever cause its own output reports.\<close>

theorem crash_after_timeout_misfiled:
  assumes "libafl_ok novel lb" and "\<forall>c n m. \<exists>m'. fire c n m = (Inr (), m')"
    and "obj = findings_objective lb ignore_hangs gen_name fire keys"
    and "\<not> cp_capture (fz_campaign s)" and "interesting obj p ExitTimeout s = (r1, s1)"
    and "fz_capture s2 = fz_capture s1" and "interesting obj q ExitCrash s2 = (Inr True, s3)"
    and "fz_output s3 = Some output" and "ob_filename tc = Some base"
  shows "\<exists>tc' s4. append_metadata obj tc s3 = (Ok tc', s4) \<and>
    ob_path tc' = Some (cpf_dir (fz_capture s), ''timeout-'' @ base) \<and>
    cpf_found (fz_capture s4) = cpf_found (fz_capture s) + 1"
proof -
  have s1: "fz_capture s1 = (fz_capture s)\<lparr>cpf_triggered := True\<rparr>"
    using assms(4, 5) by (auto simp: assms(3) objective_interesting [OF assms(1)] Let_def)
  have "s3 = s2"
    using assms(7) by (simp add: assms(3) objective_interesting [OF assms(1)] Let_def)
  with s1 assms(6) have "fz_capture s3 = (fz_capture s)\<lparr>cpf_triggered := True\<rparr>" by simp
  with objective_append [OF assms(1, 2, 8, 9), of ignore_hangs gen_name keys] show ?thesis
    by (auto simp: assms(3))
qed

theorem crash_after_timeout_misfiled_witness:
  "\<exists>tc' s1 s4. s1 = snd (interesting (demo_objective False) demo_program ExitTimeout (demo_fuzzer False)) \<and>
     append_metadata (demo_objective False)
       \<lparr>ob_filename = Some ''a'', ob_input = None, ob_path = None\<rparr>
       (s1\<lparr>fz_output := Some (Some ''FAIL: CrashOracle: gone'')\<rparr>) = (Ok tc', s4) \<and>
     ob_path tc' = Some (''crashes'', ''timeout-a'')"
proof -
  let ?s = "demo_fuzzer False" and ?obj = "demo_objective False"
  obtain r1 s1 where one: "interesting ?obj demo_program ExitTimeout ?s = (r1, s1)" by fastforce
  let ?s2 = "s1\<lparr>fz_output := Some (Some ''FAIL: CrashOracle: gone'')\<rparr>"
  have two: "interesting ?obj demo_program ExitCrash ?s2 = (Inr True, ?s2)"
    by (simp add: objective_interesting [OF demo_libafl_ok] Let_def)
  have "\<exists>tc' s4. append_metadata ?obj \<lparr>ob_filename = Some ''a'', ob_input = None, ob_path = None\<rparr> ?s2 = (Ok tc', s4) \<and>
      ob_path tc' = Some (cpf_dir (fz_capture ?s), ''timeout-'' @ ''a'') \<and>
      cpf_found (fz_capture s4) = cpf_found (fz_capture ?s) + 1"
    by (rule crash_after_timeout_misfiled [OF demo_libafl_ok _ refl _ one _ two])
      (simp_all add: demo_fuzzer_def)
  with one show ?thesis by (auto simp: demo_fuzzer_def)
qed

text \<open>When hangs are ignored, timeouts pile up: the objective queues them all the same, and the
  stage that would take them from the queue does not run.\<close>

theorem ignored_hangs_pile_up:
  assumes "libafl_ok novel lb" and "cp_capture (fz_campaign s)"
    and "obj = findings_objective lb True gen_name fire keys"
  shows "cp_queue (fz_campaign (fold (\<lambda>p s.
      let s1 = snd (interesting obj p ExitTimeout s)
      in s1\<lparr>fz_campaign := snd (timeout_verify_stage True ev vs (fz_campaign s1))\<rparr>) ps s)) =
    (if ps = [] then cp_queue (fz_campaign s) else Some (queued (fz_campaign s) @ ps))"
  using assms(2)
proof (induction ps arbitrary: s)
  case (Cons p ps)
  let ?c = "fz_campaign s"
  obtain r s1 where run: "interesting obj p ExitTimeout s = (r, s1)" by fastforce
  with Cons.prems have s1: "fz_campaign s1 = ?c\<lparr>cp_queue := Some (queued ?c @ [p])\<rparr>"
    by (auto simp: assms(3) objective_interesting [OF assms(1)] Let_def push_timeout_def)
  with Cons.prems have "cp_capture (fz_campaign s1)" "queued (fz_campaign s1) = queued ?c @ [p]"
    by (simp_all add: queued_def)
  with Cons.IH [of s1] s1 run show ?case by (simp add: Let_def timeout_verify_stage_def)
qed simp

theorem ignored_hangs_pile_up_witness:
  "cp_queue (fz_campaign (fold (\<lambda>p s.
      let s1 = snd (interesting (demo_objective True) p ExitTimeout s)
      in s1\<lparr>fz_campaign := snd (timeout_verify_stage True (\<lambda>p c. (Inr () :: string + unit, c))
          (new_verify_stage 5 3) (fz_campaign s1))\<rparr>) [demo_program, setup_program] (demo_fuzzer True))) =
    Some [demo_program, setup_program]"
proof -
  have "cp_capture (fz_campaign (demo_fuzzer True))" by (simp add: demo_fuzzer_def)
  from ignored_hangs_pile_up [OF demo_libafl_ok this refl, of _ _ _ "\<lambda>p c. (Inr () :: string + unit, c)"
      "new_verify_stage 5 3" "[demo_program, setup_program]"]
  show ?thesis by (simp add: demo_fuzzer_def queued_def no_timeouts_def)
qed

end
