(* ===== verification/Minimizing.thy ===== *)
theory Minimizing
  imports Minimizer_Stage
begin

text \<open>
  How the fuzzer minimizes an entry: the stages of \<open>Instance::run\<close>
  (\<open>stratamoto-libafl/src/instance.rs\<close>) that run the three minimizers in turn, under libafl's
  \<open>WhileStage\<close>, until a pass over them changes nothing. The three stages share one counter of
  successes and keep their own counts of failures.
\<close>

section \<open>A pass\<close>

record pipeline =
  pl_cutting :: stage
  pl_block :: stage
  pl_nopping :: stage
  pl_continue :: nat

type_synonym 'x passed = "(unit, pipeline \<times> testcase \<times> 'x) outcome option"

text \<open>A stage with the counter it shares.\<close>

definition sharing :: "nat \<Rightarrow> stage \<Rightarrow> stage" where
  "sharing n st = st\<lparr>keep_minimizing := n\<rparr>"

text \<open>Going on after a stage, with its new state, the entry, the evaluator's and the counter's.\<close>

definition after_stage ::
  "(unit, stage \<times> testcase \<times> 'x) outcome option \<Rightarrow> (stage \<Rightarrow> testcase \<Rightarrow> 'x \<Rightarrow> 'x passed) \<Rightarrow> 'x passed" where
  "after_stage r f =
     (case r of
        None \<Rightarrow> None
      | Some (Ok (st, tc, x)) \<Rightarrow> f st tc x
      | Some (Err e) \<Rightarrow> Some (Err e)
      | Some Panic \<Rightarrow> Some Panic)"

definition minimize_pass :: "'x evaluator \<Rightarrow> pipeline \<Rightarrow> testcase \<Rightarrow> 'x \<Rightarrow> 'x passed" where
  "minimize_pass ev pl tc x =
     after_stage (perform_stage cutting_ops ev (sharing 0 (pl_cutting pl)) tc x) (\<lambda>c tc x.
     after_stage (perform_stage block_ops ev (sharing (keep_minimizing c) (pl_block pl)) tc x) (\<lambda>b tc x.
     after_stage (perform_stage nopping_ops ev (sharing (keep_minimizing b) (pl_nopping pl)) tc x) (\<lambda>n tc x.
       Some (Ok (\<lparr>pl_cutting = c, pl_block = b, pl_nopping = n, pl_continue = keep_minimizing n\<rparr>, tc, x)))))"

section \<open>The loop\<close>

partial_function (option) minimize_loop ::
  "'x evaluator \<Rightarrow> bool \<Rightarrow> pipeline \<Rightarrow> testcase \<Rightarrow> 'x \<Rightarrow> 'x passed" where
  "minimize_loop ev enabled pl tc x =
     (if enabled \<and> pl_continue pl > 0 then
        (case minimize_pass ev pl tc x of
           None \<Rightarrow> None
         | Some r \<Rightarrow>
             (case r of
                Ok (pl', tc', x') \<Rightarrow> minimize_loop ev enabled pl' tc' x'
              | Err e \<Rightarrow> Some (Err e)
              | Panic \<Rightarrow> Some Panic))
      else Some (Ok (pl, tc, x)))"

text \<open>There is always one pass, unless the corpus is static and no crash is minimized.\<close>

definition minimize_entry :: "'x evaluator \<Rightarrow> bool \<Rightarrow> bool \<Rightarrow> pipeline \<Rightarrow> testcase \<Rightarrow> 'x \<Rightarrow> 'x passed" where
  "minimize_entry ev static_corpus minimizing pl tc x =
     minimize_loop ev (\<not> static_corpus \<or> minimizing) (pl\<lparr>pl_continue := 1\<rparr>) tc x"

section \<open>What a pass does\<close>

definition reduced :: "testcase \<Rightarrow> testcase \<Rightarrow> nat \<Rightarrow> bool" where
  "reduced tc tc' n \<longleftrightarrow>
     valid_program (tc_input tc') \<and> prog_context (tc_input tc') = prog_context (tc_input tc) \<and>
     (if n = 0 then tc' = tc else smaller (tc_input tc') (tc_input tc))"

lemma reduced_trans:
  "reduced tc tc1 n \<Longrightarrow>
   valid_program (tc_input tc2) \<and> prog_context (tc_input tc2) = prog_context (tc_input tc1) \<and>
   (tc2 = tc1 \<and> m = n \<or> smaller (tc_input tc2) (tc_input tc1) \<and> m = n + 1) \<Longrightarrow>
   reduced tc tc2 m"
  by (auto simp: reduced_def intro: smaller_trans split: if_splits)

lemma minimize_pass_reduces:
  assumes "always_runs ev" and "valid_program (tc_input tc)"
  shows "\<exists>pl' tc' x'. minimize_pass ev pl tc x = Some (Ok (pl', tc', x')) \<and> reduced tc tc' (pl_continue pl')"
proof -
  have "reduced tc tc 0" using assms(2) by (simp add: reduced_def)
  obtain c tc1 x1 where c: "perform_stage cutting_ops ev (sharing 0 (pl_cutting pl)) tc x = Some (Ok (c, tc1, x1))"
    "reduced tc tc1 (keep_minimizing c)"
    using cutting.perform_reduces [OF assms(1, 2), of "sharing 0 (pl_cutting pl)" x]
      reduced_trans [OF \<open>reduced tc tc 0\<close>] by (auto simp: sharing_def)
  then have "valid_program (tc_input tc1)" unfolding reduced_def by blast
  from block.perform_reduces [OF assms(1) this, of "sharing (keep_minimizing c) (pl_block pl)" x1]
  obtain b tc2 x2 where b:
    "perform_stage block_ops ev (sharing (keep_minimizing c) (pl_block pl)) tc1 x1 = Some (Ok (b, tc2, x2))"
    "reduced tc tc2 (keep_minimizing b)"
    using reduced_trans [OF c(2)] by (auto simp: sharing_def)
  then have "valid_program (tc_input tc2)" unfolding reduced_def by blast
  from nopping.perform_reduces [OF assms(1) this, of "sharing (keep_minimizing b) (pl_nopping pl)" x2]
  obtain n tc3 x3 where n:
    "perform_stage nopping_ops ev (sharing (keep_minimizing b) (pl_nopping pl)) tc2 x2 = Some (Ok (n, tc3, x3))"
    "reduced tc tc3 (keep_minimizing n)"
    using reduced_trans [OF b(2)] by (auto simp: sharing_def)
  with c(1) b(1) show ?thesis by (simp add: minimize_pass_def after_stage_def)
qed

lemma minimize_loop_rests:
  assumes "always_runs ev" and "valid_program (tc_input tc)"
  shows "\<exists>pl' tc' x'. minimize_loop ev True pl tc x = Some (Ok (pl', tc', x')) \<and> pl_continue pl' = 0 \<and>
    valid_program (tc_input tc') \<and> prog_context (tc_input tc') = prog_context (tc_input tc) \<and>
    (tc' = tc \<or> smaller (tc_input tc') (tc_input tc))"
  using assms(2)
proof (induction "tc_input tc" arbitrary: pl tc x rule: smaller_induct)
  case 1
  show ?case
  proof (cases "pl_continue pl > 0")
    case False
    with "1.prems" show ?thesis by (simp add: minimize_loop.simps)
  next
    case True
    obtain pl1 tc1 x1 where pass: "minimize_pass ev pl tc x = Some (Ok (pl1, tc1, x1))"
      "reduced tc tc1 (pl_continue pl1)"
      using minimize_pass_reduces [OF assms(1) "1.prems"] by blast
    with True have step: "minimize_loop ev True pl tc x = minimize_loop ev True pl1 tc1 x1"
      by (simp add: minimize_loop.simps [of ev True pl])
    show ?thesis
    proof (cases "pl_continue pl1 = 0")
      case True
      with step pass(2) show ?thesis by (auto simp: minimize_loop.simps [of ev True pl1] reduced_def)
    next
      case False
      with pass(2) have s: "smaller (tc_input tc1) (tc_input tc)" "valid_program (tc_input tc1)"
        "prog_context (tc_input tc1) = prog_context (tc_input tc)" by (auto simp: reduced_def)
      from "1.hyps" [OF s(1) s(2), of pl1 x1] step s(1, 3) show ?thesis by (auto intro: smaller_trans)
    qed
  qed
qed

section \<open>Properties\<close>



end
