(* ===== verification/Pool.thy ===== *)
theory Pool
  imports Scenario
begin

text \<open>
  The pool under test (\<open>stratamoto-targets/src/pool.rs\<close>): starting its process, waiting until it
  serves, and the deployment that programs run against. The operating system is a record of
  functions over a world \<open>'w\<close>: the clock, sleeping, files, the process, connecting a socket and
  the handshake on it, which yields a link of type \<open>'l\<close>. \<open>hs_create\<close> creates the log and the second
  handle on it; the text of an error is the host's.
\<close>

section \<open>The host\<close>

type_synonym io_error = "io_kind \<times> string"

type_synonym 'a io = "io_error + 'a"

record ('k, 'l, 'w) host =
  hs_now :: "'w \<Rightarrow> nat \<times> 'w"
  hs_sleep :: "duration \<Rightarrow> 'w \<Rightarrow> 'w"
  hs_connect :: "string \<Rightarrow> duration \<Rightarrow> 'w \<Rightarrow> 'k io \<times> 'w"
  hs_handshake :: "'k \<Rightarrow> duration \<Rightarrow> 'w \<Rightarrow> (harness_error + 'l) \<times> 'w"
  hs_env :: "string \<Rightarrow> 'w \<Rightarrow> string option"
  hs_free_address :: "'w \<Rightarrow> string io \<times> 'w"
  hs_pool_dir :: "string \<Rightarrow> 'w \<Rightarrow> string"
  hs_create_dir :: "string \<Rightarrow> 'w \<Rightarrow> unit io \<times> 'w"
  hs_remove_dir :: "string \<Rightarrow> 'w \<Rightarrow> 'w"
  hs_write :: "string \<Rightarrow> string \<Rightarrow> 'w \<Rightarrow> unit io \<times> 'w"
  hs_create :: "string \<Rightarrow> 'w \<Rightarrow> unit io \<times> 'w"
  hs_spawn :: "string \<Rightarrow> string list \<Rightarrow> string \<Rightarrow> 'w \<Rightarrow> unit io \<times> 'w"
  hs_try_wait :: "'w \<Rightarrow> string option io \<times> 'w"
  hs_kill :: "'w \<Rightarrow> 'w"

text \<open>The errors of the crate (\<open>lib.rs\<close>).\<close>

datatype target_error = TargetIo io_kind string | Transport harness_error | Startup string

fun target_error_display :: "target_error \<Rightarrow> string" where
  "target_error_display (TargetIo k e) = ''io: '' @ e"
| "target_error_display (Transport e) = ''transport: '' @ error_display e"
| "target_error_display (Startup e) = ''startup: '' @ e"

definition startup_timeout :: duration where "startup_timeout = 30 * nanos_per_sec"
definition io_timeout :: duration where "io_timeout = 10 * nanos_per_sec"
definition liveness_timeout :: duration where "liveness_timeout = 2 * nanos_per_sec"
definition connect_retry_budget :: duration where "connect_retry_budget = 3 * nanos_per_sec"

section \<open>Dialling\<close>

definition dial_attempt :: "('k, 'l, 'w) host \<Rightarrow> string \<Rightarrow> 'w \<Rightarrow> (harness_error + 'l) \<times> 'w" where
  "dial_attempt h address w =
     (case hs_connect h address io_timeout w of
        (Inl (k, e), w1) \<Rightarrow> (Inl (IoError k e), w1)
      | (Inr socket, w1) \<Rightarrow> hs_handshake h socket io_timeout w1)"

partial_function (option) dial_loop ::
  "('k, 'l, 'w) host \<Rightarrow> string \<Rightarrow> nat \<Rightarrow> 'w \<Rightarrow> ((harness_error + 'l) \<times> 'w) option" where
  "dial_loop h address deadline w =
     (case dial_attempt h address w of
        (r, w1) \<Rightarrow>
          (case r of
             Inr l \<Rightarrow> Some (Inr l, w1)
           | Inl e \<Rightarrow>
               (case hs_now h w1 of
                  (now, w2) \<Rightarrow>
                    if now < deadline
                    then dial_loop h address deadline (hs_sleep h (50 * nanos_per_milli) w2)
                    else Some (Inl e, w2))))"

definition dial ::
  "('k, 'l, 'w) host \<Rightarrow> string \<Rightarrow> duration \<Rightarrow> 'w \<Rightarrow> ((harness_error + 'l) \<times> 'w) option" where
  "dial h address budget w =
     (case hs_now h w of (now, w1) \<Rightarrow> dial_loop h address (now + budget) w1)"

section \<open>The process\<close>

record pool =
  pool_address :: string
  pool_dir :: string
  pool_log :: string

definition is_running :: "('k, 'l, 'w) host \<Rightarrow> 'w \<Rightarrow> bool" where
  "is_running h w = (case fst (hs_try_wait h w) of Inr None \<Rightarrow> True | _ \<Rightarrow> False)"

definition drop_pool :: "('k, 'l, 'w) host \<Rightarrow> pool \<Rightarrow> 'w \<Rightarrow> 'w" where
  "drop_pool h pool w = hs_remove_dir h (pool_dir pool) (hs_kill h w)"

partial_function (option) wait_loop ::
  "('k, 'l, 'w) host \<Rightarrow> pool \<Rightarrow> nat \<Rightarrow> 'w \<Rightarrow> ((target_error + unit) \<times> 'w) option" where
  "wait_loop h pool deadline w =
     (case hs_try_wait h w of
        (r, w1) \<Rightarrow>
          (case r of
             Inl (k, e) \<Rightarrow> Some (Inl (TargetIo k e), w1)
           | Inr (Some status) \<Rightarrow>
               Some (Inl (Startup (''the pool exited with '' @ status @
                 '' before accepting a connection; its log is '' @ pool_log pool)), w1)
           | Inr None \<Rightarrow>
               (case dial h (pool_address pool) connect_retry_budget w1 of
                  None \<Rightarrow> None
                | Some (d, w2) \<Rightarrow>
                    (case d of
                       Inr l \<Rightarrow> Some (Inr (), w2)
                     | Inl e \<Rightarrow>
                         (case hs_now h w2 of
                            (now, w3) \<Rightarrow>
                              if deadline \<le> now
                              then Some (Inl (Startup (''the pool never accepted a connection: '' @
                                     error_display e)), w3)
                              else wait_loop h pool deadline (hs_sleep h (100 * nanos_per_milli) w3))))))"

definition wait_until_accepting ::
  "('k, 'l, 'w) host \<Rightarrow> pool \<Rightarrow> 'w \<Rightarrow> ((target_error + unit) \<times> 'w) option" where
  "wait_until_accepting h pool w =
     (case hs_now h w of (now, w1) \<Rightarrow> wait_loop h pool (now + startup_timeout) w1)"

text \<open>The configuration file; the keys, the descriptor and the schema version are constants.\<close>

definition pool_config :: "string \<Rightarrow> string \<Rightarrow> string" where
  "pool_config listen node_data_dir =
     ''listen_address = '' @ [CHR 0x22] @ listen @ [CHR 0x22] @ newline @
     ''authority_public_key = '' @ [CHR 0x22] @ ''9auqWEzQDVyd2oe1JVGFLMLHZtCo2FFqZwtKA5gd9xbuEu7PH72'' @ [CHR 0x22] @ newline @
     ''authority_secret_key = '' @ [CHR 0x22] @ ''mkDLTBBRxdBv998612qipDYoTK3YUrqLe8uWw7gu3iXbSrn2n'' @ [CHR 0x22] @ newline @
     ''cert_validity_sec = 3600'' @ newline @
     ''coinbase_reward_script = '' @ [CHR 0x22] @ ''addr(tb1qa0sm0hxzj0x25rh8gw5xlzwlsfvvyz8u96w3p8)'' @ [CHR 0x22] @ newline @
     ''pool_signature = '' @ [CHR 0x22] @ ''stratamoto'' @ [CHR 0x22] @ newline @
     ''shares_per_minute = 120.0'' @ newline @
     ''share_batch_size = 1'' @ newline @
     ''server_id = 1'' @ newline @ newline @
     ''[template_provider_type.BitcoinCoreIpc]'' @ newline @
     ''version = 31'' @ newline @
     ''network = '' @ [CHR 0x22] @ ''regtest'' @ [CHR 0x22] @ newline @
     ''data_dir = '' @ [CHR 0x22] @ node_data_dir @ [CHR 0x22] @ newline @
     ''fee_threshold = 0'' @ newline @
     ''min_interval = 1'' @ newline"

text \<open>Going on after an operation that may fail.\<close>

fun on_io :: "'a io \<times> 'w \<Rightarrow> ('a \<Rightarrow> 'w \<Rightarrow> ((target_error + 'b) \<times> 'w) option) \<Rightarrow>
    ((target_error + 'b) \<times> 'w) option" where
  "on_io (Inl (k, e), w) f = Some (Inl (TargetIo k e), w)"
| "on_io (Inr a, w) f = f a w"

text \<open>A pool that does not come up is killed, and then dropped, which kills it again and removes
  its directory.\<close>

definition spawn_pool ::
  "('k, 'l, 'w) host \<Rightarrow> string \<Rightarrow> string \<Rightarrow> pool \<Rightarrow> 'w \<Rightarrow> ((target_error + pool) \<times> 'w) option" where
  "spawn_pool h binary config_path pool w =
     (case hs_spawn h binary [''--config'', config_path] (pool_log pool) w of
        (Inl (k, e), w1) \<Rightarrow> Some (Inl (Startup (''could not start '' @ binary @ '': '' @ e)), w1)
      | (Inr _, w1) \<Rightarrow>
          (case wait_until_accepting h pool w1 of
             None \<Rightarrow> None
           | Some (Inl e, w2) \<Rightarrow> Some (Inl e, drop_pool h pool (hs_kill h w2))
           | Some (Inr _, w2) \<Rightarrow> Some (Inr pool, w2)))"

definition start_pool ::
  "('k, 'l, 'w) host \<Rightarrow> string \<Rightarrow> string \<Rightarrow> 'w \<Rightarrow> ((target_error + pool) \<times> 'w) option" where
  "start_pool h binary node_data_dir w =
     on_io (hs_free_address h w) (\<lambda>address w.
       let dir = hs_pool_dir h address w; config_path = dir @ ''/pool-config.toml'' in
       on_io (hs_create_dir h dir w) (\<lambda>_ w.
       on_io (hs_write h config_path (pool_config address node_data_dir) w) (\<lambda>_ w.
         let log_path = (case hs_env h ''STRATAMOTO_POOL_LOG'' w of None \<Rightarrow> dir @ ''/pool.log'' | Some p \<Rightarrow> p) in
         on_io (hs_create h log_path w) (\<lambda>_ w.
           spawn_pool h binary config_path \<lparr>pool_address = address, pool_dir = dir, pool_log = log_path\<rparr> w))))"

section \<open>The deployment\<close>

definition pool_roles :: "role_config list" where
  "pool_roles = [new_role_config MiningProtocol]"

text \<open>\<open>dial\<close> returns when the clock moves on (\<open>dial_returns\<close>), so its missing result is
  never looked at then.\<close>

definition pool_connect ::
  "('k, 'l, 'w) host \<Rightarrow> pool \<Rightarrow> nat \<Rightarrow> nat \<Rightarrow> 'w \<Rightarrow> 'l option \<times> 'w" where
  "pool_connect h pool conn role w =
     (if length pool_roles \<le> role then (None, w)
      else case dial h (pool_address pool) connect_retry_budget w of
        Some (Inr l, w1) \<Rightarrow> (Some l, w1)
      | Some (Inl _, w1) \<Rightarrow> (None, w1)
      | None \<Rightarrow> (None, w))"

definition pool_is_alive :: "('k, 'l, 'w) host \<Rightarrow> pool \<Rightarrow> 'w \<Rightarrow> bool" where
  "pool_is_alive h pool w =
     (case dial h (pool_address pool) liveness_timeout w of Some (Inr l, w1) \<Rightarrow> True | _ \<Rightarrow> False)"

text \<open>What the links do, the clock and the order of maps are as in \<open>base\<close>.\<close>

definition pool_deployment ::
  "('k, 'l, 'w) host \<Rightarrow> pool \<Rightarrow> ('l, 'w) deployment \<Rightarrow> ('l, 'w) deployment" where
  "pool_deployment h pool base =
     base\<lparr>dep_connect := pool_connect h pool, dep_role_config := get pool_roles,
           dep_num_roles := length pool_roles, dep_advance_time := hs_sleep h,
           dep_is_alive := pool_is_alive h pool\<rparr>"

section \<open>Time\<close>

text \<open>A clock that does not go back, and that sleeping moves on by what was asked for.\<close>

definition clock_ok :: "('k, 'l, 'w) host \<Rightarrow> ('w \<Rightarrow> nat) \<Rightarrow> bool" where
  "clock_ok h time \<longleftrightarrow>
     (\<forall>w. time w \<le> fst (hs_now h w) \<and> fst (hs_now h w) \<le> time (snd (hs_now h w))) \<and>
     (\<forall>d w. time w + d \<le> time (hs_sleep h d w)) \<and>
     (\<forall>a t w. time w \<le> time (snd (hs_connect h a t w))) \<and>
     (\<forall>s t w. time w \<le> time (snd (hs_handshake h s t w))) \<and>
     (\<forall>w. time w \<le> time (snd (hs_try_wait h w)))"

lemma clock_okD:
  assumes "clock_ok h time"
  shows "hs_now h w = (now, w1) \<Longrightarrow> time w \<le> now \<and> now \<le> time w1"
    "time w + d \<le> time (hs_sleep h d w)"
    "hs_try_wait h w = (r, w1) \<Longrightarrow> time w \<le> time w1"
  using assms unfolding clock_ok_def by (metis fst_conv snd_conv)+

lemma dial_attempt_time:
  assumes "clock_ok h time" and "dial_attempt h a w = (r, w1)"
  shows "time w \<le> time w1"
proof -
  obtain s w2 where c: "hs_connect h a io_timeout w = (s, w2)" by fastforce
  have "time w \<le> time w2" using assms(1) c unfolding clock_ok_def by (metis snd_conv)
  moreover have "time w2 \<le> time w1"
  proof (cases s)
    case (Inr k)
    with assms(2) c have "hs_handshake h k io_timeout w2 = (r, w1)" by (simp add: dial_attempt_def)
    then show ?thesis using assms(1) unfolding clock_ok_def by (metis snd_conv)
  qed (use assms(2) c in \<open>auto simp: dial_attempt_def split: prod.splits\<close>)
  ultimately show ?thesis by simp
qed

text \<open>Dialling returns, and what it returns is the last attempt's.\<close>

lemma dial_loop_returns:
  assumes "clock_ok h time"
  shows "\<exists>r w'. dial_loop h a deadline w = Some (r, w') \<and> time w \<le> time w' \<and>
    (\<forall>e. r = Inl e \<longrightarrow> deadline \<le> time w')"
proof (induction "deadline - time w" arbitrary: w rule: less_induct)
  case less
  obtain r w1 where att: "dial_attempt h a w = (r, w1)" by fastforce
  note t1 = dial_attempt_time [OF assms att]
  show ?case
  proof (cases r)
    case (Inr l)
    with att t1 show ?thesis by (simp add: dial_loop.simps)
  next
    case (Inl e)
    obtain now w2 where now: "hs_now h w1 = (now, w2)" by fastforce
    note t2 = clock_okD(1) [OF assms now]
    show ?thesis
    proof (cases "now < deadline")
      case False
      with att Inl now t1 t2 show ?thesis by (auto simp: dial_loop.simps)
    next
      case True
      let ?w = "hs_sleep h (50 * nanos_per_milli) w2"
      have t3: "time w2 + 50 * nanos_per_milli \<le> time ?w" using clock_okD(2) [OF assms] .
      with t1 t2 True have "deadline - time ?w < deadline - time w" by linarith
      from less.hyps [OF this] t1 t2 t3 att Inl now True show ?thesis
        by (subst dial_loop.simps) fastforce
    qed
  qed
qed

lemma dial_returns:
  assumes "clock_ok h time"
  shows "\<exists>r w'. dial h a budget w = Some (r, w') \<and> time w \<le> time w' \<and>
    (\<forall>e. r = Inl e \<longrightarrow> time w + budget \<le> time w')"
proof -
  obtain now w1 where now: "hs_now h w = (now, w1)" by fastforce
  with dial_loop_returns [OF assms, of a "now + budget" w1] clock_okD(1) [OF assms now]
  show ?thesis by (fastforce simp: dial_def)
qed

lemma wait_loop_returns:
  assumes "clock_ok h time"
  shows "\<exists>r w'. wait_loop h pool deadline w = Some (r, w') \<and> time w \<le> time w'"
proof (induction "deadline - time w" arbitrary: w rule: less_induct)
  case less
  obtain r w1 where look: "hs_try_wait h w = (r, w1)" by fastforce
  note t1 = clock_okD(3) [OF assms look]
  show ?case
  proof (cases "r = Inr None")
    case False
    with look t1 show ?thesis
      by (cases r) (auto simp: wait_loop.simps split: option.splits)
  next
    case True
    obtain d w2 where d: "dial h (pool_address pool) connect_retry_budget w1 = Some (d, w2)" "time w1 \<le> time w2"
      using dial_returns [OF assms, of "pool_address pool" connect_retry_budget w1] by blast
    show ?thesis
    proof (cases d)
      case (Inr l)
      with look True d t1 show ?thesis by (auto simp: wait_loop.simps)
    next
      case (Inl e)
      obtain now w3 where now: "hs_now h w2 = (now, w3)" by fastforce
      note t3 = clock_okD(1) [OF assms now]
      show ?thesis
      proof (cases "deadline \<le> now")
        case yes: True
        with look True d Inl now t1 t3 show ?thesis by (auto simp: wait_loop.simps)
      next
        case no: False
        let ?w = "hs_sleep h (100 * nanos_per_milli) w3"
        have t4: "time w3 + 100 * nanos_per_milli \<le> time ?w" using clock_okD(2) [OF assms] .
        with t1 d(2) t3 no have "deadline - time ?w < deadline - time w" by linarith
        from less.hyps [OF this] t1 d t3 t4 look True Inl now no show ?thesis
          by (subst wait_loop.simps) fastforce
      qed
    qed
  qed
qed

section \<open>The process\<close>

text \<open>What the host's operations do to the pool's process: only spawning starts it, killing ends it.\<close>

definition process_ok :: "('k, 'l, 'w) host \<Rightarrow> ('w \<Rightarrow> bool) \<Rightarrow> bool" where
  "process_ok h running \<longleftrightarrow>
     (\<forall>w. \<not> running (hs_kill h w)) \<and>
     (\<forall>d w. running (hs_remove_dir h d w) \<longrightarrow> running w) \<and>
     (\<forall>w. running (snd (hs_free_address h w)) \<longrightarrow> running w) \<and>
     (\<forall>d w. running (snd (hs_create_dir h d w)) \<longrightarrow> running w) \<and>
     (\<forall>f t w. running (snd (hs_write h f t w)) \<longrightarrow> running w) \<and>
     (\<forall>f w. running (snd (hs_create h f w)) \<longrightarrow> running w) \<and>
     (\<forall>b args l w e w1. hs_spawn h b args l w = (Inl e, w1) \<longrightarrow> running w1 \<longrightarrow> running w)"

lemma process_okD:
  assumes "process_ok h running"
  shows "\<not> running (drop_pool h p w)"
    and "\<not> running w \<Longrightarrow> \<not> running (snd (hs_free_address h w))"
    and "\<not> running w \<Longrightarrow> \<not> running (snd (hs_create_dir h d w))"
    and "\<not> running w \<Longrightarrow> \<not> running (snd (hs_write h f t w))"
    and "\<not> running w \<Longrightarrow> \<not> running (snd (hs_create h f w))"
    and "\<not> running w \<Longrightarrow> hs_spawn h b args l w = (Inl e, w1) \<Longrightarrow> \<not> running w1"
  using assms unfolding process_ok_def drop_pool_def by blast+

text \<open>Something that returns, and whose failure leaves no process.\<close>

definition ends_clean :: "('w \<Rightarrow> bool) \<Rightarrow> ((target_error + 'b) \<times> 'w) option \<Rightarrow> bool" where
  "ends_clean running res \<longleftrightarrow> (\<exists>r w. res = Some (r, w) \<and> (\<forall>e. r = Inl e \<longrightarrow> \<not> running w))"

lemma on_io_ends_clean:
  assumes "\<not> running (snd x)" and "\<And>a w1. \<not> running w1 \<Longrightarrow> ends_clean running (f a w1)"
  shows "ends_clean running (on_io x f)"
proof -
  obtain y w1 where x: "x = (y, w1)" by fastforce
  with assms show ?thesis by (cases y) (auto simp: ends_clean_def)
qed

lemma spawn_pool_ends_clean:
  assumes "clock_ok h time" and "process_ok h running" and "\<not> running w"
  shows "ends_clean running (spawn_pool h binary config_path p w)"
proof -
  obtain y w1 where s: "hs_spawn h binary [''--config'', config_path] (pool_log p) w = (y, w1)" by fastforce
  show ?thesis
  proof (cases y)
    case (Inl e)
    with process_okD(6) [OF assms(2, 3)] s show ?thesis
      by (cases e) (simp add: spawn_pool_def ends_clean_def)
  next
    case (Inr u)
    obtain now w2 where "hs_now h w1 = (now, w2)" by fastforce
    with wait_loop_returns [OF assms(1), of p "now + startup_timeout" w2]
    obtain r w3 where "wait_until_accepting h p w1 = Some (r, w3)"
      by (auto simp: wait_until_accepting_def)
    with Inr s process_okD(1) [OF assms(2)] show ?thesis
      by (cases r) (auto simp: spawn_pool_def ends_clean_def)
  qed
qed

lemma start_pool_ends_clean:
  assumes "clock_ok h time" and "process_ok h running" and "\<not> running w"
  shows "ends_clean running (start_pool h binary data_dir w)"
  unfolding start_pool_def Let_def
  by (intro on_io_ends_clean process_okD(2-5) [OF assms(2)] spawn_pool_ends_clean [OF assms(1, 2)] assms(3))

section \<open>Properties\<close>

text \<open>Starting the pool always ends, and a start that fails leaves no process of the pool behind,
  however far it got.\<close>

theorem failed_start_leaves_nothing:
  assumes "clock_ok h time" and "process_ok h running" and "\<not> running w"
  shows "\<exists>r w'. start_pool h binary data_dir w = Some (r, w') \<and> (\<forall>e. r = Inl e \<longrightarrow> \<not> running w')"
  using start_pool_ends_clean [OF assms] by (simp add: ends_clean_def)

text \<open>A host on which no connection is accepted; the world is the time, and whether the process
  runs.\<close>

definition closed_host :: "(unit, wire_frame list, nat \<times> bool) host" where
  "closed_host =
     \<lparr>hs_now = (\<lambda>w. (fst w, w)), hs_sleep = (\<lambda>d w. (fst w + d, snd w)),
      hs_connect = (\<lambda>a t w. (Inl (OtherKind, ''refused''), w)), hs_handshake = (\<lambda>k t w. (Inl Timeout, w)),
      hs_env = (\<lambda>v w. None), hs_free_address = (\<lambda>w. (Inr ''127.0.0.1:3333'', w)),
      hs_pool_dir = (\<lambda>a w. ''/tmp/pool''), hs_create_dir = (\<lambda>d w. (Inr (), w)),
      hs_remove_dir = (\<lambda>d w. w), hs_write = (\<lambda>f t w. (Inr (), w)), hs_create = (\<lambda>f w. (Inr (), w)),
      hs_spawn = (\<lambda>b args l w. (Inr (), (fst w, True))),
      hs_try_wait = (\<lambda>w. (Inr (if snd w then None else Some ''exit status: 0''), w)),
      hs_kill = (\<lambda>w. (fst w, False))\<rparr>"

lemma closed_host_ok: "clock_ok closed_host fst" "process_ok closed_host snd"
  by (simp_all add: clock_ok_def process_ok_def closed_host_def)

theorem failed_start_leaves_nothing_witness:
  "\<exists>r w'. start_pool closed_host ''pool_sv2'' ''data'' (0, False) = Some (r, w') \<and>
     (\<forall>e. r = Inl e \<longrightarrow> \<not> snd w')"
proof -
  have "\<not> snd (0 :: nat, False)" by simp
  from failed_start_leaves_nothing [OF closed_host_ok this] show ?thesis .
qed

text \<open>C36: A crash of the pool is reported only after it had its time: on the run of a compiled valid
  program for at most the pool's one role in which no owed answer is missing, the verdict is that
  all is well when a handshake completes, and a crash otherwise, for which every handshake
  attempted over two seconds has failed.\<close>

theorem pool_crash_verdict:
  assumes "clock_ok h time" and "is_statically_valid p = Ok True" and "codec_ok cd"
    and "compile cd p = Ok q" and "num_roles (prog_context p) \<le> 1"
    and "run (pool_deployment h pool base) q w = Some (Ok ex, w')"
    and "\<nexists>j. unanswered (pool_deployment h pool base) q ex j"
  shows "\<exists>r w1. dial h (pool_address pool) liveness_timeout w' = Some (r, w1) \<and>
    (case r of
       Inr l \<Rightarrow> evaluate (pool_deployment h pool base) q ex w' = ScOk
     | Inl e \<Rightarrow> evaluate (pool_deployment h pool base) q ex w' = ScFail ''CrashOracle'' StoppedServing \<and>
         time w' + 2 * nanos_per_sec \<le> time w1)"
proof -
  let ?d = "pool_deployment h pool base"
  have wt: "wt_program (prog_context p) (instructions p)" using assms(2) by (simp add: statically_valid_iff)
  have roles: "roles_configured ?d" by (simp add: roles_configured_def pool_deployment_def pool_roles_def get_def)
  have "comp_context q = prog_context p" using compiled_runnable(2) [OF wt assms(3, 4)] by simp
  with assms(5) have few: "num_roles (comp_context q) \<le> dep_num_roles ?d"
    by (simp add: pool_deployment_def pool_roles_def)
  obtain r w1 where d: "dial h (pool_address pool) liveness_timeout w' = Some (r, w1)"
    "\<forall>e. r = Inl e \<longrightarrow> time w' + liveness_timeout \<le> time w1"
    using dial_returns [OF assms(1)] by blast
  with evaluate_run(2) [OF wt assms(3, 4, 6) roles few] assms(7) show ?thesis
    by (cases r) (simp_all add: pool_deployment_def pool_is_alive_def liveness_timeout_def)
qed

lemma closed_host_refuses:
  assumes "dial closed_host a budget w = Some (r, w')"
  obtains e where "r = Inl e"
proof -
  let ?P = "\<lambda>h (a :: string) (d :: nat) (w :: nat \<times> bool) (y :: (harness_error + wire_frame list) \<times> nat \<times> bool).
    h = closed_host \<longrightarrow> isl (fst y)"
  have "isl (fst (r, w'))" if l: "dial_loop closed_host a d w = Some (r, w')" for d w
  proof -
    have "?P closed_host a d w (r, w')"
    proof (rule dial_loop.raw_induct [where P = ?P, OF _ l], intro impI)
      fix again and h :: "(unit, wire_frame list, nat \<times> bool) host" and a d w y
      assume "\<And>h a d w y. again h a d w = Some y \<Longrightarrow> ?P h a d w y" "h = closed_host"
        and "(case dial_attempt h a w of
          (r, w1) \<Rightarrow>
            (case r of
               Inr l \<Rightarrow> Some (Inr l, w1)
             | Inl e \<Rightarrow>
                 (case hs_now h w1 of
                    (now, w2) \<Rightarrow>
                      if now < d then again h a d (hs_sleep h (50 * nanos_per_milli) w2)
                      else Some (Inl e, w2)))) = Some y"
      moreover have "dial_attempt closed_host a w = (Inl (IoError OtherKind ''refused''), w)"
        by (simp add: dial_attempt_def closed_host_def)
      ultimately show "isl (fst y)" by (auto split: prod.splits if_splits)
    qed
    then show ?thesis by simp
  qed
  moreover obtain now w1 where "hs_now closed_host w = (now, w1)" by (cases "hs_now closed_host w")
  ultimately have "isl r" using assms by (auto simp: dial_def)
  then show ?thesis using that by (cases r) simp_all
qed

definition empty_program :: program where
  "empty_program = \<lparr>prog_context = \<lparr>num_roles = 1, num_connections = 0, seed = 0\<rparr>, instructions = []\<rparr>"

definition mute_links :: "(wire_frame list, nat \<times> bool) deployment" where
  "mute_links =
     \<lparr>dep_connect = (\<lambda>conn role w. (None, w)), dep_role_config = (\<lambda>r. None), dep_num_roles = 0,
      dep_advance_time = (\<lambda>t w. w), dep_is_alive = (\<lambda>w. False),
      link_send = (\<lambda>l e t c p w. (Inr (), l, w)), link_recv = (\<lambda>l t w. (Inl Timeout, l, w)),
      clock = (\<lambda>w. (fst w, w)), map_order = (\<lambda>S w. (sorted_list_of_set S, w))\<rparr>"

theorem pool_crash_verdict_witness:
  "\<exists>q ex w' pool e w1. compile tiny_codec empty_program = Ok q \<and>
     run (pool_deployment closed_host pool mute_links) q (0, True) = Some (Ok ex, w') \<and>
     dial closed_host (pool_address pool) liveness_timeout w' = Some (Inl e, w1) \<and>
     evaluate (pool_deployment closed_host pool mute_links) q ex w' = ScFail ''CrashOracle'' StoppedServing"
proof -
  let ?pool = "\<lparr>pool_address = ''127.0.0.1:3333'', pool_dir = ''/tmp/pool'', pool_log = ''/tmp/pool/log''\<rparr>"
  let ?d = "pool_deployment closed_host ?pool mute_links"
  have "is_statically_valid empty_program = (Ok True :: (unit, bool) outcome)" by code_simp
  then have valid: "is_statically_valid empty_program = Ok True" by (simp add: statically_valid_iff)
  obtain q where q: "compile tiny_codec empty_program = Ok q" "comp_actions q = []"
    by (auto simp: compile_def empty_program_def)
  obtain ex w' where run: "run ?d q (0, True) = Some (Ok ex, w')"
    by (simp add: run_evaluation is_total_def q(2))
  have none: "\<nexists>j. unanswered ?d q ex j" by (simp add: unanswered_def q(2))
  have one: "num_roles (prog_context empty_program) \<le> 1" by (simp add: empty_program_def)
  from pool_crash_verdict [OF closed_host_ok(1) valid tiny_codec_ok q(1) one run none]
  obtain r w1 where d: "dial closed_host (pool_address ?pool) liveness_timeout w' = Some (r, w1)"
    "case r of Inr l \<Rightarrow> evaluate ?d q ex w' = ScOk
     | Inl e \<Rightarrow> evaluate ?d q ex w' = ScFail ''CrashOracle'' StoppedServing \<and> fst w' + 2 * nanos_per_sec \<le> fst w1"
    by blast
  obtain e where e: "r = Inl e" using closed_host_refuses [OF d(1)] .
  from d(1) e have "dial closed_host (pool_address ?pool) liveness_timeout w' = Some (Inl e, w1)" by simp
  moreover from d(2) e have "evaluate ?d q ex w' = ScFail ''CrashOracle'' StoppedServing" by simp
  ultimately show ?thesis using q(1) run by blast
qed

end
