(* ===== verification/Paths.thy ===== *)
theory Paths
  imports Texts "HOL-Library.List_Lexorder" "HOL-Library.Char_ord"
begin

text \<open>
  What the sources use of the standard library on texts and paths. Paths are UTF-8 strings, and the
  white space that is trimmed is ASCII's.
\<close>

section \<open>Text and paths of the standard library\<close>

definition newline_char :: char where "newline_char = CHR 0x0A"

fun split_on :: "char \<Rightarrow> string \<Rightarrow> string list" where
  "split_on c [] = [[]]"
| "split_on c (x # xs) =
     (if x = c then [] # split_on c xs
      else case split_on c xs of y # ys \<Rightarrow> (x # y) # ys | [] \<Rightarrow> [[x]])"

text \<open>\<open>str::lines\<close>: no last line after a final newline, and no carriage return before one.\<close>

definition drop_last_if :: "('a \<Rightarrow> bool) \<Rightarrow> 'a list \<Rightarrow> 'a list" where
  "drop_last_if P xs = (if xs \<noteq> [] \<and> P (last xs) then butlast xs else xs)"

definition text_lines :: "string \<Rightarrow> string list" where
  "text_lines s =
     (let parts = split_on newline_char s
      in map (drop_last_if (\<lambda>c. c = CHR 0x0D)) (butlast parts) @ filter (\<lambda>l. l \<noteq> []) [last parts])"

definition is_space :: "char \<Rightarrow> bool" where
  "is_space c \<longleftrightarrow> c \<in> {CHR 0x20, CHR 0x09, CHR 0x0A, CHR 0x0B, CHR 0x0C, CHR 0x0D}"

definition trim :: "string \<Rightarrow> string" where
  "trim s = rev (dropWhile is_space (rev (dropWhile is_space s)))"

text \<open>What follows the first arrow.\<close>

fun after_arrow :: "string \<Rightarrow> string option" where
  "after_arrow (x # y # ys) = (if [x, y] = ''=>'' then Some ys else after_arrow (y # ys))"
| "after_arrow _ = None"

definition starts_with :: "string \<Rightarrow> string \<Rightarrow> bool" where
  "starts_with prefix s \<longleftrightarrow> take (length prefix) s = prefix"

text \<open>\<open>Path::join\<close> and \<open>Path::file_name\<close>.\<close>

definition path_join :: "string \<Rightarrow> string \<Rightarrow> string" where
  "path_join a b =
     (if starts_with ''/'' b \<or> a = [] then b else if last a = CHR 0x2F then a @ b else a @ ''/'' @ b)"

definition file_name :: "string \<Rightarrow> string option" where
  "file_name p =
     (case filter (\<lambda>c. c \<noteq> [] \<and> c \<noteq> ''.'') (split_on (CHR 0x2F) p) of
        [] \<Rightarrow> None
      | cs \<Rightarrow> if last cs = ''..'' then None else Some (last cs))"

end
