(* ===== verification/Init.thy ===== *)
theory Init
  imports Paths
begin

text \<open>
  \<open>stratamoto init\<close> (\<open>stratamoto-cli/src/init.rs\<close>): making the share directory a Nyx machine boots
  from. Files, directories and the commands that are run are the operating system's, a record of
  functions over a world \<open>'w\<close>; an error is the text it prints as.
\<close>

section \<open>The operating system\<close>

record 'w build_host =
  bh_exists :: "string \<Rightarrow> 'w \<Rightarrow> bool"
  bh_copy :: "string \<Rightarrow> string \<Rightarrow> 'w \<Rightarrow> (string + unit) \<times> 'w"
  bh_create_dir :: "string \<Rightarrow> 'w \<Rightarrow> (string + unit) \<times> 'w"
  bh_read_dir :: "string \<Rightarrow> 'w \<Rightarrow> string + (string + string) list"
  bh_write :: "string \<Rightarrow> string \<Rightarrow> 'w \<Rightarrow> (string + unit) \<times> 'w"
  bh_output :: "string \<Rightarrow> string list \<Rightarrow> 'w \<Rightarrow> (string + bool \<times> string) \<times> 'w"
  bh_status :: "string \<Rightarrow> string list \<Rightarrow> string \<Rightarrow> 'w \<Rightarrow> (string + bool \<times> string) \<times> 'w"

record init_args =
  ia_sharedir :: string
  ia_scenario :: string
  ia_pool :: string
  ia_template_provider :: string
  ia_nyx_dir :: string
  ia_crash_handler :: string
  ia_memory :: nat

text \<open>The text of the error, or the value, and the world after.\<close>

type_synonym ('a, 'w) doing = "'w \<Rightarrow> (string + 'a) \<times> 'w"

definition bind_do :: "('a, 'w) doing \<Rightarrow> ('a \<Rightarrow> ('b, 'w) doing) \<Rightarrow> ('b, 'w) doing" where
  "bind_do m f w = (case m w of (Inl e, w1) \<Rightarrow> (Inl e, w1) | (Inr a, w1) \<Rightarrow> f a w1)"

definition give :: "'a \<Rightarrow> ('a, 'w) doing" where "give a w = (Inr a, w)"
definition fail_with :: "string \<Rightarrow> ('a, 'w) doing" where "fail_with e w = (Inl e, w)"

definition error_text :: "(string \<Rightarrow> string) \<Rightarrow> ('a, 'w) doing \<Rightarrow> ('a, 'w) doing" where
  "error_text f m w = (case m w of (Inl e, w1) \<Rightarrow> (Inl (f e), w1) | (Inr a, w1) \<Rightarrow> (Inr a, w1))"

definition or_fail :: "(string + 'a) \<Rightarrow> ('a, 'w) doing" where "or_fail r w = (r, w)"

fun each :: "('a \<Rightarrow> 's \<Rightarrow> ('s, 'w) doing) \<Rightarrow> 'a list \<Rightarrow> 's \<Rightarrow> ('s, 'w) doing" where
  "each f [] s = give s"
| "each f (x # xs) s = bind_do (f x s) (each f xs)"

section \<open>The contents\<close>

record contents =
  co_files :: "string set"
  co_executables :: "string set"

definition no_contents :: contents where "no_contents = \<lparr>co_files = {}, co_executables = {}\<rparr>"

definition add_content ::
  "'w build_host \<Rightarrow> string \<Rightarrow> string \<Rightarrow> bool \<Rightarrow> contents \<Rightarrow> (string \<times> contents, 'w) doing" where
  "add_content h sharedir source executable c =
     (case file_name source of
        None \<Rightarrow> fail_with (source @ '' has no usable file name'')
      | Some name \<Rightarrow>
          bind_do (error_text (\<lambda>e. ''could not copy '' @ source @ '': '' @ e)
                     (bh_copy h source (path_join sharedir name))) (\<lambda>_.
          give (name, c\<lparr>co_files := insert name (co_files c),
                        co_executables := (if executable then insert name (co_executables c)
                                           else co_executables c)\<rparr>)))"

section \<open>Helpers\<close>

definition run_command :: "'w build_host \<Rightarrow> string \<Rightarrow> string list \<Rightarrow> string \<Rightarrow> (unit, 'w) doing" where
  "run_command h prog args dir =
     bind_do (error_text (\<lambda>e. ''could not run '' @ prog @ '': '' @ e) (bh_status h prog args dir))
       (\<lambda>(success, status).
          if success then give ()
          else fail_with (prog @ '' '' @ concat (map (\<lambda>(k, a). if k = 0 then a else '' '' @ a) (enumerate 0 args)) @
                          '' failed with '' @ status))"

definition entry_binaries :: "'w build_host \<Rightarrow> string \<Rightarrow> string \<Rightarrow> 'w \<Rightarrow> string list" where
  "entry_binaries h dir name w =
     (if starts_with ''bitcoin-'' name
      then filter (\<lambda>p. bh_exists h p w)
             [path_join (path_join (path_join dir name) ''bin'') ''bitcoind'',
              path_join (path_join (path_join dir name) ''libexec'') ''bitcoin-node'']
      else [])"

definition template_provider_binaries :: "'w build_host \<Rightarrow> string \<Rightarrow> (string list, 'w) doing" where
  "template_provider_binaries h dir w =
     (bind_do (error_text (\<lambda>e. dir @ '': '' @ e) (\<lambda>w. (bh_read_dir h dir w, w))) (\<lambda>entries.
      bind_do (each (\<lambda>entry found w. case entry of
                  Inl e \<Rightarrow> (Inl e, w)
                | Inr name \<Rightarrow> (Inr (found @ entry_binaries h dir name w), w)) entries [])
       (\<lambda>binaries.
          if binaries = [] then fail_with (dir @
            '' holds no bitcoin-*/bin/bitcoind or bitcoin-*/libexec/bitcoin-node'')
          else give binaries))) w"

definition pack_template_provider :: "'w build_host \<Rightarrow> string \<Rightarrow> string \<Rightarrow> (unit, 'w) doing" where
  "pack_template_provider h dir archive =
     bind_do (\<lambda>w. (bh_read_dir h dir w, w)) (\<lambda>entries.
     bind_do (each (\<lambda>entry names w. case entry of
                  Inl e \<Rightarrow> (Inl e, w)
                | Inr name \<Rightarrow> (Inr (if starts_with ''bitcoin-'' name then names @ [name] else names), w))
                entries [])
       (\<lambda>names. run_command h ''tar'' ([''-cf'', archive, ''-C'', dir] @ names) ''.''))"

text \<open>The library a line of \<open>lddtree\<close> or \<open>ldd\<close> names, and those of their output.\<close>

definition library_of :: "string \<Rightarrow> string option" where
  "library_of line =
     (let l = trim line;
          path = (case after_arrow l of
                    Some rest \<Rightarrow> takeWhile (\<lambda>c. c \<noteq> CHR 0x20) (trim rest)
                  | None \<Rightarrow> takeWhile (\<lambda>c. c \<noteq> CHR 0x20) l)
      in if starts_with ''/'' path then Some path else None)"

definition loader :: string where "loader = ''ld-linux-x86-64.so.2''"

definition libraries_of :: "string list \<Rightarrow> string list" where
  "libraries_of ls = concat (map (\<lambda>l. case library_of l of Some p \<Rightarrow> [p] | None \<Rightarrow> []) ls)"

definition ldd_libraries :: "'w build_host \<Rightarrow> string \<Rightarrow> (string list, 'w) doing" where
  "ldd_libraries h binary =
     bind_do (error_text (\<lambda>e. ''neither lddtree nor ldd runs: '' @ e) (bh_output h ''ldd'' [binary]))
       (\<lambda>(success, out).
          if Some loader \<notin> set (map file_name (libraries_of (text_lines out)))
          then fail_with (''could not find the dynamic loader of '' @ binary)
          else give (libraries_of (text_lines out)))"

definition shared_libraries :: "'w build_host \<Rightarrow> string \<Rightarrow> (string list, 'w) doing" where
  "shared_libraries h binary w =
     (case bh_output h ''lddtree'' [binary] w of
        (Inr (True, out), w1) \<Rightarrow> (Inr (libraries_of (drop 1 (text_lines out))), w1)
      | (_, w1) \<Rightarrow> ldd_libraries h binary w1)"

section \<open>The script the machine boots with\<close>

definition boot_lines :: "contents \<Rightarrow> string \<Rightarrow> string \<Rightarrow> string \<Rightarrow> string list" where
  "boot_lines c scenario pool crash_handler =
     [''chmod +x hget'', ''cp hget /tmp'', ''cd /tmp'',
      ''echo 0 > /proc/sys/kernel/randomize_va_space'', ''echo 0 > /proc/sys/kernel/printk'',
      ''./hget hcat_no_pt hcat'', ''./hget habort_no_pt habort''] @
     map (\<lambda>f. ''./hget '' @ f @ '' '' @ f) (sorted_list_of_set (co_files c)) @
     [''./hget template-provider.tar template-provider.tar'', ''mkdir -p template-provider'',
      ''tar -xf template-provider.tar -C template-provider'', ''chmod +x habort hcat''] @
     map (\<lambda>f. ''chmod +x '' @ f) (sorted_list_of_set (co_executables c)) @
     [''chmod +x template-provider/*/bin/* template-provider/*/libexec/*'',
      ''export __AFL_DEFER_FORKSRV=1'', ''ip addr add 127.0.0.1/8 dev lo'', ''ip link set lo up'',
      ''ip a | ./hcat'',
      ''echo '' @ [CHR 0x27] @ ''#!/bin/sh'' @ [CHR 0x27] @ '' > ./pool_proxy'',
      ''echo '' @ [CHR 0x27] @ ''LD_LIBRARY_PATH=/tmp LD_BIND_NOW=1 LD_PRELOAD=./'' @ crash_handler @ '' ./'' @ pool @
        '' '' @ [CHR 0x22] @ ''$@'' @ [CHR 0x22, CHR 0x27] @ '' >> ./pool_proxy'',
      ''chmod +x ./pool_proxy'',
      ''RUST_LOG=info LD_LIBRARY_PATH=/tmp LD_BIND_NOW=1 ./'' @ scenario @ '' ./pool_proxy > log.txt 2>&1'',
      ''cat log.txt | ./hcat'',
      ''./habort '' @ [CHR 0x22] @ ''target has terminated without initializing the fuzzing agent ...'' @ [CHR 0x22]]"

definition boot_script :: "contents \<Rightarrow> string \<Rightarrow> string \<Rightarrow> string \<Rightarrow> string" where
  "boot_script c scenario pool crash_handler =
     concat (map (\<lambda>l. l @ [newline_char]) (boot_lines c scenario pool crash_handler))"

section \<open>Making the share directory\<close>

definition add_libraries :: "'w build_host \<Rightarrow> string \<Rightarrow> string \<Rightarrow> contents \<Rightarrow> (contents, 'w) doing" where
  "add_libraries h sharedir binary c =
     bind_do (shared_libraries h binary) (\<lambda>libraries.
       each (\<lambda>library c. bind_do (add_content h sharedir library False c) (\<lambda>(_, c). give c)) libraries c)"

text \<open>The names of the three binaries, and the contents with them and their libraries.\<close>

definition add_binaries ::
  "'w build_host \<Rightarrow> init_args \<Rightarrow> (string \<times> string \<times> string \<times> contents, 'w) doing" where
  "add_binaries h a =
     (let sharedir = ia_sharedir a in
      bind_do (add_content h sharedir (ia_scenario a) True no_contents) (\<lambda>(scenario, c1).
      bind_do (add_content h sharedir (ia_pool a) True c1) (\<lambda>(pool, c2).
      bind_do (add_content h sharedir (ia_crash_handler a) True c2) (\<lambda>(crash_handler, c3).
      bind_do (template_provider_binaries h (ia_template_provider a)) (\<lambda>node_binaries.
      bind_do (each (add_libraries h sharedir) ([ia_scenario a, ia_pool a] @ node_binaries) c3) (\<lambda>c4.
      give (scenario, pool, crash_handler,
            c4\<lparr>co_executables := insert loader (co_executables c4)\<rparr>)))))))"

text \<open>Nyx's own helpers and the machine's configuration.\<close>

definition add_nyx :: "'w build_host \<Rightarrow> init_args \<Rightarrow> (unit, 'w) doing" where
  "add_nyx h a =
     (let sharedir = ia_sharedir a;
          packer = path_join (path_join (ia_nyx_dir a) ''packer'') ''packer'';
          userspace = path_join packer ''linux_x86_64-userspace'';
          bin64 = path_join userspace ''bin64''
      in bind_do (run_command h ''bash'' [''compile_64.sh''] userspace) (\<lambda>_.
         bind_do (\<lambda>w. (bh_read_dir h bin64 w, w)) (\<lambda>entries.
         bind_do (each (\<lambda>entry _. bind_do (or_fail entry) (\<lambda>name.
                     error_text (\<lambda>e. ''could not copy '' @ path_join bin64 name @ '': '' @ e)
                       (bh_copy h (path_join bin64 name) (path_join sharedir name)))) entries ()) (\<lambda>_.
         run_command h ''python3''
           [''nyx_config_gen.py'', sharedir, ''Kernel'', ''-m'', decimal (ia_memory a)] packer))))"

definition build_share :: "'w build_host \<Rightarrow> init_args \<Rightarrow> (unit, 'w) doing" where
  "build_share h a =
     (let sharedir = ia_sharedir a in
      bind_do (bh_create_dir h sharedir) (\<lambda>_.
      bind_do (add_binaries h a) (\<lambda>(scenario, pool, crash_handler, c).
      bind_do (pack_template_provider h (ia_template_provider a)
                 (path_join sharedir ''template-provider.tar'')) (\<lambda>_.
      bind_do (add_nyx h a) (\<lambda>_.
      bh_write h (path_join sharedir ''fuzz_no_pt.sh'') (boot_script c scenario pool crash_handler))))))"

definition required_paths :: "init_args \<Rightarrow> (string \<times> string) list" where
  "required_paths a =
     [(''scenario'', ia_scenario a), (''pool'', ia_pool a), (''crash handler'', ia_crash_handler a),
      (''template provider directory'', ia_template_provider a), (''nyx directory'', ia_nyx_dir a)]"

definition init_execute :: "'w build_host \<Rightarrow> init_args \<Rightarrow> (unit, 'w) doing" where
  "init_execute h a w =
     (if bh_exists h (ia_sharedir a) w
      then (Inl (ia_sharedir a @ '' exists already; choose a fresh share directory''), w)
      else case find (\<lambda>(what, path). \<not> bh_exists h path w) (required_paths a) of
        Some (what, path) \<Rightarrow> (Inl (''the '' @ what @ '' '' @ path @ '' does not exist''), w)
      | None \<Rightarrow> build_share h a w)"

section \<open>What was shipped\<close>

text \<open>Nothing the tool does removes a file, and what was copied is there.\<close>

definition host_keeps :: "'w build_host \<Rightarrow> bool" where
  "host_keeps h \<longleftrightarrow>
     (\<forall>p w. bh_exists h p w \<longrightarrow>
        (\<forall>a b. bh_exists h p (snd (bh_copy h a b w))) \<and> (\<forall>d. bh_exists h p (snd (bh_create_dir h d w))) \<and>
        (\<forall>f t. bh_exists h p (snd (bh_write h f t w))) \<and> (\<forall>b args. bh_exists h p (snd (bh_output h b args w))) \<and>
        (\<forall>b args d. bh_exists h p (snd (bh_status h b args d w)))) \<and>
     (\<forall>a b w w1. bh_copy h a b w = (Inr (), w1) \<longrightarrow> bh_exists h b w1)"

definition keeps :: "'w build_host \<Rightarrow> ('a, 'w) doing \<Rightarrow> bool" where
  "keeps h m \<longleftrightarrow> (\<forall>p w. bh_exists h p w \<longrightarrow> bh_exists h p (snd (m w)))"

lemma bind_do_Inr: "bind_do m f w = (Inr b, w2) \<longleftrightarrow> (\<exists>a w1. m w = (Inr a, w1) \<and> f a w1 = (Inr b, w2))"
  by (auto simp: bind_do_def split: prod.splits sum.splits)

lemma error_text_Inr: "error_text f m w = (Inr a, w1) \<longleftrightarrow> m w = (Inr a, w1)"
  by (auto simp: error_text_def split: prod.splits sum.splits)

lemmas doing_simps = bind_do_Inr error_text_Inr give_def fail_with_def or_fail_def

lemma keeps_host:
  assumes "host_keeps h"
  shows "keeps h (bh_copy h a b)" "keeps h (bh_create_dir h d)" "keeps h (bh_write h f t)"
    "keeps h (bh_output h prog args)" "keeps h (bh_status h prog args d)"
  using assms by (auto simp: host_keeps_def keeps_def)

lemma keeps_pure: "(\<And>w. snd (m w) = w) \<Longrightarrow> keeps h m"
  by (simp add: keeps_def)

lemma keeps_bind: "keeps h m \<Longrightarrow> (\<And>a. keeps h (f a)) \<Longrightarrow> keeps h (bind_do m f)"
  unfolding keeps_def bind_do_def by (auto split: prod.splits sum.splits) (metis snd_conv)+

lemma keeps_error_text: "keeps h m \<Longrightarrow> keeps h (error_text f m)"
  unfolding keeps_def error_text_def by (auto split: prod.splits sum.splits) (metis snd_conv)+

lemma keeps_each: "(\<And>x s. keeps h (f x s)) \<Longrightarrow> keeps h (each f xs s)"
  by (induction xs arbitrary: s) (simp_all add: keeps_bind keeps_pure give_def)

lemmas keeps_intros = keeps_bind keeps_error_text keeps_each keeps_pure

text \<open>What has been noted in the contents is in the share directory, and only what was noted is
  to be made executable.\<close>

definition shipped :: "'w build_host \<Rightarrow> string \<Rightarrow> contents \<Rightarrow> 'w \<Rightarrow> bool" where
  "shipped h sharedir c w \<longleftrightarrow>
     (\<forall>f \<in> co_files c. bh_exists h (path_join sharedir f) w) \<and> co_executables c \<subseteq> co_files c \<and> finite (co_files c)"

lemma shipped_later: "keeps h m \<Longrightarrow> m w = (r, w1) \<Longrightarrow> shipped h sharedir c w \<Longrightarrow> shipped h sharedir c w1"
  unfolding keeps_def shipped_def by (metis snd_conv)

lemma add_content_ships:
  assumes "host_keeps h" and "add_content h sharedir source executable c w = (Inr (name, c1), w1)"
    and "shipped h sharedir c w"
  shows "shipped h sharedir c1 w1" "co_files c1 = insert name (co_files c)"
proof -
  have name: "file_name source = Some name"
    and copy: "bh_copy h source (path_join sharedir name) w = (Inr (), w1)"
    and c1: "co_files c1 = insert name (co_files c)" "co_executables c1 \<subseteq> insert name (co_executables c)"
    using assms(2) by (auto simp: add_content_def doing_simps split: option.splits if_splits)
  show "co_files c1 = insert name (co_files c)" by fact
  have "shipped h sharedir c w1" using shipped_later [OF keeps_host(1) [OF assms(1)] copy assms(3)] .
  moreover have "bh_exists h (path_join sharedir name) w1" using assms(1) copy unfolding host_keeps_def by blast
  ultimately show "shipped h sharedir c1 w1" using c1 by (auto simp: shipped_def)
qed

lemma each_invariant:
  assumes "each f xs s w = (Inr s1, w1)" and "P s w"
    and "\<And>x s w s1 w1. x \<in> set xs \<Longrightarrow> f x s w = (Inr s1, w1) \<Longrightarrow> P s w \<Longrightarrow> P s1 w1"
  shows "P s1 w1"
  using assms
proof (induction xs arbitrary: s w)
  case (Cons x xs)
  from Cons.prems(1) obtain s2 w2 where "f x s w = (Inr s2, w2)" "each f xs s2 w2 = (Inr s1, w1)"
    by (auto simp: doing_simps)
  with Cons.IH [of s2 w2] Cons.prems(2, 3) show ?case by (meson list.set_intros)
qed (simp add: give_def)

lemma shared_libraries_keeps:
  assumes "host_keeps h"
  shows "keeps h (shared_libraries h b)"
proof -
  have ldd: "keeps h (ldd_libraries h b)" unfolding ldd_libraries_def
    by (intro keeps_intros keeps_host(4) [OF assms]) (simp_all add: fail_with_def give_def split: prod.splits)
  show ?thesis unfolding keeps_def
  proof (intro allI impI)
    fix p w assume p: "bh_exists h p w"
    obtain r w1 where out: "bh_output h ''lddtree'' [b] w = (r, w1)" by fastforce
    with p keeps_host(4) [OF assms] have "bh_exists h p w1" unfolding keeps_def by (metis snd_conv)
    with ldd have "bh_exists h p (snd (ldd_libraries h b w1))" by (simp add: keeps_def)
    with out \<open>bh_exists h p w1\<close> show "bh_exists h p (snd (shared_libraries h b w))"
      by (simp add: shared_libraries_def split: sum.split prod.split bool.split)
  qed
qed

lemma add_libraries_ships:
  assumes "host_keeps h" and "add_libraries h sharedir b c w = (Inr c1, w1)" and "shipped h sharedir c w"
  shows "shipped h sharedir c1 w1 \<and> co_files c \<subseteq> co_files c1"
proof -
  obtain ls w2 where ls: "shared_libraries h b w = (Inr ls, w2)"
    and ea: "each (\<lambda>l c. bind_do (add_content h sharedir l False c) (\<lambda>(_, c). give c)) ls c w2 = (Inr c1, w1)"
    using assms(2) by (auto simp: add_libraries_def doing_simps)
  from shipped_later [OF shared_libraries_keeps [OF assms(1)] ls assms(3)]
  have "shipped h sharedir c w2 \<and> co_files c \<subseteq> co_files c" by simp
  with ea show ?thesis
  proof (rule each_invariant)
    fix l d w d1 w1
    assume "bind_do (add_content h sharedir l False d) (\<lambda>(_, c). give c) w = (Inr d1, w1)"
      and d: "shipped h sharedir d w \<and> co_files c \<subseteq> co_files d"
    then obtain name where "add_content h sharedir l False d w = (Inr (name, d1), w1)"
      by (auto simp: doing_simps)
    from add_content_ships [OF assms(1) this] d
    show "shipped h sharedir d1 w1 \<and> co_files c \<subseteq> co_files d1" by auto
  qed
qed

lemma template_provider_binaries_pure:
  assumes "template_provider_binaries h d w = (r, w1)"
  shows "w1 = w"
proof -
  let ?f = "\<lambda>entry found w. case entry of Inl e \<Rightarrow> (Inl e, w)
      | Inr name \<Rightarrow> (Inr (found @ entry_binaries h d name w), w)"
  have each: "snd (each ?f es xs w) = w" for es xs
    by (induction es arbitrary: xs) (auto simp: give_def bind_do_def split: sum.split)
  have "snd (template_provider_binaries h d w) = w"
  proof (cases "bh_read_dir h d w")
    case (Inl e)
    then show ?thesis by (simp add: template_provider_binaries_def bind_do_def error_text_def)
  next
    case (Inr entries)
    obtain q w2 where q: "each ?f entries [] w = (q, w2)" by fastforce
    with each [of entries "[]"] have "w2 = w" by simp
    with Inr q show ?thesis
      by (cases q) (simp_all add: template_provider_binaries_def bind_do_def error_text_def fail_with_def give_def)
  qed
  with assms show ?thesis by simp
qed

lemma add_binaries_ships:
  assumes "host_keeps h" and "add_binaries h a w = (Inr (scenario, pool, crash_handler, c), w1)"
  shows "\<forall>f \<in> co_files c. bh_exists h (path_join (ia_sharedir a) f) w1"
    and "co_executables c \<subseteq> insert loader (co_files c)" "finite (co_files c)"
    and "{scenario, pool, crash_handler} \<subseteq> co_files c"
proof -
  let ?sh = "ia_sharedir a"
  obtain c1 c2 c3 c4 wa wb wc wd nodes where
    a1: "add_content h ?sh (ia_scenario a) True no_contents w = (Inr (scenario, c1), wa)" and
    a2: "add_content h ?sh (ia_pool a) True c1 wa = (Inr (pool, c2), wb)" and
    a3: "add_content h ?sh (ia_crash_handler a) True c2 wb = (Inr (crash_handler, c3), wc)" and
    nodes: "template_provider_binaries h (ia_template_provider a) wc = (Inr nodes, wd)" and
    libs: "each (add_libraries h ?sh) ([ia_scenario a, ia_pool a] @ nodes) c3 wd = (Inr c4, w1)" and
    c: "c = c4\<lparr>co_executables := insert loader (co_executables c4)\<rparr>"
    using assms(2) by (auto simp: add_binaries_def Let_def bind_do_Inr give_def)
  have "shipped h ?sh no_contents w" by (simp add: shipped_def no_contents_def)
  note s1 = add_content_ships [OF assms(1) a1 this]
  note s2 = add_content_ships [OF assms(1) a2 s1(1)]
  note s3 = add_content_ships [OF assms(1) a3 s2(1)]
  have "shipped h ?sh c3 wd \<and> co_files c3 \<subseteq> co_files c3"
    using s3(1) template_provider_binaries_pure [OF nodes] by simp
  with libs have "shipped h ?sh c4 w1 \<and> co_files c3 \<subseteq> co_files c4"
    by (rule each_invariant) (use add_libraries_ships [OF assms(1)] in blast)
  with c s1(2) s2(2) s3(2) show "\<forall>f \<in> co_files c. bh_exists h (path_join ?sh f) w1"
    "co_executables c \<subseteq> insert loader (co_files c)" "finite (co_files c)"
    "{scenario, pool, crash_handler} \<subseteq> co_files c"
    by (auto simp: shipped_def)
qed

lemma run_command_keeps: "host_keeps h \<Longrightarrow> keeps h (run_command h prog args d)"
  unfolding run_command_def
  by (intro keeps_intros keeps_host(5)) (simp_all add: fail_with_def give_def split: prod.splits)

lemma pack_keeps: "host_keeps h \<Longrightarrow> keeps h (pack_template_provider h d archive)"
  unfolding pack_template_provider_def
  by (intro keeps_intros run_command_keeps) (simp_all split: sum.split)

lemma add_nyx_keeps: "host_keeps h \<Longrightarrow> keeps h (add_nyx h a)"
  unfolding add_nyx_def Let_def
  by (intro keeps_intros run_command_keeps keeps_host(1)) (simp_all add: or_fail_def)

section \<open>Properties\<close>


text \<open>A host that has every file but those of the share directory before it is made.\<close>

definition demo_host :: "bool build_host" where
  "demo_host =
     \<lparr>bh_exists = (\<lambda>p made. made \<or> \<not> starts_with ''share'' p), bh_copy = (\<lambda>a b made. (Inr (), True)),
      bh_create_dir = (\<lambda>d made. (Inr (), True)), bh_read_dir = (\<lambda>d made. Inr [Inr ''bitcoin-31.0'']),
      bh_write = (\<lambda>f t made. (Inr (), made)),
      bh_output = (\<lambda>b args made. (Inr (True, ''pool'' @ [newline_char] @ ''libc.so.6 => /lib/libc.so.6''), made)),
      bh_status = (\<lambda>b args d made. (Inr (True, ''exit status: 0''), made))\<rparr>"

definition demo_args :: init_args where
  "demo_args =
     \<lparr>ia_sharedir = ''share'', ia_scenario = ''bin/scenario'', ia_pool = ''bin/pool'',
      ia_template_provider = ''tp'', ia_nyx_dir = ''nyx'', ia_crash_handler = ''lib/handler.so'', ia_memory = 4096\<rparr>"

lemma demo_host_keeps: "host_keeps demo_host"
  by (auto simp: host_keeps_def demo_host_def)

lemma demo_init: "init_execute demo_host demo_args False = (Inr (), True)"
  by (simp add: init_execute_def required_paths_def demo_args_def demo_host_def starts_with_def build_share_def
      bind_do_def add_binaries_def add_content_def file_name_def error_text_def give_def
      template_provider_binaries_def entry_binaries_def path_join_def add_libraries_def shared_libraries_def
      text_lines_def newline_char_def drop_last_if_def libraries_of_def library_of_def trim_def is_space_def
      pack_template_provider_def run_command_def add_nyx_def or_fail_def Let_def)


text \<open>Arguments that cannot be used are refused before anything is done.\<close>

theorem init_refuses_before_acting:
  "init_execute h a w =
     (if \<not> bh_exists h (ia_sharedir a) w \<and> (\<forall>(what, path) \<in> set (required_paths a). bh_exists h path w)
      then build_share h a w
      else (Inl (if bh_exists h (ia_sharedir a) w
                 then ia_sharedir a @ '' exists already; choose a fresh share directory''
                 else (case hd (filter (\<lambda>(what, path). \<not> bh_exists h path w) (required_paths a)) of
                         (what, path) \<Rightarrow> ''the '' @ what @ '' '' @ path @ '' does not exist'')), w))"
  by (auto simp: init_execute_def required_paths_def)

lemma after_arrow_append: "CHR 0x3D \<notin> set xs \<Longrightarrow> after_arrow (xs @ ''=>'' @ ys) = Some ys"
  by (induction xs rule: after_arrow.induct) auto

text \<open>A library that \<open>ldd\<close> cannot find is left out of the share directory without a word, though
  the machine has no libraries of its own: its line has an arrow and no path.\<close>

theorem missing_library_is_left_out:
  assumes "CHR 0x3D \<notin> set name"
  shows "library_of (name @ '' => not found'') = None"
proof -
  let ?x = "dropWhile is_space (name @ '' '')"
  have "dropWhile is_space (name @ '' => not found'') = ?x @ ''=> not found''"
    by (simp add: dropWhile_append is_space_def)
  then have t: "trim (name @ '' => not found'') = ?x @ ''=> not found''"
    by (simp add: trim_def is_space_def)
  have "set ?x \<subseteq> insert (CHR 0x20) (set name)" using set_dropWhileD by fastforce
  with assms have "CHR 0x3D \<notin> set ?x" by auto
  from after_arrow_append [OF this, of "'' not found''"] t
  have "after_arrow (trim (name @ '' => not found'')) = Some '' not found''" by simp
  moreover have "trim '' not found'' = ''not found''" by (simp add: trim_def is_space_def)
  ultimately show ?thesis by (simp add: library_of_def starts_with_def)
qed

theorem missing_library_is_left_out_witness:
  "library_of ([CHR 0x09] @ ''libcapnp-1.0.so'' @ '' => not found'') = None"
proof -
  have "CHR 0x3D \<notin> set ([CHR 0x09] @ ''libcapnp-1.0.so'')" by simp
  from missing_library_is_left_out [OF this] show ?thesis by simp
qed

end
