(* ===== verification/Numbers.thy ===== *)
theory Numbers
  imports Texts "HOL-Library.List_Lexorder" "HOL-Library.Char_ord"
begin

text \<open>
  Reading numbers, as the standard library does for the command line tool, and that a printed
  number reads back.
\<close>

section \<open>Parsing numbers\<close>

text \<open>\<open>str::parse\<close> at an unsigned type whose largest value is \<open>largest\<close>: an optional plus sign, and
  digits. A character that is no digit is reported before the overflow at the same place.\<close>

definition digit_of :: "char \<Rightarrow> nat option" where
  "digit_of c = (if CHR 0x30 \<le> c \<and> c \<le> CHR 0x39 then Some (of_char c - 48) else None)"

fun parse_digits :: "nat \<Rightarrow> nat \<Rightarrow> string \<Rightarrow> (string, nat) outcome" where
  "parse_digits largest n [] = Ok n"
| "parse_digits largest n (c # cs) =
     (case digit_of c of
        None \<Rightarrow> Err ''invalid digit found in string''
      | Some d \<Rightarrow>
          if largest < 10 * n + d then Err ''number too large to fit in target type''
          else parse_digits largest (10 * n + d) cs)"

definition parse_unsigned :: "nat \<Rightarrow> string \<Rightarrow> (string, nat) outcome" where
  "parse_unsigned largest s =
     (case s of
        [] \<Rightarrow> Err ''cannot parse integer from empty string''
      | c # cs \<Rightarrow>
          if cs = [] \<and> c \<in> {CHR 0x2B, CHR 0x2D} then Err ''invalid digit found in string''
          else parse_digits largest 0 (if c = CHR 0x2B then cs else s))"

section \<open>Numbers print and parse back\<close>

lemma digit_of_char: "d < 10 \<Longrightarrow> digit_of (char_of (48 + d)) = Some d"
proof -
  have "\<forall>d \<in> set [0..<10]. digit_of (char_of (48 + d)) = Some d" by code_simp
  then show "d < 10 \<Longrightarrow> ?thesis" by simp
qed

lemma parse_digits_append:
  "parse_digits largest n (xs @ ys) = andThen (parse_digits largest n xs) (\<lambda>m. parse_digits largest m ys)"
  by (induction xs arbitrary: n) (simp_all split: option.split)

lemma parse_digits_not_Panic: "parse_digits largest n cs \<noteq> Panic"
  by (induction cs arbitrary: n) (simp_all split: option.split)

lemma parse_digits_decimal:
  "parse_digits largest 0 (decimal n) =
     (if n \<le> largest then Ok n else Err ''number too large to fit in target type'')"
proof (induction n rule: decimal.induct)
  case (1 n)
  show ?case
  proof (cases "n < 10")
    case True
    then show ?thesis by (simp add: decimal.simps [of n] digit_of_char)
  next
    case False
    have n: "10 * (n div 10) + n mod 10 = n" by simp
    have last: "digit_of (char_of (48 + n mod 10)) = Some (n mod 10)" by (simp add: digit_of_char)
    from False have "decimal n = decimal (n div 10) @ [char_of (48 + n mod 10)]"
      by (simp add: decimal.simps [of n])
    with 1 [OF False] have "parse_digits largest 0 (decimal n) =
        andThen (if n div 10 \<le> largest then Ok (n div 10) else Err ''number too large to fit in target type'')
          (\<lambda>m. parse_digits largest m [char_of (48 + n mod 10)])"
      by (simp only: parse_digits_append)
    moreover have "n div 10 \<le> largest" if "n \<le> largest" using that div_le_dividend order_trans by blast
    ultimately show ?thesis using last n by auto
  qed
qed

lemma decimal_starts_with_digit: "\<exists>d cs. d < (10 :: nat) \<and> decimal n = char_of (48 + d) # cs"
proof (induction n rule: decimal.induct)
  case (1 n)
  show ?case
  proof (cases "n < 10")
    case False
    with 1 obtain d :: nat and cs where "d < 10" "decimal (n div 10) = char_of (48 + d) # cs" by blast
    with False show ?thesis by (auto simp: decimal.simps [of n])
  qed (auto simp: decimal.simps [of n])
qed

lemma digit_is_no_sign: "d < (10 :: nat) \<Longrightarrow> char_of (48 + d) \<notin> {CHR 0x2B, CHR 0x2D}"
proof -
  have "\<forall>d \<in> set [0..<10 :: nat]. char_of (48 + d) \<notin> {CHR 0x2B, CHR 0x2D}" by code_simp
  then show "d < 10 \<Longrightarrow> ?thesis" by simp
qed

lemma parse_decimal:
  "parse_unsigned largest (decimal n) =
     (if n \<le> largest then Ok n else Err ''number too large to fit in target type'')"
proof -
  obtain d :: nat and cs where d: "d < 10" "decimal n = char_of (48 + d) # cs"
    using decimal_starts_with_digit by blast
  with digit_is_no_sign [OF d(1)] have "parse_unsigned largest (decimal n) = parse_digits largest 0 (decimal n)"
    by (simp add: parse_unsigned_def)
  then show ?thesis by (simp only: parse_digits_decimal)
qed

lemma parse_digits_zeros:
  "parse_digits largest 0 (replicate k (CHR 0x30) @ s) = parse_digits largest 0 s"
proof (induction k)
  case (Suc k)
  have "digit_of (CHR 0x30) = Some 0" by code_simp
  with Suc show ?case by simp
qed simp

lemma decimal_inject: "decimal m = decimal n \<longleftrightarrow> m = n"
  by (metis max.cobounded1 max.cobounded2 outcome.inject(1) parse_decimal)

lemma decimal_digits: "c \<in> set (decimal n) \<Longrightarrow> digit_of c \<noteq> None"
proof (induction n rule: decimal.induct)
  case (1 n)
  show ?case
  proof (cases "n < 10")
    case True
    with 1 show ?thesis by (simp add: decimal.simps [of n] digit_of_char)
  next
    case False
    with 1 show ?thesis by (auto simp: decimal.simps [of n] digit_of_char)
  qed
qed

lemma decimal_not_Nil [simp]: "decimal n \<noteq> []"
  by (simp add: decimal.simps [of n])

section \<open>Properties\<close>

text \<open>A number is read back from how it prints, or refused when the type cannot hold it.\<close>

theorem numbers_read_back:
  "parse_unsigned largest (decimal n) =
     (if n \<le> largest then Ok n else Err ''number too large to fit in target type'')"
  by (rule parse_decimal)

end
