(* ===== verification/Cli.thy ===== *)
theory Cli
  imports Init Numbers Ir_Text Generators Compiler_Sound
begin

text \<open>
  The command line tool (\<open>stratamoto-cli/src/main.rs\<close>): generating a program, printing and
  compiling one, and the arguments of \<open>init\<close>. The encoding of programs, the random numbers, the
  encodings the compiler writes and the debug texts are libraries', the standard streams are the
  operating system's: the record \<open>console\<close> over a world \<open>'w\<close>.
\<close>

section \<open>Numbers among the arguments\<close>

definition u64_max :: nat where "u64_max = 2 ^ 64 - 1"
definition u32_max :: nat where "u32_max = 2 ^ 32 - 1"

definition arg_or :: "nat \<Rightarrow> string option \<Rightarrow> (string, nat) outcome" where
  "arg_or d arg = (case arg of None \<Rightarrow> Ok d | Some s \<Rightarrow> parse_unsigned u64_max s)"

section \<open>The commands\<close>

record ('r, 'w) console =
  cn_rng :: "'r rng_ops"
  cn_seed_from :: "nat \<Rightarrow> 'r"
  cn_to_allocvec :: "program \<Rightarrow> string + u8 list"
  cn_from_bytes :: "u8 list \<Rightarrow> string + program"
  cn_texts :: debug_texts
  cn_debug_action :: "action \<Rightarrow> string"
  cn_codec :: codec
  cn_read_stdin :: "'w \<Rightarrow> (string + u8 list) \<times> 'w"
  cn_write_stdout :: "u8 list \<Rightarrow> 'w \<Rightarrow> (string + unit) \<times> 'w"
  cn_print :: "string \<Rightarrow> 'w \<Rightarrow> 'w"
  cn_eprint :: "string \<Rightarrow> 'w \<Rightarrow> 'w"

definition generate_program :: "('r, 'w) console \<Rightarrow> nat \<Rightarrow> nat \<Rightarrow> (string, program) outcome" where
  "generate_program cn sd roles =
     (if roles = 0 then Panic
      else case generate_setup (cn_rng cn) (new_setup_generator (sd mod roles))
                  (new_builder \<lparr>num_roles = roles, num_connections = 0, seed = sd\<rparr>, cn_seed_from cn sd) of
        (r, b, _) \<Rightarrow>
          andThen (map_err (validation_error_display (cn_texts cn)) r) (\<lambda>_.
            map_err (validation_error_display (cn_texts cn)) (finalize b)))"

definition write_program ::
  "('r, 'w) console \<Rightarrow> program \<Rightarrow> 'w \<Rightarrow> (string, unit) outcome \<times> 'w" where
  "write_program cn p w =
     (case cn_to_allocvec cn p of
        Inl e \<Rightarrow> (Err e, w)
      | Inr bytes \<Rightarrow>
          (case cn_write_stdout cn bytes w of
             (Inl e, w1) \<Rightarrow> (Err e, w1)
           | (Inr _, w1) \<Rightarrow> (Ok (), w1)))"

definition cli_generate ::
  "('r, 'w) console \<Rightarrow> string list \<Rightarrow> 'w \<Rightarrow> (string, unit) outcome \<times> 'w" where
  "cli_generate cn args w =
     (case andThen (arg_or 0 (get args 0)) (\<lambda>sd.
             andThen (arg_or 3 (get args 1)) (\<lambda>roles. generate_program cn sd roles)) of
        Ok p \<Rightarrow> write_program cn p w
      | Err e \<Rightarrow> (Err e, w)
      | Panic \<Rightarrow> (Panic, w))"

definition read_program ::
  "('r, 'w) console \<Rightarrow> 'w \<Rightarrow> (string, program) outcome \<times> 'w" where
  "read_program cn w =
     (case cn_read_stdin cn w of
        (Inl e, w1) \<Rightarrow> (Err e, w1)
      | (Inr bytes, w1) \<Rightarrow>
          (case cn_from_bytes cn bytes of Inl e \<Rightarrow> (Err e, w1) | Inr p \<Rightarrow> (Ok p, w1)))"

definition cli_print :: "('r, 'w) console \<Rightarrow> 'w \<Rightarrow> (string, unit) outcome \<times> 'w" where
  "cli_print cn w =
     (case read_program cn w of
        (Ok p, w1) \<Rightarrow> (Ok (), cn_print cn (display_program (cn_texts cn) p) w1)
      | (Err e, w1) \<Rightarrow> (Err e, w1)
      | (Panic, w1) \<Rightarrow> (Panic, w1))"

definition action_line :: "('r, 'w) console \<Rightarrow> action \<times> nat \<Rightarrow> string" where
  "action_line cn ai = ''['' @ decimal (snd ai) @ ''] '' @ cn_debug_action cn (fst ai) @ newline"

definition cli_compile :: "('r, 'w) console \<Rightarrow> 'w \<Rightarrow> (string, unit) outcome \<times> 'w" where
  "cli_compile cn w =
     (case read_program cn w of
        (Ok p, w1) \<Rightarrow>
          (case compile (cn_codec cn) p of
             Ok q \<Rightarrow>
               (Ok (), fold (\<lambda>ai. cn_print cn (action_line cn ai))
                         (zip (comp_actions q) (action_instructions (comp_metadata q))) w1)
           | Err e \<Rightarrow> (Err (compiler_error_display e), w1)
           | Panic \<Rightarrow> (Panic, w1))
      | (Err e, w1) \<Rightarrow> (Err e, w1)
      | (Panic, w1) \<Rightarrow> (Panic, w1))"

section \<open>The arguments of \<open>init\<close>\<close>

record init_options =
  io_sharedir :: "string option"
  io_scenario :: "string option"
  io_pool :: "string option"
  io_template_provider :: "string option"
  io_nyx_dir :: "string option"
  io_crash_handler :: string
  io_memory :: nat

definition set_option :: "string \<Rightarrow> string \<Rightarrow> init_options \<Rightarrow> (string, init_options) outcome" where
  "set_option key v o' =
     (if key = ''--sharedir'' then Ok (o'\<lparr>io_sharedir := Some v\<rparr>)
      else if key = ''--scenario'' then Ok (o'\<lparr>io_scenario := Some v\<rparr>)
      else if key = ''--pool'' then Ok (o'\<lparr>io_pool := Some v\<rparr>)
      else if key = ''--template-provider'' then Ok (o'\<lparr>io_template_provider := Some v\<rparr>)
      else if key = ''--nyx-dir'' then Ok (o'\<lparr>io_nyx_dir := Some v\<rparr>)
      else if key = ''--crash-handler'' then Ok (o'\<lparr>io_crash_handler := v\<rparr>)
      else if key = ''--memory'' then andThen (parse_unsigned u32_max v) (\<lambda>n. Ok (o'\<lparr>io_memory := n\<rparr>))
      else Err (''unknown option '' @ key))"

fun set_options :: "string list \<Rightarrow> init_options \<Rightarrow> (string, init_options) outcome" where
  "set_options [] o' = Ok o'"
| "set_options [key] o' = Err (key @ '' takes a value'')"
| "set_options (key # v # rest) o' = andThen (set_option key v o') (set_options rest)"

definition required :: "string \<Rightarrow> string option \<Rightarrow> (string, string) outcome" where
  "required name value =
     (case value of
        None \<Rightarrow> Err (''init needs '' @ name @ ''; see `stratamoto` for the options'')
      | Some v \<Rightarrow> Ok v)"

definition no_options :: "string \<Rightarrow> init_options" where
  "no_options built_handler =
     \<lparr>io_sharedir = None, io_scenario = None, io_pool = None, io_template_provider = None,
      io_nyx_dir = None, io_crash_handler = built_handler, io_memory = 4096\<rparr>"

definition parse_init_args :: "string \<Rightarrow> string list \<Rightarrow> (string, init_args) outcome" where
  "parse_init_args built_handler args =
     andThen (set_options args (no_options built_handler)) (\<lambda>o'.
     andThen (required ''--sharedir'' (io_sharedir o')) (\<lambda>sharedir.
     andThen (required ''--scenario'' (io_scenario o')) (\<lambda>scenario.
     andThen (required ''--pool'' (io_pool o')) (\<lambda>pool.
     andThen (required ''--template-provider'' (io_template_provider o')) (\<lambda>template_provider.
     andThen (required ''--nyx-dir'' (io_nyx_dir o')) (\<lambda>nyx_dir.
     Ok \<lparr>ia_sharedir = sharedir, ia_scenario = scenario, ia_pool = pool,
         ia_template_provider = template_provider, ia_nyx_dir = nyx_dir,
         ia_crash_handler = io_crash_handler o', ia_memory = io_memory o'\<rparr>))))))"

section \<open>The tool\<close>

definition usage :: string where
  "usage = concat (map (\<lambda>l. l @ newline)
     [''usage: stratamoto <command>'',
      [],
      ''  generate [seed] [roles]   write a program for the given seed to stdout'',
      ''  print                     pretty print a program read from stdin'',
      ''  compile                   print the actions a program from stdin compiles to'',
      ''  init <options>            create a Nyx share directory for a scenario:'',
      ''    --sharedir <dir>            where to create it (must not exist)'',
      ''    --scenario <bin>            the scenario binary, built with --features nyx'',
      ''    --pool <bin>                the pool binary'',
      ''    --template-provider <dir>   where Bitcoin Core lives'',
      ''    --nyx-dir <dir>             AFL++'' @ [CHR 0x27] @
        ''s nyx_mode, or a target dir libafl_nyx built into'',
      ''    --crash-handler <so>        the handler to preload into the pool (default: the built one)'',
      ''    --memory <MB>               the VM'' @ [CHR 0x27] @ ''s memory (default: 4096)''])"

definition cli_init ::
  "'w build_host \<Rightarrow> string \<Rightarrow> string list \<Rightarrow> 'w \<Rightarrow> (string, unit) outcome \<times> 'w" where
  "cli_init h built_handler args w =
     (case parse_init_args built_handler args of
        Ok a \<Rightarrow>
          (case init_execute h a w of
             (Inl e, w1) \<Rightarrow> (Err e, w1)
           | (Inr _, w1) \<Rightarrow> (Ok (), w1))
      | Err e \<Rightarrow> (Err e, w)
      | Panic \<Rightarrow> (Panic, w))"

text \<open>The exit code, unless the tool panics.\<close>

definition cli_main ::
  "('r, 'w) console \<Rightarrow> 'w build_host \<Rightarrow> string \<Rightarrow> string list \<Rightarrow> 'w \<Rightarrow> (unit, nat) outcome \<times> 'w" where
  "cli_main cn h built_handler args w =
     (let command =
        (case args of
           [] \<Rightarrow> None
         | c # rest \<Rightarrow>
             if c = ''generate'' then Some (cli_generate cn rest)
             else if c = ''print'' then Some (cli_print cn)
             else if c = ''compile'' then Some (cli_compile cn)
             else if c = ''init'' then Some (cli_init h built_handler rest)
             else None)
      in case command of
           None \<Rightarrow> (Ok 1, cn_eprint cn usage w)
         | Some f \<Rightarrow>
             (case f w of
                (Ok _, w1) \<Rightarrow> (Ok 0, w1)
              | (Err e, w1) \<Rightarrow> (Ok 1, cn_eprint cn (''error: '' @ e @ newline) w1)
              | (Panic, w1) \<Rightarrow> (Panic, w1)))"

section \<open>What a generator emits\<close>

text \<open>Every instruction a generator adds satisfies a predicate on operations.\<close>

definition all_ops :: "(operation \<Rightarrow> bool) \<Rightarrow> builder \<Rightarrow> bool" where
  "all_ops P b \<longleftrightarrow> (\<forall>i \<in> set (b_instructions b). P (operation i))"

definition emits :: "(operation \<Rightarrow> bool) \<Rightarrow> ('r, 'a) gen \<Rightarrow> bool" where
  "emits P m \<longleftrightarrow> (\<forall>b r. all_ops P b \<longrightarrow> all_ops P (fst (snd (m (b, r)))))"

lemma append_close_instructions: "b_instructions (snd (append_close i b)) = b_instructions b"
proof -
  have "b_instructions b' = b_instructions b" if "exit_scope b = Ok (ex, b')" for ex b'
    using that by (auto simp: exit_scope_def split: list.splits)
  then show ?thesis
    by (auto simp: append_close_def split: outcome.splits option.splits prod.splits)
qed

lemma append_define_instructions:
  "b_instructions (snd (append_define i b)) \<in> {b_instructions b, b_instructions b @ [i]}"
  by (auto simp: append_define_def Let_def enter_scope_def split: outcome.splits option.splits if_splits)

lemma append_instructions: "b_instructions (snd (append i b)) \<in> {b_instructions b, b_instructions b @ [i]}"
proof (cases "append_checks i b")
  case (Ok u)
  obtain r b' where c: "append_close i b = (r, b')" by fastforce
  with append_close_instructions [of i b] have "b_instructions b' = b_instructions b" by simp
  with Ok c append_define_instructions [of i b'] show ?thesis by (cases r) (simp_all add: append_def)
qed (simp_all add: append_def)

lemma emits_gret: "emits P (gret a)"
  by (simp add: emits_def gret_def)

lemma emits_draw: "emits P (draw f)"
  by (simp add: emits_def draw_def case_prod_beta)

lemma emits_emit:
  assumes "P op"
  shows "emits P (emit op ins)"
  unfolding emits_def
proof (intro allI impI)
  fix b r assume b: "all_ops P b"
  let ?i = "Instruction op (map iv_index ins)"
  have "all_ops P (snd (append ?i b))"
    using append_instructions [of ?i b] b assms by (auto simp: all_ops_def)
  then show "all_ops P (fst (snd (emit op ins (b, r))))"
    by (simp add: emit_def append_op_def case_prod_beta)
qed

lemma emits_bind:
  assumes "emits P m" and "\<And>a. emits P (f a)"
  shows "emits P (gbind m f)"
  unfolding emits_def
proof (intro allI impI)
  fix b r assume b: "all_ops P b"
  obtain res b' r' where m: "m (b, r) = (res, b', r')" by (metis prod_cases3)
  with b assms(1) have "all_ops P b'" unfolding emits_def by (metis fst_conv snd_conv)
  with m assms(2) show "all_ops P (fst (snd (gbind m f (b, r))))"
    by (cases res) (auto simp: gbind_def emits_def)
qed

lemma emits_one: "P op \<Longrightarrow> emits P (emit_one op ins)"
  unfolding emit_one_def by (intro emits_bind emits_emit) (simp_all add: emits_def)

lemma emits_random_variable: "emits P (random_variable g var)"
  by (simp add: emits_def random_variable_def case_prod_beta)

lemma emits_choose: "emits P (choose_expect g xs)"
  unfolding choose_expect_def
  by (intro emits_bind emits_draw) (simp add: emits_def split: option.split)

lemmas emits_intros = emits_bind emits_gret emits_draw emits_emit emits_one emits_random_variable emits_choose

definition short_string :: "operation \<Rightarrow> bool" where
  "short_string op \<longleftrightarrow> (\<forall>s. op = LoadStr s \<longrightarrow> length s \<le> 255)"

lemma short_string_cases:
  "short_string op \<longleftrightarrow> (case op of LoadStr s \<Rightarrow> length s \<le> 255 | _ \<Rightarrow> True)"
  by (cases op) (simp_all add: short_string_def)

lemma generate_setup_short: "emits short_string (generate_setup g sg)"
  unfolding generate_setup_def pick_protocol_def connection_def open_connection_def setup_connection_def
    set_endpoint_def set_device_info_def
  by (auto intro!: emits_intros simp: short_string_def split: option.split connection_choice.split)

lemma generate_program_valid:
  assumes "rng_ok (cn_rng cn)" and "0 < roles"
  obtains p where "generate_program cn sd roles = Ok p" "wt_program (prog_context p) (instructions p)"
    "prog_context p = \<lparr>num_roles = roles, num_connections = 0, seed = sd\<rparr>" "strings_fit p"
proof -
  let ?ctx = "\<lparr>num_roles = roles, num_connections = 0, seed = sd\<rparr>"
  let ?sg = "new_setup_generator (sd mod roles)"
  have "rng_ok (cn_rng cn) \<and> sg_role ?sg < num_roles (b_context (new_builder ?ctx))"
    using assms by (simp add: new_setup_generator_def new_builder_def enter_scope_def)
  from setup_gen.generates [OF builder_inv_new this, of "{}" "cn_seed_from cn sd"] obtain b r F where
    g: "generate_setup (cn_rng cn) ?sg (new_builder ?ctx, cn_seed_from cn sd) = (Ok (), b, r)"
      "grew (new_builder ?ctx) b" "frames (abs_typing b) = [(None, F)]"
    by (auto simp: init_typing_def)
  have new: "b_context (new_builder ?ctx) = ?ctx" "b_instructions (new_builder ?ctx) = []"
    by (simp_all add: new_builder_def enter_scope_def)
  from g(2) new have b: "builder_inv b" "b_context b = ?ctx"
    "wt_steps ?ctx init_typing (b_instructions b) (abs_typing b)"
    by (auto simp: grew_def)
  let ?p = "\<lparr>prog_context = ?ctx, instructions = b_instructions b\<rparr>"
  have len: "length (frames (abs_typing b)) = 1" by (simp only: g(3)) simp
  have "finalize b = Ok ?p" using finalize_cases [OF b(1)] len b(2) by simp
  with g(1) assms(2) have "generate_program cn sd roles = Ok ?p" by (simp add: generate_program_def)
  moreover have "wt_program (prog_context ?p) (instructions ?p)"
    using b(3) len by (auto simp: wt_program_def)
  moreover have "strings_fit ?p"
  proof -
    have "all_ops short_string (new_builder ?ctx)" using new(2) by (simp add: all_ops_def)
    from generate_setup_short [unfolded emits_def, rule_format, OF this, of "cn_rng cn" ?sg "cn_seed_from cn sd"] g(1)
    have "all_ops short_string b" by simp
    then have "\<forall>i \<in> set (instructions ?p). short_string (operation i)" by (simp add: all_ops_def)
    then show ?thesis unfolding strings_fit_def short_string_cases .
  qed
  ultimately show ?thesis using that [of ?p] by simp
qed

lemma arg_or_not_Panic: "arg_or d arg \<noteq> Panic"
  by (simp add: arg_or_def parse_unsigned_def parse_digits_not_Panic split: option.split list.split)

text \<open>What came out of \<open>generate\<close>.\<close>

lemma cli_generate_cases:
  assumes "rng_ok (cn_rng cn)"
  obtains e where "cli_generate cn args w = (Err e, w)"
  | "cli_generate cn args w = (Panic, w)" "arg_or 3 (get args 1) = Ok 0" "\<exists>sd. arg_or 0 (get args 0) = Ok sd"
  | sd roles p where "arg_or 0 (get args 0) = Ok sd" "arg_or 3 (get args 1) = Ok roles" "0 < roles"
      "generate_program cn sd roles = Ok p" "cli_generate cn args w = write_program cn p w"
proof (cases "arg_or 0 (get args 0)")
  case (Ok sd)
  show ?thesis
  proof (cases "arg_or 3 (get args 1)")
    case roles: (Ok roles)
    show ?thesis
    proof (cases "roles = 0")
      case True
      with Ok roles show ?thesis by (intro that(2)) (simp_all add: cli_generate_def generate_program_def)
    next
      case False
      then have "0 < roles" by simp
      from generate_program_valid [OF assms this, of sd] obtain p where "generate_program cn sd roles = Ok p" .
      with Ok roles \<open>0 < roles\<close> show ?thesis by (intro that(3)) (simp_all add: cli_generate_def)
    qed
  qed (use Ok that(1) in \<open>simp_all add: cli_generate_def arg_or_not_Panic\<close>)
qed (use that(1) in \<open>simp_all add: cli_generate_def arg_or_not_Panic\<close>)

section \<open>The options of \<open>init\<close>\<close>

definition given_or :: "string option \<Rightarrow> string option \<Rightarrow> string option" where
  "given_or given old = (case given of None \<Rightarrow> old | Some v \<Rightarrow> Some v)"

text \<open>A reference reading of the arguments: the last value given for a key.\<close>

fun last_given :: "string \<Rightarrow> string list \<Rightarrow> string option" where
  "last_given key (k # v # rest) =
     given_or (last_given key rest) (if k = key then Some v else None)"
| "last_given key _ = None"

definition init_keys :: "string list" where
  "init_keys = [''--sharedir'', ''--scenario'', ''--pool'', ''--template-provider'', ''--nyx-dir'',
     ''--crash-handler'', ''--memory'']"

fun readable :: "string list \<Rightarrow> bool" where
  "readable [] = True"
| "readable [key] = False"
| "readable (key # v # rest) \<longleftrightarrow>
     key \<in> set init_keys \<and> (key = ''--memory'' \<longrightarrow> is_ok (parse_unsigned u32_max v)) \<and> readable rest"

definition memory_given :: "string option \<Rightarrow> nat \<Rightarrow> nat \<Rightarrow> bool" where
  "memory_given given old n \<longleftrightarrow>
     (case given of None \<Rightarrow> n = old | Some v \<Rightarrow> parse_unsigned u32_max v = Ok n)"

text \<open>What the options are after the arguments, by those before.\<close>

definition options_after :: "string list \<Rightarrow> init_options \<Rightarrow> init_options \<Rightarrow> bool" where
  "options_after args o1 o2 \<longleftrightarrow>
     io_sharedir o2 = given_or (last_given ''--sharedir'' args) (io_sharedir o1) \<and>
     io_scenario o2 = given_or (last_given ''--scenario'' args) (io_scenario o1) \<and>
     io_pool o2 = given_or (last_given ''--pool'' args) (io_pool o1) \<and>
     io_template_provider o2 = given_or (last_given ''--template-provider'' args) (io_template_provider o1) \<and>
     io_nyx_dir o2 = given_or (last_given ''--nyx-dir'' args) (io_nyx_dir o1) \<and>
     Some (io_crash_handler o2) = given_or (last_given ''--crash-handler'' args) (Some (io_crash_handler o1)) \<and>
     memory_given (last_given ''--memory'' args) (io_memory o1) (io_memory o2)"

lemma given_or_simps [simp]:
  "given_or None old = old" "given_or (Some v) old = Some v" "given_or g None = g"
  "given_or (given_or g h) old = given_or g (given_or h old)"
  by (simp_all add: given_or_def split: option.split)

lemma memory_given_or:
  "parse_unsigned u32_max v = Ok m \<Longrightarrow> memory_given (given_or g (Some v)) old n \<longleftrightarrow> memory_given g m n"
  by (cases g) (auto simp: memory_given_def)

lemma memory_given_det: "memory_given g old m \<Longrightarrow> memory_given g old n \<longleftrightarrow> n = m"
  by (cases g) (auto simp: memory_given_def)

lemma set_option_after:
  assumes "set_option k v o1 = Ok o2" and "options_after rest o2 o3"
  shows "options_after (k # v # rest) o1 o3"
  using assms by (auto simp: set_option_def options_after_def memory_given_or split: if_splits)

lemma set_options_after: "set_options args o1 = Ok o2 \<Longrightarrow> options_after args o1 o2"
proof (induction args o1 rule: set_options.induct)
  case (3 k v rest o1)
  then obtain o3 where o3: "set_option k v o1 = Ok o3" "set_options rest o3 = Ok o2" by auto
  from set_option_after [OF o3(1) "3.IH" [OF o3(2)]] show ?case .
qed (simp_all add: options_after_def given_or_def memory_given_def)

lemma set_option_readable:
  "(\<exists>o2. set_option k v o1 = Ok o2) \<longleftrightarrow>
   k \<in> set init_keys \<and> (k = ''--memory'' \<longrightarrow> is_ok (parse_unsigned u32_max v))"
  by (simp add: set_option_def init_keys_def is_ok_iff)

lemma set_options_readable: "(\<exists>o2. set_options args o1 = Ok o2) \<longleftrightarrow> readable args"
proof (induction args o1 rule: set_options.induct)
  case (3 k v rest o1)
  show ?case
  proof (cases "\<exists>o2. set_option k v o1 = Ok o2")
    case True
    then obtain o2 where o2: "set_option k v o1 = Ok o2" by blast
    then have "(\<exists>o3. set_options (k # v # rest) o1 = Ok o3) \<longleftrightarrow> readable rest" using "3.IH" by simp
    with True set_option_readable [of k v o1] show ?thesis by simp
  next
    case False
    then have "\<not> readable (k # v # rest)" using set_option_readable [of k v o1] by auto
    with False show ?thesis by auto
  qed
qed simp_all

lemma required_Ok: "required name value = Ok v \<longleftrightarrow> value = Some v"
  by (simp add: required_def split: option.split)

text \<open>A console over the bytes in a pipe, with an encoding that knows one program.\<close>

definition demo_console :: "program \<Rightarrow> (nat, u8 list) console" where
  "demo_console p =
     \<lparr>cn_rng = counting_rng, cn_seed_from = (\<lambda>n. n),
      cn_to_allocvec = (\<lambda>q. if q = p then Inr [1] else Inl ''too large''), cn_from_bytes = (\<lambda>_. Inr p),
      cn_texts = \<lparr>debug_str = (\<lambda>s. s), debug_duration = decimal\<rparr>, cn_debug_action = (\<lambda>_. ''action''),
      cn_codec = tiny_codec, cn_read_stdin = (\<lambda>w. (Inr w, w)), cn_write_stdout = (\<lambda>bytes w. (Inr (), bytes)),
      cn_print = (\<lambda>_ w. w), cn_eprint = (\<lambda>_ w. w)\<rparr>"

lemma demo_console_simps [simp]:
  "cn_rng (demo_console p) = counting_rng" "cn_codec (demo_console p) = tiny_codec"
  "cn_read_stdin (demo_console p) w = (Inr w, w)" "cn_write_stdout (demo_console p) bytes w = (Inr (), bytes)"
  "cn_to_allocvec (demo_console p) q = (if q = p then Inr [1] else Inl ''too large'')"
  "cn_from_bytes (demo_console p) bytes = Inr p"
  by (simp_all add: demo_console_def)

lemma demo_console_generates:
  obtains p where "\<And>q. cli_generate (demo_console q) [] w =
    (if q = p then (Ok (), [1]) else (Err ''too large'', w))"
proof -
  obtain p where p: "generate_program (demo_console undefined) 0 3 = Ok p"
    by (rule generate_program_valid [of "demo_console undefined" 3 0]) (simp_all add: counting_rng_ok)
  have "generate_program (demo_console q) 0 3 = generate_program (demo_console undefined) 0 3" for q
    by (simp add: generate_program_def demo_console_def)
  with p have "cli_generate (demo_console q) [] w = (if q = p then (Ok (), [1]) else (Err ''too large'', w))" for q
    by (simp add: cli_generate_def arg_or_def get_def write_program_def)
  with that show ?thesis .
qed

section \<open>Properties\<close>

text \<open>C24: What \<open>generate\<close> writes the other commands accept: whatever the seed, the number of roles
  and the draws, the bytes it wrote make \<open>compile\<close> and \<open>print\<close> succeed, when decoding undoes
  encoding.\<close>

theorem generated_programs_compile:
  assumes "rng_ok (cn_rng cn)" and "codec_ok (cn_codec cn)"
    and "\<And>p bytes. cn_to_allocvec cn p = Inr bytes \<Longrightarrow> cn_from_bytes cn bytes = Inr p"
    and "cli_generate cn args w = (Ok (), w1)"
  shows "\<exists>bytes. cn_write_stdout cn bytes w = (Inr (), w1) \<and>
    (\<forall>v v1. cn_read_stdin cn v = (Inr bytes, v1) \<longrightarrow>
       fst (cli_main cn h handler [''compile''] v) = Ok 0 \<and>
       fst (cli_main cn h handler [''print''] v) = Ok 0)"
proof -
  obtain sd roles p where p: "0 < roles" "generate_program cn sd roles = Ok p"
    "write_program cn p w = (Ok (), w1)"
    using cli_generate_cases [OF assms(1), of args w] assms(4) by (metis outcome.distinct(1, 3) prod.inject)
  from p(3) obtain bytes where bytes: "cn_to_allocvec cn p = Inr bytes" "cn_write_stdout cn bytes w = (Inr (), w1)"
    by (auto simp: write_program_def split: sum.splits prod.splits)
  from generate_program_valid [OF assms(1) p(1), of sd] p(2)
  have wt: "wt_program (prog_context p) (instructions p)" "strings_fit p" by (metis outcome.inject(1))+
  obtain q where q: "compile (cn_codec cn) p = Ok q"
    by (rule compile_valid_cases [OF wt(1) assms(2), where b = True]) (use wt(2) in \<open>auto simp: compile_def\<close>)
  have read: "read_program cn v = (Ok p, v1)" if "cn_read_stdin cn v = (Inr bytes, v1)" for v v1
    using that assms(3) [OF bytes(1)] by (simp add: read_program_def)
  have "fst (cli_main cn h handler [''compile''] v) = Ok 0 \<and> fst (cli_main cn h handler [''print''] v) = Ok 0"
    if "cn_read_stdin cn v = (Inr bytes, v1)" for v v1
    using read [OF that] q by (simp add: cli_main_def cli_compile_def cli_print_def)
  with bytes(2) show ?thesis by blast
qed

theorem generated_programs_compile_witness:
  "\<exists>p. cli_generate (demo_console p) [] [] = (Ok (), [1]) \<and>
     (\<forall>h handler. fst (cli_main (demo_console p) h handler [''compile''] [1]) = Ok 0)"
proof -
  obtain p where p: "\<And>q. cli_generate (demo_console q) [] [] =
      (if q = p then (Ok (), [1]) else (Err ''too large'', []))" using demo_console_generates by blast
  have undo: "cn_to_allocvec (demo_console p) q = Inr bytes \<Longrightarrow> cn_from_bytes (demo_console p) bytes = Inr q"
    for q bytes by (simp split: if_splits)
  have gen: "cli_generate (demo_console p) [] [] = (Ok (), [1])" using p by simp
  have "fst (cli_main (demo_console p) h handler [''compile''] [1]) = Ok 0" for h handler
    using generated_programs_compile [of "demo_console p", OF _ _ undo gen, of h handler]
    by (simp add: counting_rng_ok tiny_codec_ok)
  with gen show ?thesis by blast
qed

text \<open>\<open>generate\<close> panics exactly when it is asked for a program for no roles: the role it talks to is
  the remainder of the seed by their number.\<close>

theorem generate_panics_iff:
  assumes "rng_ok (cn_rng cn)"
  shows "fst (cli_generate cn args w) = Panic \<longleftrightarrow>
    (\<exists>sd. arg_or 0 (get args 0) = Ok sd) \<and> arg_or 3 (get args 1) = Ok 0"
proof (rule cli_generate_cases [OF assms, of args w])
  fix e assume e: "cli_generate cn args w = (Err e, w)"
  have False if "arg_or 0 (get args 0) = Ok sd" "arg_or 3 (get args 1) = Ok 0" for sd
    using e that by (simp add: cli_generate_def generate_program_def)
  with e show ?thesis by auto
next
  fix sd roles p
  assume "arg_or 3 (get args 1) = Ok roles" "0 < roles" "cli_generate cn args w = write_program cn p w"
  then show ?thesis by (auto simp: write_program_def split: sum.split prod.split)
qed auto

theorem generate_panics_iff_witness:
  "\<exists>p. fst (cli_generate (demo_console p) [''7'', ''0''] []) = Panic"
proof -
  have "decimal 7 = ''7''" "decimal 0 = ''0''" by code_simp+
  with parse_decimal [of u64_max 7] parse_decimal [of u64_max 0]
  have "parse_unsigned u64_max ''7'' = Ok 7" "parse_unsigned u64_max ''0'' = Ok 0"
    by (simp_all add: u64_max_def)
  then have "(\<exists>sd. arg_or 0 (get [''7'', ''0''] 0) = Ok sd) \<and> arg_or 3 (get [''7'', ''0''] 1) = Ok 0"
    by (simp add: arg_or_def get_def)
  moreover have "rng_ok (cn_rng (demo_console undefined))" by (simp add: counting_rng_ok)
  note generate_panics_iff [OF this, of "[''7'', ''0'']" "[]"]
  ultimately have "fst (cli_generate (demo_console undefined) [''7'', ''0''] []) = Panic" by simp
  then show ?thesis by (rule exI)
qed

text \<open>The arguments of \<open>init\<close> are accepted exactly when they are pairs of a known key and a value,
  a number for the memory, that give every directory and binary asked for; each field is then the
  last value given for it, and the crash handler and the memory have defaults.\<close>

theorem init_args_exact:
  "parse_init_args handler args = Ok a \<longleftrightarrow>
     readable args \<and>
     last_given ''--sharedir'' args = Some (ia_sharedir a) \<and>
     last_given ''--scenario'' args = Some (ia_scenario a) \<and>
     last_given ''--pool'' args = Some (ia_pool a) \<and>
     last_given ''--template-provider'' args = Some (ia_template_provider a) \<and>
     last_given ''--nyx-dir'' args = Some (ia_nyx_dir a) \<and>
     given_or (last_given ''--crash-handler'' args) (Some handler) = Some (ia_crash_handler a) \<and>
     memory_given (last_given ''--memory'' args) 4096 (ia_memory a)"
proof (cases "readable args")
  case False
  then have "set_options args (no_options handler) \<noteq> Ok o2" for o2
    using set_options_readable by blast
  with False show ?thesis by (auto simp: parse_init_args_def)
next
  case True
  then obtain o2 where o2: "set_options args (no_options handler) = Ok o2" using set_options_readable by blast
  note after = set_options_after [OF this, unfolded options_after_def no_options_def, simplified]
  have "memory_given (last_given ''--memory'' args) 4096 (ia_memory a) \<longleftrightarrow> ia_memory a = io_memory o2"
    using after by (intro memory_given_det) simp
  with True after show ?thesis
    by (cases a) (auto simp: parse_init_args_def o2 required_Ok)
qed

end
