(* ===== verification/Campaign_Options.thy ===== *)
theory Campaign_Options
  imports Paths Numbers Rng
begin

text \<open>
  What the command line of the fuzzer says (\<open>options.rs\<close> of \<open>stratamoto-libafl\<close>) and what
  \<open>Instance::run\<close> (\<open>instance.rs\<close>) makes of it before the campaign starts: the settings of the
  virtual machine, and how often each mutation is tried. Weights are \<open>f32\<close>s that hold whole
  numbers, so they and their sum are exact; their quotients are exact here and rounded in the code.
  Parsing the command line is the clap library's.
\<close>

section \<open>The options\<close>

record fuzzer_options =
  op_input :: string
  op_output :: string
  op_share :: string
  op_buffer_size :: nat
  op_log :: "string option"
  op_timeout :: u32
  op_ignore_hangs :: bool
  op_hang_multiple :: u32
  op_launch_delay :: nat
  op_port :: u16
  op_cores :: "nat list"
  op_static_corpus :: bool
  op_prune_disabled :: bool
  op_corpus_cache :: nat
  op_verbose :: bool
  op_tui :: bool
  op_iterations :: "nat option"
  op_rerun_input :: "string option"
  op_minimize_input :: "string option"
  op_mutators :: "string list option"
  op_swarm :: rat
  op_swarm_seed :: nat
  op_roles :: nat

text \<open>The defaults, for the directories that must be given, the cores of the machine, and the
  time.\<close>

definition default_options :: "string \<Rightarrow> string \<Rightarrow> string \<Rightarrow> nat list \<Rightarrow> nat \<Rightarrow> fuzzer_options" where
  "default_options input output share cores unix_time =
     \<lparr>op_input = input, op_output = output, op_share = share, op_buffer_size = 8388608,
      op_log = None, op_timeout = 1000, op_ignore_hangs = False, op_hang_multiple = 5,
      op_launch_delay = 1000, op_port = 1337, op_cores = cores, op_static_corpus = False,
      op_prune_disabled = False, op_corpus_cache = 100, op_verbose = False, op_tui = False,
      op_iterations = None, op_rerun_input = None, op_minimize_input = None, op_mutators = None,
      op_swarm = 1, op_swarm_seed = unix_time, op_roles = 1\<rparr>"

text \<open>The value parser of \<open>--swarm\<close>; \<open>parse_f64\<close> yields nothing for what is no finite number.\<close>

definition swarm_value :: "(string \<Rightarrow> rat option) \<Rightarrow> string \<Rightarrow> string + rat" where
  "swarm_value parse_f64 v =
     (case parse_f64 v of
        None \<Rightarrow> Inl ''swarm must be a number between 0.0 and 1.0''
      | Some p \<Rightarrow>
          if 0 \<le> p \<and> p \<le> 1 then Inr p else Inl ''swarm must be a number between 0.0 and 1.0'')"

section \<open>Directories\<close>

text \<open>\<open>{:03}\<close>.\<close>

definition decimal3 :: "nat \<Rightarrow> string" where
  "decimal3 n = replicate (3 - length (decimal n)) (CHR 0x30) @ decimal n"

definition output_dir :: "fuzzer_options \<Rightarrow> nat \<Rightarrow> string" where
  "output_dir o' core_id = path_join (op_output o') (''cpu_'' @ decimal3 core_id)"

definition queue_dir :: "fuzzer_options \<Rightarrow> nat \<Rightarrow> string" where
  "queue_dir o' core_id = path_join (output_dir o' core_id) ''queue''"

definition work_dir :: "fuzzer_options \<Rightarrow> string" where
  "work_dir o' = path_join (op_output o') ''workdir''"

definition crashes_dir :: "fuzzer_options \<Rightarrow> nat \<Rightarrow> string" where
  "crashes_dir o' core_id = path_join (output_dir o' core_id) ''crashes''"

section \<open>The settings of the virtual machine\<close>

record nyx_settings =
  ns_cpu_id :: nat
  ns_parent_cpu_id :: nat
  ns_input_buffer_size :: nat
  ns_aux_buffer_size :: nat
  ns_timeout_secs :: u8
  ns_timeout_micro_secs :: u32
  ns_workdir_path :: string

definition aux_buffer_size :: nat where "aux_buffer_size = 0x20000"

text \<open>Without a core the client panics; a timeout whose seconds do not fit a byte is an error, whose
  text is the standard library's.\<close>

definition nyx_settings_of :: "fuzzer_options \<Rightarrow> nat \<Rightarrow> (string, nyx_settings) outcome" where
  "nyx_settings_of o' core_id =
     (case op_cores o' of
        [] \<Rightarrow> Panic
      | parent # _ \<Rightarrow>
          let ms = unat (op_timeout o') in
          if 256 \<le> ms div 1000 then Err ''out of range integral type conversion attempted''
          else Ok \<lparr>ns_cpu_id = core_id, ns_parent_cpu_id = parent,
                   ns_input_buffer_size = op_buffer_size o', ns_aux_buffer_size = aux_buffer_size,
                   ns_timeout_secs = of_nat (ms div 1000),
                   ns_timeout_micro_secs = of_nat (ms mod 1000 * 1000), ns_workdir_path = work_dir o'\<rparr>)"

section \<open>How often a mutation is tried\<close>

definition mutator_weight ::
  "'r rng_ops \<Rightarrow> fuzzer_options \<Rightarrow> string \<Rightarrow> nat \<Rightarrow> 'r \<Rightarrow> nat \<times> 'r" where
  "mutator_weight g o' name weight r =
     (let base_weight =
        (case op_mutators o' of
           Some list \<Rightarrow> if name \<notin> set list then 0 else weight
         | None \<Rightarrow> weight)
      in if op_swarm o' < 1 \<and> 0 < base_weight then
           (let (on, r1) = random_bool g (op_swarm o') r in (if on then base_weight else 0, r1))
         else (base_weight, r))"

text \<open>The mutations of the campaign, by name.\<close>

definition mutation_weights :: "(string \<times> nat) list" where
  "mutation_weights =
     [(''InputMutator'', 2000), (''OperationMutator'', 1000), (''ConcatMutator'', 100),
      (''SetupConnectionGenerator'', 200), (''AdversarialSetupGenerator'', 200),
      (''RawFrameGenerator'', 100)]"

fun weighted_mutations ::
  "'r rng_ops \<Rightarrow> fuzzer_options \<Rightarrow> (string \<times> nat) list \<Rightarrow> 'r \<Rightarrow> nat list \<times> 'r" where
  "weighted_mutations g o' [] r = ([], r)"
| "weighted_mutations g o' ((name, weight) # rest) r =
     (let (w, r1) = mutator_weight g o' name weight r; (ws, r2) = weighted_mutations g o' rest r1
      in (w # ws, r2))"

text \<open>A quotient of \<open>f32\<close>s; nothing stands for what is not a number.\<close>

definition f32_share :: "nat \<Rightarrow> nat \<Rightarrow> rat option" where
  "f32_share whole w = (if whole = 0 then None else Some (of_nat w / of_nat whole))"

definition mutation_probabilities :: "nat list \<Rightarrow> rat option list" where
  "mutation_probabilities ws = map (f32_share (sum_list ws)) ws"

text \<open>The weights by name, as they are written to \<open>config.json\<close>.\<close>

definition logged_weights :: "nat list \<Rightarrow> (string \<rightharpoonup> nat)" where
  "logged_weights ws = map_of (rev (zip (map fst mutation_weights) ws))"

section \<open>Facts\<close>

lemma mutator_weight_cases:
  "fst (mutator_weight g o' name weight r) \<in> {0, weight}"
  by (simp add: mutator_weight_def Let_def case_prod_beta split: option.split)

lemma mutator_weight_listed:
  "0 < fst (mutator_weight g o' name weight r) \<Longrightarrow> op_mutators o' = Some list \<Longrightarrow> name \<in> set list"
  by (auto simp: mutator_weight_def Let_def case_prod_beta split: if_splits)

lemma mutator_weight_all: "1 \<le> op_swarm o' \<Longrightarrow>
  mutator_weight g o' name weight r =
    (if \<exists>list. op_mutators o' = Some list \<and> name \<notin> set list then 0 else weight, r)"
  by (auto simp: mutator_weight_def Let_def split: option.split)

lemma weighted_length: "length (fst (weighted_mutations g o' ms r)) = length ms"
proof (induction ms arbitrary: r)
  case (Cons m ms)
  then show ?case by (cases m) (simp add: case_prod_beta Let_def)
qed simp

lemma weighted_each:
  "k < length ms \<Longrightarrow> \<exists>r1. fst (weighted_mutations g o' ms r) ! k = fst (mutator_weight g o' (fst (ms ! k)) (snd (ms ! k)) r1)"
proof (induction g o' ms r arbitrary: k rule: weighted_mutations.induct)
  case (2 g o' name weight rest r)
  obtain w r1 ws r2 where w: "mutator_weight g o' name weight r = (w, r1)"
    "weighted_mutations g o' rest r1 = (ws, r2)" by fastforce
  show ?case
  proof (cases k)
    case 0
    with w show ?thesis by (auto intro!: exI [of _ r])
  next
    case (Suc j)
    with "2.IH" [OF w(1) [symmetric] refl, of j] "2.prems" w show ?thesis by simp
  qed
qed simp

lemma sum_shares:
  "0 < whole \<Longrightarrow> sum_list (map (\<lambda>w. of_nat w / of_nat whole :: rat) ws) = of_nat (sum_list ws) / of_nat whole"
  by (induction ws) (simp_all add: add_divide_distrib)

lemma decimal3_inject: "decimal3 m = decimal3 n \<longleftrightarrow> m = n"
proof
  assume eq: "decimal3 m = decimal3 n"
  have reads: "parse_digits (max m n) 0 (decimal3 m) = Ok m" "parse_digits (max m n) 0 (decimal3 n) = Ok n"
    by (simp_all add: decimal3_def parse_digits_zeros parse_digits_decimal)
  from reads(1) [unfolded eq] reads(2) show "m = n" by simp
qed simp

lemma path_join_inject:
  "\<not> starts_with ''/'' b \<Longrightarrow> \<not> starts_with ''/'' c \<Longrightarrow> path_join a b = path_join a c \<longleftrightarrow> b = c"
  by (auto simp: path_join_def)

lemma path_join_last:
  "\<not> starts_with ''/'' b \<Longrightarrow> b \<noteq> [] \<Longrightarrow> \<exists>pre. path_join a b = pre @ b"
  by (auto simp: path_join_def)

lemma output_dir_inject: "output_dir o' c = output_dir o' d \<longleftrightarrow> c = d"
  by (simp add: output_dir_def path_join_inject starts_with_def decimal3_inject)

lemma output_dir_last: "output_dir o' x \<noteq> []" "last (output_dir o' x) \<noteq> CHR 0x2F"
proof -
  have digit: "last (decimal x) \<noteq> CHR 0x2F"
  proof
    assume "last (decimal x) = CHR 0x2F"
    then have "CHR 0x2F \<in> set (decimal x)" by (metis decimal_not_Nil last_in_set)
    moreover have "digit_of (CHR 0x2F) = None" by code_simp
    ultimately show False using decimal_digits by blast
  qed
  have "\<not> starts_with ''/'' (''cpu_'' @ decimal3 x)" by (simp add: starts_with_def)
  from path_join_last [OF this, of "op_output o'"] obtain pre where "output_dir o' x = pre @ ''cpu_'' @ decimal3 x"
    by (auto simp: output_dir_def)
  then have "output_dir o' x = (pre @ ''cpu_'' @ replicate (3 - length (decimal x)) (CHR 0x30)) @ decimal x"
    by (simp add: decimal3_def)
  with digit show "output_dir o' x \<noteq> []" "last (output_dir o' x) \<noteq> CHR 0x2F" by simp_all
qed

section \<open>Properties\<close>

text \<open>No two clients share a directory: the queues and the findings of the cores are apart from each
  other, and from the directory of the virtual machines.\<close>

theorem client_directories_distinct:
  "(queue_dir o' c = queue_dir o' d \<longleftrightarrow> c = d) \<and> (crashes_dir o' c = crashes_dir o' d \<longleftrightarrow> c = d) \<and>
   queue_dir o' c \<noteq> crashes_dir o' d \<and> work_dir o' \<notin> {queue_dir o' c, crashes_dir o' d}"
proof -
  have dirs: "queue_dir o' x = output_dir o' x @ ''/queue''" "crashes_dir o' x = output_dir o' x @ ''/crashes''" for x
    using output_dir_last [of o' x] by (simp_all add: queue_dir_def crashes_dir_def path_join_def starts_with_def)
  have q: "last (queue_dir o' x) = CHR ''e''" and s: "last (crashes_dir o' x) = CHR ''s''" for x
    by (simp_all add: dirs)
  have r: "last (work_dir o') = CHR ''r''" by (simp add: work_dir_def path_join_def starts_with_def)
  have apart: "last a \<noteq> last b \<Longrightarrow> a \<noteq> b" for a b :: string by auto
  have "queue_dir o' c \<noteq> crashes_dir o' d" "work_dir o' \<noteq> queue_dir o' c" "work_dir o' \<noteq> crashes_dir o' d"
    by (rule apart, simp add: q s r)+
  then show ?thesis by (simp add: dirs output_dir_inject)
qed

text \<open>C37: A client has settings exactly when there is a core and the timeout is below 256 seconds, and the
  seconds and microseconds handed to the virtual machine then make up the timeout.\<close>

theorem vm_timeout_exact:
  "case nyx_settings_of o' c of
     Ok s \<Rightarrow> op_cores o' \<noteq> [] \<and> unat (op_timeout o') < 256000 \<and>
       1000000 * unat (ns_timeout_secs s) + unat (ns_timeout_micro_secs s) = 1000 * unat (op_timeout o') \<and>
       unat (ns_timeout_micro_secs s) < 1000000
   | Err e \<Rightarrow> op_cores o' \<noteq> [] \<and> 256000 \<le> unat (op_timeout o')
   | Panic \<Rightarrow> op_cores o' = []"
proof -
  let ?ms = "unat (op_timeout o')"
  have "?ms mod 1000 < 1000" by simp
  then have small: "?ms mod 1000 * 1000 < 1000000" by simp
  then have micros: "unat (of_nat (?ms mod 1000 * 1000) :: u32) = ?ms mod 1000 * 1000"
    by (simp only: unat_of_nat) simp
  have secs: "unat (of_nat (?ms div 1000) :: u8) = ?ms div 1000" if "?ms div 1000 < 256"
    using that by (simp only: unat_of_nat) simp
  have sum: "1000000 * (?ms div 1000) + ?ms mod 1000 * 1000 = 1000 * ?ms"
    using div_mult_mod_eq [of ?ms 1000] by linarith
  show ?thesis
  proof (cases "op_cores o'")
    case (Cons parent cs)
    then show ?thesis using secs micros sum small
      by (cases "?ms div 1000 < 256") (auto simp: nyx_settings_of_def Let_def)
  qed (simp add: nyx_settings_of_def)
qed

text \<open>A mutation is tried only if its name is listed, or no list is given. If one is left, the
  probabilities are a distribution; if none is, as with a list of unknown names, every one of them is
  zero divided by zero.\<close>

theorem mutation_probabilities_exact:
  "let ws = fst (weighted_mutations g o' mutation_weights r) in
   (\<forall>k < 6. 0 < ws ! k \<longrightarrow> (case op_mutators o' of None \<Rightarrow> True | Some list \<Rightarrow> fst (mutation_weights ! k) \<in> set list)) \<and>
   (if \<exists>w \<in> set ws. 0 < w
    then \<exists>ps. mutation_probabilities ws = map Some ps \<and> sum_list ps = 1 \<and> (\<forall>p \<in> set ps. 0 \<le> p \<and> p \<le> 1)
    else mutation_probabilities ws = replicate 6 None)"
proof -
  define ws where "ws = fst (weighted_mutations g o' mutation_weights r)"
  have six: "length mutation_weights = 6" by (simp add: mutation_weights_def)
  then have len: "length ws = 6" by (simp add: ws_def weighted_length)
  have listed: "fst (mutation_weights ! k) \<in> set list" if k: "k < 6" "0 < ws ! k" "op_mutators o' = Some list" for k list
    using weighted_each [of k mutation_weights g o' r] k six mutator_weight_listed [OF _ k(3)]
    unfolding ws_def by metis
  show ?thesis
  proof (cases "\<exists>w \<in> set ws. 0 < w")
    case True
    then obtain w where "w \<in> set ws" "0 < w" by blast
    with member_le_sum_list [of w ws] have pos: "0 < sum_list ws" by simp
    let ?ps = "map (\<lambda>w. of_nat w / of_nat (sum_list ws) :: rat) ws"
    have "mutation_probabilities ws = map Some ?ps" using pos by (simp del: sum_list_eq_0_iff add: mutation_probabilities_def f32_share_def)
    moreover have "sum_list ?ps = 1"
    proof -
      from pos have "(of_nat (sum_list ws) :: rat) \<noteq> 0" by (simp only: of_nat_eq_0_iff)
      then have "of_nat (sum_list ws) / of_nat (sum_list ws) = (1 :: rat)" by (rule divide_self)
      with sum_shares [OF pos, of ws] show ?thesis by (rule trans)
    qed
    moreover have "0 \<le> p \<and> p \<le> 1" if p: "p \<in> set ?ps" for p
    proof -
      from p obtain w where "w \<in> set ws" "p = of_nat w / of_nat (sum_list ws)" by auto
      with member_le_sum_list [of w ws] pos show ?thesis by (simp add: divide_le_eq_1)
    qed
    ultimately have "\<exists>ps. mutation_probabilities ws = map Some ps \<and> sum_list ps = 1 \<and> (\<forall>p \<in> set ps. 0 \<le> p \<and> p \<le> 1)"
      by blast
    with True listed show ?thesis unfolding Let_def ws_def [symmetric] if_P [OF True]
      by (intro conjI) (auto split: option.split)
  next
    case False
    then have "sum_list ws = 0" by simp
    then have "f32_share (sum_list ws) = (\<lambda>_. None)" by (intro ext) (simp only: f32_share_def simp_thms if_True)
    then have "mutation_probabilities ws = replicate 6 None"
      by (simp only: mutation_probabilities_def map_replicate_const len)
    with False listed show ?thesis unfolding Let_def ws_def [symmetric] if_not_P [OF False]
      by (intro conjI) (auto split: option.split)
  qed
qed

theorem mutation_probabilities_exact_witness:
  "mutation_probabilities (fst (weighted_mutations counting_rng
     ((default_options ''in'' ''out'' ''share'' [0] 7)\<lparr>op_mutators := Some [''Typo'']\<rparr>) mutation_weights 7)) =
   replicate 6 None"
proof -
  let ?ws = "fst (weighted_mutations counting_rng
     ((default_options ''in'' ''out'' ''share'' [0] 7)\<lparr>op_mutators := Some [''Typo'']\<rparr>) mutation_weights 7)"
  have "?ws = replicate 6 0" by (simp add: mutation_weights_def mutator_weight_def Let_def numeral_eq_Suc)
  with mutation_probabilities_exact [of counting_rng
      "(default_options ''in'' ''out'' ''share'' [0] 7)\<lparr>op_mutators := Some [''Typo'']\<rparr>" 7]
  show ?thesis by (auto simp: Let_def split: if_splits)
qed

end
