(* ===== verification/Campaign_Setup.thy ===== *)
theory Campaign_Setup
  imports Campaign_Options Scenario
begin

text \<open>
  How a campaign starts and runs (\<open>instance.rs\<close>, \<open>input.rs\<close>, \<open>schedulers.rs\<close>, \<open>client.rs\<close> and
  \<open>fuzzer.rs\<close> of \<open>stratamoto-libafl\<close>): the context programs are written in, the first input, an
  input's bytes, the scheduler, and the choice of what to run. What libafl does, the files and the
  encoding are parameters over a state \<open>'s\<close>.
\<close>

section \<open>The context and the first input\<close>

record 's campaign_host =
  ch_read :: "string \<Rightarrow> 's \<Rightarrow> string + u8 list"
  ch_write :: "string \<Rightarrow> u8 list \<Rightarrow> 's \<Rightarrow> (string + unit) \<times> 's"
  ch_entries :: "string \<Rightarrow> 's \<Rightarrow> string + string list"
  ch_context_from_bytes :: "u8 list \<Rightarrow> string + program_context"
  ch_program_from_bytes :: "u8 list \<Rightarrow> string + program"
  ch_to_allocvec :: "program \<Rightarrow> string + u8 list"

definition context_dump :: string where "context_dump = ''ir.context''"

definition context_path :: "fuzzer_options \<Rightarrow> string" where
  "context_path o' = path_join (path_join (work_dir o') ''dump'') context_dump"

definition campaign_context :: "'s campaign_host \<Rightarrow> fuzzer_options \<Rightarrow> 's \<Rightarrow> program_context" where
  "campaign_context h o' s =
     (let said = \<lparr>num_roles = op_roles o', num_connections = 0, seed = 0\<rparr> in
      case ch_read h (context_path o') s of
        Inl e \<Rightarrow> said
      | Inr bytes \<Rightarrow> (case ch_context_from_bytes h bytes of Inl e \<Rightarrow> said | Inr ctx \<Rightarrow> ctx))"

text \<open>An empty input directory gets an empty program; the unwraps panic.\<close>

definition seed_input_dir ::
  "'s campaign_host \<Rightarrow> fuzzer_options \<Rightarrow> program_context \<Rightarrow> 's \<Rightarrow> (string, unit) outcome \<times> 's" where
  "seed_input_dir h o' ctx s =
     (case ch_entries h (op_input o') s of
        Inl e \<Rightarrow> (Panic, s)
      | Inr (x # xs) \<Rightarrow> (Ok (), s)
      | Inr [] \<Rightarrow>
          (case ch_to_allocvec h (unchecked_new ctx []) of
             Inl e \<Rightarrow> (Panic, s)
           | Inr bytes \<Rightarrow>
               (case ch_write h (path_join (op_input o') ''initial_input'') bytes s of
                  (Inl e, s1) \<Rightarrow> (Panic, s1)
                | (Inr _, s1) \<Rightarrow> (Ok (), s1))))"

section \<open>Inputs\<close>

definition max_input_bytes :: nat where "max_input_bytes = 1024 * 1024"

definition unparse :: "'s campaign_host \<Rightarrow> string \<Rightarrow> 's \<Rightarrow> string + program" where
  "unparse h path s =
     (case ch_read h path s of
        Inl e \<Rightarrow> Inl (path @ '': '' @ e)
      | Inr bytes \<Rightarrow>
          (case ch_program_from_bytes h bytes of Inl e \<Rightarrow> Inl (path @ '': '' @ e) | Inr p \<Rightarrow> Inr p))"

definition input_len :: "program \<Rightarrow> nat" where "input_len p = length (instructions p)"

definition target_bytes :: "'s campaign_host \<Rightarrow> program \<Rightarrow> (unit, u8 list) outcome" where
  "target_bytes h p =
     (case ch_to_allocvec h p of
        Inl e \<Rightarrow> Panic
      | Inr bytes \<Rightarrow> Ok (if length bytes > max_input_bytes then [] else bytes))"

section \<open>The scheduler\<close>

record 's scheduler_ops =
  so_on_remove :: "nat \<Rightarrow> 's \<Rightarrow> (string + unit) \<times> 's"
  so_on_replace :: "nat \<Rightarrow> 's \<Rightarrow> (string + unit) \<times> 's"
  so_on_add :: "nat \<Rightarrow> 's \<Rightarrow> (string + unit) \<times> 's"
  so_next :: "'s \<Rightarrow> (string + nat) \<times> 's"
  so_on_evaluation :: "program \<Rightarrow> 's \<Rightarrow> (string + unit) \<times> 's"
  so_set_current :: "nat option \<Rightarrow> 's \<Rightarrow> (string + unit) \<times> 's"
  so_queue_cycles :: "'s \<Rightarrow> nat"

datatype 's supported_scheduler = Queue "'s scheduler_ops" | LenTimeMinimizer "'s scheduler_ops"

text \<open>What the queue asks of the corpus: the current entry, and the depth kept with an entry.\<close>

record 's corpus_depths =
  cd_current :: "'s \<Rightarrow> nat option"
  cd_depth :: "nat \<Rightarrow> 's \<Rightarrow> string + nat"
  cd_set_depth :: "nat \<Rightarrow> nat \<Rightarrow> 's \<Rightarrow> (string + unit) \<times> 's"

fun inner_scheduler :: "'s supported_scheduler \<Rightarrow> 's scheduler_ops" where
  "inner_scheduler (Queue q) = q"
| "inner_scheduler (LenTimeMinimizer m) = m"

definition sch_on_remove where "sch_on_remove sch = so_on_remove (inner_scheduler sch)"
definition sch_on_replace where "sch_on_replace sch = so_on_replace (inner_scheduler sch)"
definition sch_next where "sch_next sch = so_next (inner_scheduler sch)"
definition sch_on_evaluation where "sch_on_evaluation sch = so_on_evaluation (inner_scheduler sch)"
definition sch_set_current where "sch_set_current sch = so_set_current (inner_scheduler sch)"
definition sch_queue_cycles where "sch_queue_cycles sch = so_queue_cycles (inner_scheduler sch)"

fun sch_on_add ::
  "'s corpus_depths \<Rightarrow> 's supported_scheduler \<Rightarrow> nat \<Rightarrow> 's \<Rightarrow> (string + unit) \<times> 's" where
  "sch_on_add cd (Queue q) n s =
     (case so_on_add q n s of
        (Inl e, s1) \<Rightarrow> (Inl e, s1)
      | (Inr _, s1) \<Rightarrow>
          (case (case cd_current cd s1 of Some parent \<Rightarrow> cd_depth cd parent s1 | None \<Rightarrow> Inr 0) of
             Inl e \<Rightarrow> (Inl e, s1)
           | Inr d \<Rightarrow> cd_set_depth cd n (d + 1) s1))"
| "sch_on_add cd (LenTimeMinimizer m) n s = so_on_add m n s"

definition pick_scheduler ::
  "'s scheduler_ops \<Rightarrow> 's scheduler_ops \<Rightarrow> fuzzer_options \<Rightarrow> 's supported_scheduler" where
  "pick_scheduler queue minimizer o' =
     (if op_minimize_input o' \<noteq> None then Queue queue else LenTimeMinimizer minimizer)"

section \<open>Fuzzing\<close>

record 's fuzz_ops =
  fo_new_helper :: "nyx_settings \<Rightarrow> 's \<Rightarrow> (string + unit) \<times> 's"
  fo_new_state :: "string \<Rightarrow> nat \<Rightarrow> string \<Rightarrow> 's \<Rightarrow> (string + unit) \<times> 's"
  fo_log_weights :: "string \<Rightarrow> (string \<rightharpoonup> nat) \<Rightarrow> 's \<Rightarrow> (string + unit) \<times> 's"
  fo_set_probabilities :: "rat option list \<Rightarrow> 's \<Rightarrow> (string + unit) \<times> 's"
  fo_must_load :: "'s \<Rightarrow> bool"
  fo_add :: "program \<Rightarrow> 's \<Rightarrow> (string + unit) \<times> 's"
  fo_load_forced :: "string list \<Rightarrow> 's \<Rightarrow> (string + unit) \<times> 's"
  fo_load :: "string list \<Rightarrow> 's \<Rightarrow> (string + unit) \<times> 's"
  fo_count :: "'s \<Rightarrow> nat"
  fo_count_disabled :: "'s \<Rightarrow> nat"
  fo_nth_from_all :: "nat \<Rightarrow> 's \<Rightarrow> nat"
  fo_remove :: "nat \<Rightarrow> 's \<Rightarrow> 's"
  fo_fuzz_one :: "'s \<Rightarrow> (string + unit) \<times> 's"
  fo_fuzz_loop_for :: "nat \<Rightarrow> 's \<Rightarrow> (string + unit) \<times> 's"
  fo_on_restart :: "'s \<Rightarrow> (string + unit) \<times> 's"
  fo_fuzz_loop :: "'s \<Rightarrow> ((string + unit) \<times> 's) option"
  fo_run_target :: "program \<Rightarrow> 's \<Rightarrow> (string + unit) \<times> 's"

text \<open>How the client's function ends: it returns, fails, panics, or ends the process.\<close>

datatype ending = Returned | Failed string | Panicked | Exited nat

definition prune_disabled :: "'s fuzz_ops \<Rightarrow> 's \<Rightarrow> 's" where
  "prune_disabled f s =
     (let ids = map (\<lambda>idx. fo_nth_from_all f (idx + fo_count f s) s) [0..<fo_count_disabled f s]
      in fold (fo_remove f) ids s)"

text \<open>Loading the first inputs; a failure ends the function.\<close>

definition load_inputs ::
  "'s campaign_host \<Rightarrow> 's fuzz_ops \<Rightarrow> fuzzer_options \<Rightarrow> 's \<Rightarrow> ending option \<times> 's" where
  "load_inputs h f o' s =
     (case op_minimize_input o' of
        Some path \<Rightarrow>
          (case unparse h path s of
             Inl e \<Rightarrow> (Some (Failed e), s)
           | Inr p \<Rightarrow> (case fo_add f p s of (Inl e, s1) \<Rightarrow> (Some Panicked, s1) | (Inr _, s1) \<Rightarrow> (None, s1)))
      | None \<Rightarrow>
          (case (if op_static_corpus o' then fo_load_forced f [op_input o'] s else fo_load f [op_input o'] s) of
             (Inl e, s1) \<Rightarrow> (Some (Exited 0), s1)
           | (Inr _, s1) \<Rightarrow> (None, s1)))"

fun returned :: "(string + unit) \<times> 's \<Rightarrow> ending \<times> 's" where
  "returned (Inl e, s) = (Failed e, s)"
| "returned (Inr _, s) = (Returned, s)"

definition fuzz_corpus :: "'s fuzz_ops \<Rightarrow> fuzzer_options \<Rightarrow> 's \<Rightarrow> (ending \<times> 's) option" where
  "fuzz_corpus f o' s =
     (if op_minimize_input o' \<noteq> None then Some (returned (fo_fuzz_one f s))
      else case op_iterations o' of
        Some iters \<Rightarrow>
          (case fo_fuzz_loop_for f iters s of
             (Inl e, s1) \<Rightarrow> Some (Failed e, s1)
           | (Inr _, s1) \<Rightarrow> Some (returned (fo_on_restart f s1)))
      | None \<Rightarrow> (case fo_fuzz_loop f s of None \<Rightarrow> None | Some r \<Rightarrow> Some (returned r)))"

definition fuzz_campaign ::
  "'s campaign_host \<Rightarrow> 's fuzz_ops \<Rightarrow> fuzzer_options \<Rightarrow> 's \<Rightarrow> (ending \<times> 's) option" where
  "fuzz_campaign h f o' s =
     (if fo_must_load f s then
        (case load_inputs h f o' s of
           (Some e, s1) \<Rightarrow> Some (e, s1)
         | (None, s1) \<Rightarrow> fuzz_corpus f o' (if op_prune_disabled o' then prune_disabled f s1 else s1))
      else fuzz_corpus f o' s)"

text \<open>Running one input again, instead of fuzzing.\<close>

definition rerun :: "'s campaign_host \<Rightarrow> 's fuzz_ops \<Rightarrow> string \<Rightarrow> 's \<Rightarrow> ending \<times> 's" where
  "rerun h f path s =
     (case unparse h path s of
        Inl e \<Rightarrow> (Failed e, s)
      | Inr p \<Rightarrow>
          (case fo_run_target f p s of (Inl e, s1) \<Rightarrow> (Panicked, s1) | (Inr _, s1) \<Rightarrow> (Exited 0, s1)))"

text \<open>A step of the client: the function ends when it fails, or goes on.\<close>

definition ok_or ::
  "(string \<Rightarrow> ending) \<Rightarrow> (string + unit) \<times> 's \<Rightarrow> ('s \<Rightarrow> (ending \<times> 's) option) \<Rightarrow> (ending \<times> 's) option" where
  "ok_or g r f = (case r of (Inl e, s) \<Rightarrow> Some (g e, s) | (Inr _, s) \<Rightarrow> f s)"

text \<open>The mutations with their weights, which are logged and then set as probabilities.\<close>

definition start_mutations ::
  "'r rng_ops \<Rightarrow> (nat \<Rightarrow> 'r) \<Rightarrow> 's fuzz_ops \<Rightarrow> fuzzer_options \<Rightarrow> nat \<Rightarrow>
   ('s \<Rightarrow> (ending \<times> 's) option) \<Rightarrow> 's \<Rightarrow> (ending \<times> 's) option" where
  "start_mutations g seed_from f o' core_id go s =
     (let ws = fst (weighted_mutations g o' mutation_weights (seed_from (op_swarm_seed o'))) in
      ok_or Failed (fo_log_weights f (path_join (output_dir o' core_id) ''config.json'') (logged_weights ws) s)
        (\<lambda>s. ok_or (\<lambda>_. Panicked) (fo_set_probabilities f (mutation_probabilities ws) s) go))"

text \<open>\<open>Instance::run\<close>; a state handed over by a client before is kept.\<close>

definition client_run ::
  "'r rng_ops \<Rightarrow> (nat \<Rightarrow> 'r) \<Rightarrow> 's campaign_host \<Rightarrow> 's fuzz_ops \<Rightarrow> bool \<Rightarrow> fuzzer_options \<Rightarrow> nat \<Rightarrow> 's \<Rightarrow>
   (ending \<times> 's) option" where
  "client_run g seed_from h f has_state o' core_id s =
     (case nyx_settings_of o' core_id of
        Panic \<Rightarrow> Some (Panicked, s)
      | Err e \<Rightarrow> Some (Failed e, s)
      | Ok settings \<Rightarrow>
          ok_or Failed (fo_new_helper f settings s) (\<lambda>s.
          ok_or Failed (if has_state then (Inr (), s)
                        else fo_new_state f (queue_dir o' core_id) (op_corpus_cache o') (crashes_dir o' core_id) s) (\<lambda>s.
          case op_rerun_input o' of
            Some path \<Rightarrow> Some (rerun h f path s)
          | None \<Rightarrow>
              (case seed_input_dir h o' (campaign_context h o' s) s of
                 (Ok _, s1) \<Rightarrow> start_mutations g seed_from f o' core_id (fuzz_campaign h f o') s1
               | (Err e, s1) \<Rightarrow> Some (Failed e, s1)
               | (Panic, s1) \<Rightarrow> Some (Panicked, s1)))))"

text \<open>\<open>Fuzzer::launch\<close>: shared memory first, then the client itself or clients under the launcher, whose
  shutting down is no failure.\<close>

datatype launch_error = ShuttingDown | LaunchError string

definition launch_fuzzer ::
  "(string + unit) \<Rightarrow> (fuzzer_options \<Rightarrow> 's \<Rightarrow> ((launch_error + unit) \<times> 's) option) \<Rightarrow>
   (bool \<Rightarrow> fuzzer_options \<Rightarrow> nat \<Rightarrow> 's \<Rightarrow> (ending \<times> 's) option) \<Rightarrow> fuzzer_options \<Rightarrow> 's \<Rightarrow>
   (ending \<times> 's) option" where
  "launch_fuzzer shmem launcher client o' s =
     (case shmem of
        Inl e \<Rightarrow> Some (Failed e, s)
      | Inr _ \<Rightarrow>
          if op_rerun_input o' \<noteq> None \<or> op_minimize_input o' \<noteq> None then client False o' 0 s
          else case launcher o' s of
            None \<Rightarrow> None
          | Some (Inr _, s1) \<Rightarrow> Some (Returned, s1)
          | Some (Inl ShuttingDown, s1) \<Rightarrow> Some (Returned, s1)
          | Some (Inl (LaunchError e), s1) \<Rightarrow> Some (Failed e, s1))"

section \<open>What libafl and the encoding document\<close>

text \<open>Decoding undoes encoding, and nothing decodes to no program.\<close>

definition encoding_ok :: "'s campaign_host \<Rightarrow> bool" where
  "encoding_ok h \<longleftrightarrow>
     (\<forall>p bytes. ch_to_allocvec h p = Inr bytes \<longrightarrow> ch_program_from_bytes h bytes = Inr p) \<and>
     (\<exists>e. ch_program_from_bytes h [] = Inl e)"

text \<open>The corpus holds enabled and disabled entries under numbers, lists the disabled ones after
  the enabled, and removes one entry at a time.\<close>

definition corpus_ok :: "('s \<Rightarrow> nat list) \<Rightarrow> ('s \<Rightarrow> nat list) \<Rightarrow> 's fuzz_ops \<Rightarrow> bool" where
  "corpus_ok enabled disabled f \<longleftrightarrow>
     (\<forall>s. fo_count f s = length (enabled s) \<and> fo_count_disabled f s = length (disabled s)) \<and>
     (\<forall>s k. k < length (enabled s @ disabled s) \<longrightarrow> fo_nth_from_all f k s = (enabled s @ disabled s) ! k) \<and>
     (\<forall>n s. enabled (fo_remove f n s) = filter (\<lambda>m. m \<noteq> n) (enabled s) \<and>
            disabled (fo_remove f n s) = filter (\<lambda>m. m \<noteq> n) (disabled s))"

lemma fold_remove:
  assumes "corpus_ok enabled disabled f"
  shows "enabled (fold (fo_remove f) ns s) = filter (\<lambda>m. m \<notin> set ns) (enabled s) \<and>
    disabled (fold (fo_remove f) ns s) = filter (\<lambda>m. m \<notin> set ns) (disabled s)"
proof (induction ns arbitrary: s)
  case (Cons n ns)
  have "enabled (fo_remove f n s) = filter (\<lambda>m. m \<noteq> n) (enabled s)"
    "disabled (fo_remove f n s) = filter (\<lambda>m. m \<noteq> n) (disabled s)"
    using assms unfolding corpus_ok_def by blast+
  with Cons.IH [of "fo_remove f n s"] show ?case by (auto intro: filter_cong)
qed simp

section \<open>Examples\<close>

text \<open>An encoding that knows the empty program for the pool and takes one byte more than asked for, over a
  state that says whether the first input was written.\<close>

definition pool_program :: program where
  "pool_program = \<lparr>prog_context = \<lparr>num_roles = 1, num_connections = 0, seed = 0\<rparr>, instructions = []\<rparr>"

definition demo_campaign :: "nat \<Rightarrow> bool campaign_host" where
  "demo_campaign n =
     \<lparr>ch_read = (\<lambda>path s. Inr [9]), ch_write = (\<lambda>path bytes s. (Inr (), True)), ch_entries = (\<lambda>path s. Inr []),
      ch_context_from_bytes = (\<lambda>bytes. Inr (prog_context pool_program)),
      ch_program_from_bytes = (\<lambda>bytes. if bytes = replicate (Suc n) 0 then Inr pool_program else Inl ''end''),
      ch_to_allocvec = (\<lambda>p. if p = pool_program then Inr (replicate (Suc n) 0) else Inl ''unknown'')\<rparr>"

lemma demo_campaign_encodes: "encoding_ok (demo_campaign n)"
  "ch_to_allocvec (demo_campaign n) pool_program = Inr (replicate (Suc n) 0)"
  by (simp_all add: encoding_ok_def demo_campaign_def)

text \<open>A corpus as two lists.\<close>

definition demo_fuzz :: "(nat list \<times> nat list) fuzz_ops" where
  "demo_fuzz =
     \<lparr>fo_new_helper = (\<lambda>_ s. (Inr (), s)), fo_new_state = (\<lambda>_ _ _ s. (Inr (), s)),
      fo_log_weights = (\<lambda>_ _ s. (Inr (), s)), fo_set_probabilities = (\<lambda>_ s. (Inr (), s)),
      fo_must_load = (\<lambda>s. True), fo_add = (\<lambda>_ s. (Inr (), s)), fo_load_forced = (\<lambda>_ s. (Inr (), s)),
      fo_load = (\<lambda>_ s. (Inr (), s)), fo_count = (\<lambda>s. length (fst s)), fo_count_disabled = (\<lambda>s. length (snd s)),
      fo_nth_from_all = (\<lambda>k s. (fst s @ snd s) ! k),
      fo_remove = (\<lambda>n s. (filter (\<lambda>m. m \<noteq> n) (fst s), filter (\<lambda>m. m \<noteq> n) (snd s))),
      fo_fuzz_one = (\<lambda>s. (Inr (), s)), fo_fuzz_loop_for = (\<lambda>_ s. (Inr (), s)), fo_on_restart = (\<lambda>s. (Inr (), s)),
      fo_fuzz_loop = (\<lambda>s. None), fo_run_target = (\<lambda>_ s. (Inr (), s))\<rparr>"

section \<open>Properties\<close>

text \<open>What the virtual machine is handed never exceeds a mebibyte: a program whose encoding fits is what
  the scenario decodes, and a larger one reaches it as no bytes at all, which it skips.\<close>

theorem oversized_inputs_are_skipped:
  assumes "encoding_ok h" and "ch_to_allocvec h p = Inr bytes"
  shows "\<exists>tb. target_bytes h p = Ok tb \<and> length tb \<le> max_input_bytes \<and>
    (if length bytes \<le> max_input_bytes
     then decode_case (ch_program_from_bytes h) cd tb = from_program_case cd p
     else scenario_main render (Inr (d, w)) cd (ch_program_from_bytes h) tb = Some (Ok (ReportedSkip, 0)))"
proof -
  from assms obtain e where "ch_program_from_bytes h bytes = Inr p" "ch_program_from_bytes h [] = Inl e"
    unfolding encoding_ok_def by blast
  with assms(2) show ?thesis
    by (auto simp: target_bytes_def decode_case_def scenario_main_def max_input_bytes_def)
qed

theorem oversized_inputs_are_skipped_witness:
  "\<exists>tb. target_bytes (demo_campaign max_input_bytes) pool_program = Ok tb \<and>
     scenario_main (\<lambda>_. []) (Inr (mute_deployment, 0)) tiny_codec
       (ch_program_from_bytes (demo_campaign max_input_bytes)) tb = Some (Ok (ReportedSkip, 0))"
  using oversized_inputs_are_skipped [OF demo_campaign_encodes (1) demo_campaign_encodes (2),
      of max_input_bytes tiny_codec "\<lambda>_. []" mute_deployment 0]
  by auto

text \<open>Pruning removes every disabled entry and no other: the numbers are collected before the first is
  removed.\<close>

theorem pruning_drops_the_disabled:
  assumes "corpus_ok enabled disabled f" and "distinct (enabled s @ disabled s)"
  shows "disabled (prune_disabled f s) = [] \<and> enabled (prune_disabled f s) = enabled s"
proof -
  let ?all = "enabled s @ disabled s"
  let ?ids = "map (\<lambda>idx. fo_nth_from_all f (idx + fo_count f s) s) [0..<fo_count_disabled f s]"
  have counts: "fo_count f s = length (enabled s)" "fo_count_disabled f s = length (disabled s)"
    and nth: "k < length ?all \<Longrightarrow> fo_nth_from_all f k s = ?all ! k" for k
    using assms(1) unfolding corpus_ok_def by blast+
  have "?ids = disabled s"
    using nth counts by (intro nth_equalityI) (simp_all add: nth_append)
  with fold_remove [OF assms(1), of ?ids s] assms(2) show ?thesis
    by (auto simp: prune_disabled_def Let_def intro: filter_True)
qed

theorem pruning_drops_the_disabled_witness: "prune_disabled demo_fuzz ([4, 7], [2, 5, 3]) = ([4, 7], [])"
proof -
  have "corpus_ok fst snd demo_fuzz" by (simp add: corpus_ok_def demo_fuzz_def)
  from pruning_drops_the_disabled [OF this, of "([4, 7], [2, 5, 3])"] show ?thesis
    by (simp add: prod_eq_iff)
qed

text \<open>With the context the scenario dumped, the input a campaign over an empty directory grows from is a
  valid program the scenario does not skip.\<close>

theorem campaign_starts_runnable:
  assumes "encoding_ok h"
    and "ch_read h (context_path o') s = Inr dumped" and "ch_context_from_bytes h dumped = Inr (pool_context d)"
    and "ch_entries h (op_input o') s = Inr []"
    and "seed_input_dir h o' (campaign_context h o' s) s = (Ok (), s1)"
  shows "\<exists>bytes q. ch_write h (path_join (op_input o') ''initial_input'') bytes s = (Inr (), s1) \<and>
    decode_case (ch_program_from_bytes h) cd bytes = Ok q \<and>
    num_roles (comp_context q) \<le> dep_num_roles d"
proof -
  let ?p = "unchecked_new (pool_context d) []"
  from assms(2-5) obtain bytes where bytes: "ch_to_allocvec h ?p = Inr bytes"
    "ch_write h (path_join (op_input o') ''initial_input'') bytes s = (Inr (), s1)"
    by (auto simp: seed_input_dir_def campaign_context_def split: sum.splits prod.splits)
  have p: "prog_context ?p = pool_context d" "instructions ?p = []" by (simp_all add: unchecked_new_def)
  have "wt_program (prog_context ?p) (instructions ?p)"
    by (auto simp: p wt_program_def init_typing_def intro: wt_nil)
  moreover have "compile cd ?p = Ok \<lparr>comp_context = pool_context d,
      comp_actions = actions (start_compiler (pool_context d)),
      comp_metadata = metadata (start_compiler (pool_context d))\<rparr>"
    by (simp add: compile_def p)
  ultimately have "from_program_case cd ?p = Ok \<lparr>comp_context = pool_context d,
      comp_actions = actions (start_compiler (pool_context d)),
      comp_metadata = metadata (start_compiler (pool_context d))\<rparr>"
    by (simp add: from_program_case_Ok)
  moreover from assms(1) bytes(1) have "ch_program_from_bytes h bytes = Inr ?p" by (simp add: encoding_ok_def)
  ultimately show ?thesis using bytes(2)
    by (intro exI [of _ bytes] exI [where x = "\<lparr>comp_context = pool_context d,
        comp_actions = actions (start_compiler (pool_context d)),
        comp_metadata = metadata (start_compiler (pool_context d))\<rparr>"]) (simp add: decode_case_def pool_context_def)
qed

theorem campaign_starts_runnable_witness:
  "\<exists>bytes q. decode_case (ch_program_from_bytes (demo_campaign 0)) tiny_codec bytes = Ok q \<and>
     num_roles (comp_context q) \<le> dep_num_roles mute_deployment"
proof -
  let ?o = "default_options ''in'' ''out'' ''share'' [0] 0"
  have ctx: "prog_context pool_program = pool_context mute_deployment"
    by (simp add: pool_program_def pool_context_def mute_deployment_def queue_deployment_def)
  have "seed_input_dir (demo_campaign 0) ?o (campaign_context (demo_campaign 0) ?o False) False = (Ok (), True)"
    by (simp add: seed_input_dir_def campaign_context_def demo_campaign_def unchecked_new_def pool_program_def)
  from campaign_starts_runnable [OF demo_campaign_encodes(1) _ _ _ this, of "[9]" mute_deployment tiny_codec] ctx
  show ?thesis by (auto simp: demo_campaign_def)
qed

end
