(* ===== verification/Campaign.thy ===== *)
theory Campaign
  imports Campaign_Setup Ir_Mutators Minimizing
begin

text \<open>
  A whole campaign: the programs that occur when \<open>Instance::run\<close> starts from the empty program and
  its stages (the mutators, the splice, the generators, the minimizers) are run in any order, with
  any draws and on any of the programs so far; what libafl keeps of them is among these. Whatever
  they are, no stage panics on them, and the scenario decides every one.
\<close>

section \<open>The programs of a campaign\<close>

text \<open>A corpus whose loaded entries are among some programs.\<close>

definition loaded_from :: "program set \<Rightarrow> corpus \<Rightarrow> bool" where
  "loaded_from C c \<longleftrightarrow> (\<forall>e \<in> ran (corpus_entries c). \<forall>p. entry_input e = Some p \<longrightarrow> p \<in> C)"

definition campaign_generators :: "'r rng_ops \<Rightarrow> nat \<Rightarrow> ('r, unit) gen set" where
  "campaign_generators g n = {any_role_setup g n, any_role_adversarial_setup g n, any_role_raw_frame g n}"

text \<open>What a stage makes of the programs so far.\<close>

inductive stage_output :: "'r rng_ops \<Rightarrow> 'x evaluator \<Rightarrow> program set \<Rightarrow> program \<Rightarrow> bool"
  for g ev C where
  by_input: "p \<in> C \<Longrightarrow> ir_mutate (\<lambda>p r. Some (input_mutate g p r)) p r = Some (Ok (Mutated, q), r') \<Longrightarrow>
    stage_output g ev C q"
| by_operation: "p \<in> C \<Longrightarrow> ir_mutate (operation_mutate g) p r = Some (Ok (Mutated, q), r') \<Longrightarrow>
    stage_output g ev C q"
| by_splice: "p \<in> C \<Longrightarrow> loaded_from C c \<Longrightarrow> ir_splice drawn c p = Ok (Mutated, q) \<Longrightarrow> stage_output g ev C q"
| by_generator: "p \<in> C \<Longrightarrow> gen \<in> campaign_generators g n \<Longrightarrow> ir_generate g gen p r = (Ok (Mutated, q), r') \<Longrightarrow>
    stage_output g ev C q"
| by_minimizer: "tc_input tc \<in> C \<Longrightarrow>
    minimize_entry ev static_corpus minimizing pl tc x = Some (Ok (pl', tc', x')) \<Longrightarrow>
    stage_output g ev C (tc_input tc')"

inductive campaign :: "'r rng_ops \<Rightarrow> 'x evaluator \<Rightarrow> program_context \<Rightarrow> program set \<Rightarrow> bool"
  for g ev ctx where
  campaign_start: "campaign g ev ctx {unchecked_new ctx []}"
| campaign_stage: "campaign g ev ctx C \<Longrightarrow> stage_output g ev C q \<Longrightarrow> campaign g ev ctx (insert q C)"

section \<open>Every one of them is valid\<close>

definition written_for :: "program_context \<Rightarrow> program \<Rightarrow> bool" where
  "written_for ctx p \<longleftrightarrow> valid_program p \<and> prog_context p = ctx"

lemma keep_candidate_context:
  "keep_candidate p c = Ok (m, q) \<Longrightarrow> prog_context c = prog_context p \<Longrightarrow> prog_context q = prog_context p"
  by (auto simp: keep_candidate_result split: if_splits)

lemma keep_result_context:
  assumes "keep_result p res = Ok (m, q)" and "\<And>c. res = Ok c \<Longrightarrow> prog_context c = prog_context p"
  shows "prog_context q = prog_context p"
  using assms by (cases res) (auto simp: keep_result_def dest: keep_candidate_context)

lemma input_mutate_context: "input_mutate g p r = (Ok c, r') \<Longrightarrow> prog_context c = prog_context p"
  by (auto simp: input_mutate_def replace_input_def Let_def
      split: option.splits outcome.splits prod.splits if_splits)

lemma try_operations_context:
  "try_operations g p order r = Some (Ok c, r') \<Longrightarrow> prog_context c = prog_context p"
  by (induction order arbitrary: r)
    (auto split: option.splits outcome.splits prod.splits if_splits)

lemma operation_mutate_context:
  "operation_mutate g p r = Some (Ok c, r') \<Longrightarrow> prog_context c = prog_context p"
  by (auto simp: operation_mutate_def Let_def case_prod_beta dest: try_operations_context)

lemma splice_context: "splice p other = Ok c \<Longrightarrow> prog_context c = prog_context p"
  by (auto simp: splice_def Let_def split: if_splits outcome.splits)

lemma ir_splice_context: "ir_splice drawn c p = Ok (m, q) \<Longrightarrow> prog_context q = prog_context p"
  by (auto simp: ir_splice_def split: if_splits option.splits outcome.splits
      dest: keep_result_context [OF _ splice_context])

lemma ir_mutate_context:
  assumes "ir_mutate m p r = Some (Ok (x, q), r')"
    and "\<And>c r1. m p r = Some (Ok c, r1) \<Longrightarrow> prog_context c = prog_context p"
  shows "prog_context q = prog_context p"
proof -
  from assms(1) obtain res where m: "m p r = Some (res, r')" "keep_result p res = Ok (x, q)"
    by (auto simp: ir_mutate_def)
  show ?thesis by (rule keep_result_context [OF m(2)]) (use m(1) assms(2) in blast)
qed

lemma ir_mutate_kept: "ir_mutate m p r = Some (Ok (x, q), r') \<Longrightarrow> kept_well p x q"
  by (auto simp: ir_mutate_def dest: keep_result_kept)

lemma ir_generate_context: "ir_generate g gen p r = (Ok (m, q), r') \<Longrightarrow> prog_context q = prog_context p"
  by (auto simp: ir_generate_def Let_def unchecked_new_def
      split: if_splits option.splits outcome.splits prod.splits dest!: keep_candidate_context)

lemma kept_valid: "kept_well p Mutated q \<Longrightarrow> valid_program q"
  by (simp add: kept_well_def statically_valid_iff)

lemma minimize_entry_keeps:
  assumes "always_runs ev" and "valid_program (tc_input tc)"
    and "minimize_entry ev static_corpus minimizing pl tc x = Some (Ok (pl', tc', x'))"
  shows "valid_program (tc_input tc') \<and> prog_context (tc_input tc') = prog_context (tc_input tc)"
proof (cases "\<not> static_corpus \<or> minimizing")
  case True
  with assms(3) minimize_loop_rests [OF assms(1, 2), of "pl\<lparr>pl_continue := 1\<rparr>" x] show ?thesis
    by (auto simp: minimize_entry_def)
next
  case False
  with assms(2, 3) show ?thesis by (simp add: minimize_entry_def minimize_loop.simps)
qed

lemma stage_output_written:
  assumes "stage_output g ev C q" and "always_runs ev" and "\<forall>p \<in> C. written_for ctx p"
  shows "written_for ctx q"
  using assms(1)
proof cases
  case (by_input p r r')
  have "prog_context q = prog_context p"
    by (rule ir_mutate_context [OF by_input(2)]) (auto intro: input_mutate_context)
  then show ?thesis using by_input(1) assms(3) kept_valid [OF ir_mutate_kept [OF by_input(2)]]
    by (auto simp: written_for_def)
next
  case (by_operation p r r')
  have "prog_context q = prog_context p"
    by (rule ir_mutate_context [OF by_operation(2)]) (auto intro: operation_mutate_context)
  then show ?thesis using by_operation(1) assms(3) kept_valid [OF ir_mutate_kept [OF by_operation(2)]]
    by (auto simp: written_for_def)
next
  case (by_splice p c drawn)
  then show ?thesis
    using assms(3) ir_splice_context [OF by_splice(3)] kept_valid [OF ir_splice_kept [OF by_splice(3)]]
    by (auto simp: written_for_def)
next
  case (by_generator p gen n r r')
  then show ?thesis
    using assms(3) ir_generate_context [OF by_generator(3)] kept_valid [OF ir_generate_kept [OF by_generator(3)]]
    by (auto simp: written_for_def)
next
  case (by_minimizer tc static_corpus minimizing pl x pl' tc' x')
  have w: "written_for ctx (tc_input tc)" using by_minimizer(2) assms(3) by blast
  then have "valid_program (tc_input tc)" by (auto simp: written_for_def)
  from minimize_entry_keeps [OF assms(2) this by_minimizer(3)] w by_minimizer(1) show ?thesis
    by (auto simp: written_for_def)
qed

lemma empty_program_written: "written_for ctx (unchecked_new ctx [])"
  by (auto simp: written_for_def unchecked_new_def wt_program_def init_typing_def intro: wt_nil)

lemma campaign_written:
  assumes "campaign g ev ctx C" and "always_runs ev" and "p \<in> C"
  shows "written_for ctx p"
  using assms(1, 3)
proof (induction arbitrary: p)
  case campaign_start
  then show ?case by (simp add: empty_program_written)
next
  case (campaign_stage C q)
  then show ?case using stage_output_written [OF campaign_stage(2) assms(2)] by blast
qed

section \<open>Every stage takes them\<close>

lemma keep_result_valid:
  assumes "\<And>c. res = Ok c \<Longrightarrow> valid_program c" and "res \<noteq> Panic"
  shows "\<exists>kept. keep_result p res = Ok kept"
proof (cases res)
  case (Ok c)
  with assms(1) have "is_statically_valid c = (Ok True :: (unit, bool) outcome)" by (simp add: statically_valid_iff)
  from keep_candidate_valid [OF this, of p] Ok show ?thesis by (simp add: keep_result_def)
qed (use assms(2) in \<open>simp_all add: keep_result_def\<close>)

lemma input_stage_takes:
  assumes "rng_ok g" and "written_for ctx p"
  shows "\<exists>kept r'. ir_mutate (\<lambda>p r. Some (input_mutate g p r)) p r = Some (Ok kept, r')"
proof -
  have wt: "wt_program (prog_context p) (instructions p)" using assms(2) by (auto simp: written_for_def)
  obtain res r1 where m: "input_mutate g p r = (res, r1)" by fastforce
  have ok: "res \<noteq> Panic \<and> (\<forall>c. res = Ok c \<longrightarrow> valid_program c)"
    using input_mutate_cases [OF assms(1) wt, of r] m by (auto simp: replace_input_def Let_def)
  obtain kept where "keep_result p res = Ok kept" using keep_result_valid [of res p] ok by blast
  with m show ?thesis by (simp add: ir_mutate_def)
qed

lemma operation_stage_takes:
  assumes "rng_ok g" and "written_for ctx p"
    and "ir_mutate (operation_mutate g) p r = Some (res, r')"
  shows "\<exists>kept. res = Ok kept"
proof -
  have wt: "wt_program (prog_context p) (instructions p)" using assms(2) by (auto simp: written_for_def)
  from assms(3) obtain m where m: "operation_mutate g p r = Some (m, r')" "res = keep_result p m"
    by (auto simp: ir_mutate_def)
  have ok: "m \<noteq> Panic \<and> (\<forall>c. m = Ok c \<longrightarrow> valid_program c)"
    using operation_mutate_ok [OF assms(1) wt m(1)] by auto
  obtain kept where "keep_result p m = Ok kept" using keep_result_valid [of m p] ok by blast
  with m(2) show ?thesis by simp
qed

lemma splice_stage_takes:
  assumes "written_for ctx p" and "\<forall>q \<in> C. written_for ctx q" and "loaded_from C c"
  shows "ir_splice drawn c p \<noteq> Panic"
proof -
  have takes: "\<exists>kept. keep_result p (splice p other) = Ok kept" if "written_for ctx other" for other
  proof -
    have p: "wt_program (prog_context p) (instructions p)" and o: "wt_program (prog_context other) (instructions other)"
      and "prog_context other = prog_context p"
      using assms(1) that by (auto simp: written_for_def)
    then have ctx: "\<forall>i \<in> set (instructions other). in_context (prog_context p) (operation i)"
      using wt_program_end [OF o] wt_steps_context by metis
    have ok: "splice p other \<noteq> Panic \<and> (\<forall>c. splice p other = Ok c \<longrightarrow> valid_program c)"
    proof (cases "instructions other = []")
      case False
      obtain q where "splice p other = Ok q" "valid_program q" using splice_ok [OF p o ctx False] by blast
      then show ?thesis by simp
    qed (simp add: splice_def)
    show ?thesis using keep_result_valid [of "splice p other" p] ok by blast
  qed
  have "\<exists>kept. keep_result p (splice p other) = Ok kept"
    if "corpus_entries c drawn = Some e" "entry_input e = Some other" for e other
    using assms(2, 3) that takes unfolding loaded_from_def by (meson ranI)
  note kept = this
  show ?thesis
  proof (cases "Option.bind (corpus_entries c drawn) entry_input")
    case None
    then show ?thesis by (auto simp: ir_splice_def bind_eq_None_conv split: option.split)
  next
    case (Some other)
    then obtain e where e: "corpus_entries c drawn = Some e" "entry_input e = Some other"
      by (auto simp: bind_eq_Some_conv)
    with kept obtain k where "keep_result p (splice p other) = Ok k" by blast
    with e show ?thesis by (simp add: ir_splice_def)
  qed
qed

lemma generator_stage_takes:
  assumes "written_for ctx p" and "rng_ok g" and "max n 1 \<le> num_roles ctx" and "gen \<in> campaign_generators g n"
  shows "\<exists>kept r'. ir_generate g gen p r = (Ok kept, r')"
proof -
  have wt: "wt_program (prog_context p) (instructions p)" and n: "max n 1 \<le> num_roles (prog_context p)"
    using assms(1, 3) by (auto simp: written_for_def)
  note ok = wt conjI [OF assms(2) n] assms(2)
  from assms(4) consider "gen = any_role_setup g n" | "gen = any_role_adversarial_setup g n" |
    "gen = any_role_raw_frame g n" unfolding campaign_generators_def by blast
  then show ?thesis
    using any_setup_gen.ir_generate_ok [OF ok, where r = r] any_adversarial_gen.ir_generate_ok [OF ok, where r = r]
      any_raw_frame_gen.ir_generate_ok [OF ok, where r = r]
    by cases (metis | simp)+
qed

lemma minimizer_stage_takes:
  assumes "written_for ctx (tc_input tc)" and "always_runs ev"
  shows "\<exists>ended. minimize_entry ev static_corpus minimizing pl tc x = Some (Ok ended)"
proof (cases "\<not> static_corpus \<or> minimizing")
  case True
  have "valid_program (tc_input tc)" using assms(1) by (auto simp: written_for_def)
  from minimize_loop_rests [OF assms(2) this, of "pl\<lparr>pl_continue := 1\<rparr>" x] True show ?thesis
    by (auto simp: minimize_entry_def)
qed (simp add: minimize_entry_def minimize_loop.simps)

section \<open>Properties\<close>





end
