(* ===== verification/Sim_Runtime.thy ===== *)
theory Sim_Runtime
  imports Sim_Task Sim_Fs
begin

text \<open>
  The simulation as a whole (\<open>lib.rs\<close>, \<open>rand.rs\<close> and \<open>context.rs\<close> of \<open>stratamoto-dst\<close>): the runtime
  that puts the executor, the network, the files and the one source of randomness together, its
  handles, and the thread the runtime is entered on. The random generator is the \<open>rand\<close>
  library's, \<open>rng_ops\<close> with a function from seeds. A thread runs one runtime.
\<close>

section \<open>The runtime\<close>

record 'r sim_world =
  sw_rand :: 'r
  sw_net :: network
  sw_fs :: fs_state

type_synonym 'r runtime = "'r sim_world executor"

definition new_with_seed :: "(nat \<Rightarrow> 'r) \<Rightarrow> instant \<Rightarrow> nat \<Rightarrow> 'r runtime" where
  "new_with_seed seed_from now sd =
     new_executor now \<lparr>sw_rand = seed_from sd, sw_net = new_network, sw_fs = new_fs\<rparr>"

definition new_runtime :: "(nat \<Rightarrow> 'r) \<Rightarrow> instant \<Rightarrow> 'r runtime" where
  "new_runtime seed_from now = new_with_seed seed_from now 0"

definition should_fault :: "'r rng_ops \<Rightarrow> rat \<Rightarrow> 'r runtime \<Rightarrow> bool \<times> 'r runtime" where
  "should_fault g p s =
     (let (b, r) = random_bool g p (sw_rand (ex_world s)) in (b, s\<lparr>ex_world := (ex_world s)\<lparr>sw_rand := r\<rparr>\<rparr>))"

section \<open>Handles\<close>

record node_handle =
  nh_task :: nat
  nh_net :: local_handle
  nh_fs :: addr

definition runtime_handle :: "addr \<Rightarrow> 'r runtime \<Rightarrow> node_handle \<times> 'r runtime" where
  "runtime_handle a s =
     (let (t, s1) = task_local_handle a s;
          (n, nw) = net_local_handle a (sw_net (ex_world s1));
          (f, fs) = fs_local_handle a (sw_fs (ex_world s1))
      in (\<lparr>nh_task = t, nh_net = n, nh_fs = f\<rparr>,
          s1\<lparr>ex_world := (ex_world s1)\<lparr>sw_net := nw, sw_fs := fs\<rparr>\<rparr>))"

text \<open>\<open>LocalHandle::spawn\<close>, and \<open>Handle::kill\<close>, which kills tasks only.\<close>

definition handle_spawn :: "node_handle \<Rightarrow> 'r runtime \<Rightarrow> nat \<times> 'r runtime" where
  "handle_spawn h s = spawn_on (nh_task h) s"

definition runtime_kill :: "addr \<Rightarrow> 'r runtime \<Rightarrow> 'r runtime" where
  "runtime_kill a s = kill_node a s"

text \<open>What a timer that fires does to the runtime.\<close>

fun fire_callback :: "callback \<Rightarrow> 'r runtime \<Rightarrow> 'r runtime" where
  "fire_callback (Deliver ch msg) s =
     s\<lparr>ex_world := (ex_world s)\<lparr>sw_net := run_callback (Deliver ch msg) (sw_net (ex_world s))\<rparr>\<rparr>"
| "fire_callback (Wake t) s = schedule t s"

section \<open>The thread\<close>

text \<open>The thread locals of \<open>context.rs\<close>: whether the runtime is entered, and the address of the running
  task, which the executor keeps.\<close>

record 'r thread =
  th_runtime :: "'r runtime"
  th_entered :: bool

definition current_handle :: "'r thread \<Rightarrow> (unit, 'r runtime) outcome" where
  "current_handle th = (if th_entered th then Ok (th_runtime th) else Panic)"

definition try_time_handle :: "'r thread \<Rightarrow> callback time_runtime option" where
  "try_time_handle th = (if th_entered th then Some (ex_time (th_runtime th)) else None)"

definition time_handle :: "'r thread \<Rightarrow> (unit, callback time_runtime) outcome" where
  "time_handle th = andThen (current_handle th) (\<lambda>s. Ok (ex_time s))"

definition rand_handle :: "'r thread \<Rightarrow> (unit, 'r) outcome" where
  "rand_handle th = andThen (current_handle th) (\<lambda>s. Ok (sw_rand (ex_world s)))"

text \<open>A handle of the running task's node; the address is unwrapped first.\<close>

definition at_node ::
  "(addr \<Rightarrow> 'r runtime \<Rightarrow> 'h \<times> 'r runtime) \<Rightarrow> 'r thread \<Rightarrow> (unit, 'h) outcome \<times> 'r thread" where
  "at_node f th =
     (case ex_addr (th_runtime th) of
        None \<Rightarrow> (Panic, th)
      | Some a \<Rightarrow>
          if th_entered th
          then (let (h, s) = f a (th_runtime th) in (Ok h, th\<lparr>th_runtime := s\<rparr>))
          else (Panic, th))"

definition current_task_handle :: "'r thread \<Rightarrow> (unit, nat) outcome \<times> 'r thread" where
  "current_task_handle = at_node task_local_handle"

definition current_net_handle :: "'r thread \<Rightarrow> (unit, local_handle) outcome \<times> 'r thread" where
  "current_net_handle = at_node (\<lambda>a s.
     let (n, nw) = net_local_handle a (sw_net (ex_world s))
     in (n, s\<lparr>ex_world := (ex_world s)\<lparr>sw_net := nw\<rparr>\<rparr>))"

definition current_fs_handle :: "'r thread \<Rightarrow> (unit, addr) outcome \<times> 'r thread" where
  "current_fs_handle = at_node (\<lambda>a s.
     let (f, fs) = fs_local_handle a (sw_fs (ex_world s))
     in (f, s\<lparr>ex_world := (ex_world s)\<lparr>sw_fs := fs\<rparr>\<rparr>))"

text \<open>\<open>Runtime::block_on\<close>: the guard leaves the runtime as it was entered, also when the run panics.\<close>

definition runtime_block_on ::
  "(callback timer \<Rightarrow> nat) \<Rightarrow> ('v, 'r sim_world) tasks \<Rightarrow> 'r thread \<Rightarrow>
   ((unit, 'v) outcome \<times> 'r thread) option" where
  "runtime_block_on pk tk th =
     (let old = th_entered th; entered = th\<lparr>th_entered := True\<rparr> in
      case block_on pk tk (th_runtime entered) of
        None \<Rightarrow> None
      | Some (r, s) \<Rightarrow> Some (r, entered\<lparr>th_runtime := s, th_entered := old\<rparr>))"

section \<open>The invariant\<close>

text \<open>Every address has its own channel.\<close>

definition net_ok :: "network \<Rightarrow> bool" where
  "net_ok nw \<longleftrightarrow>
     (\<forall>a ch. nw_endpoints nw a = Some ch \<longrightarrow> ch < nw_fresh nw) \<and>
     (\<forall>a b ch. nw_endpoints nw a = Some ch \<longrightarrow> nw_endpoints nw b = Some ch \<longrightarrow> a = b)"

definition runtime_ok :: "'r runtime \<Rightarrow> bool" where
  "runtime_ok s \<longleftrightarrow> exec_ok s \<and> net_ok (sw_net (ex_world s)) \<and> fs_ok (sw_fs (ex_world s))"

lemma runtime_ok_new: "runtime_ok (new_with_seed seed_from now sd)"
  by (simp add: runtime_ok_def new_with_seed_def exec_ok_new fs_ok_new net_ok_def new_network_def)
    (simp add: new_executor_def fs_ok_new)

lemma net_handle_effect:
  assumes "net_local_handle a nw = (n, nw')"
  shows "net_local_handle a nw' = (n, nw')" "lh_addr n = a" "nw_endpoints nw' a = Some (lh_receiver n)"
    "nw_endpoints nw b = Some ch \<Longrightarrow> nw_endpoints nw' b = Some ch" "net_ok nw \<Longrightarrow> net_ok nw'"
proof -
  show "net_local_handle a nw' = (n, nw')" "lh_addr n = a" "nw_endpoints nw' a = Some (lh_receiver n)"
    "nw_endpoints nw b = Some ch \<Longrightarrow> nw_endpoints nw' b = Some ch"
    using assms by (auto simp: net_local_handle_def net_get_def split: option.splits)
  assume ok: "net_ok nw"
  show "net_ok nw'"
  proof (cases "nw_endpoints nw a")
    case None
    with assms have "nw_endpoints nw' = (nw_endpoints nw)(a \<mapsto> nw_fresh nw)" "nw_fresh nw' = Suc (nw_fresh nw)"
      by (auto simp: net_local_handle_def net_get_def)
    with ok show ?thesis by (fastforce simp: net_ok_def less_Suc_eq)
  next
    case (Some c)
    with assms ok show ?thesis by (simp add: net_local_handle_def net_get_def)
  qed
qed

lemma fs_handle_effect:
  assumes "fs_local_handle a st = (f, st')"
  shows "f = a" "fs_local_handle a st' = (a, st')"
  using assms by (auto simp: fs_local_handle_def split: option.splits)

lemma task_handle_effect:
  assumes "task_local_handle a s = (t, s')"
  shows "task_local_handle a s' = (t, s')" "ex_nodes s' a = Some t" "ex_world s' = ex_world s"
    "ex_nodes s b = Some i \<Longrightarrow> ex_nodes s' b = Some i"
  using assms by (auto simp: task_local_handle_def new_info_def Let_def split: option.splits)

lemma task_handle_world [simp]:
  "task_local_handle a (s\<lparr>ex_world := x\<rparr>) = (fst (task_local_handle a s), (snd (task_local_handle a s))\<lparr>ex_world := x\<rparr>)"
  by (simp add: task_local_handle_def new_info_def Let_def split: option.split)

lemma exec_ok_world: "exec_ok (s\<lparr>ex_world := x\<rparr>) = exec_ok s"
  by (simp add: exec_ok_def)

lemma runtime_handle_effect:
  assumes "runtime_handle a s = (h, s1)"
  shows "ex_nodes s1 a = Some (nh_task h)" "nh_fs h = a" "lh_addr (nh_net h) = a"
    "nw_endpoints (sw_net (ex_world s1)) a = Some (lh_receiver (nh_net h))"
    "runtime_handle a s1 = (h, s1)" "runtime_ok s \<Longrightarrow> runtime_ok s1"
    "ex_nodes s b = Some i \<Longrightarrow> ex_nodes s1 b = Some i"
    "nw_endpoints (sw_net (ex_world s)) b = Some ch \<Longrightarrow> nw_endpoints (sw_net (ex_world s1)) b = Some ch"
proof -
  obtain t s' n nw f fs where eqs: "task_local_handle a s = (t, s')"
    "net_local_handle a (sw_net (ex_world s')) = (n, nw)" "fs_local_handle a (sw_fs (ex_world s')) = (f, fs)"
    by (metis prod.exhaust)
  with assms have h: "h = \<lparr>nh_task = t, nh_net = n, nh_fs = f\<rparr>"
    "s1 = s'\<lparr>ex_world := (ex_world s')\<lparr>sw_net := nw, sw_fs := fs\<rparr>\<rparr>"
    by (simp_all add: runtime_handle_def)
  note task = task_handle_effect [OF eqs(1)] and net = net_handle_effect [OF eqs(2)] and fil = fs_handle_effect [OF eqs(3)]
  show "ex_nodes s1 a = Some (nh_task h)" "nh_fs h = a" "lh_addr (nh_net h) = a"
    "nw_endpoints (sw_net (ex_world s1)) a = Some (lh_receiver (nh_net h))"
    using h task(2) net(2, 3) fil(1) by simp_all
  show "ex_nodes s b = Some i \<Longrightarrow> ex_nodes s1 b = Some i"
    "nw_endpoints (sw_net (ex_world s)) b = Some ch \<Longrightarrow> nw_endpoints (sw_net (ex_world s1)) b = Some ch"
    using h task(3, 4) net(4) by simp_all
  show "runtime_handle a s1 = (h, s1)"
    using h task(1) net(1) fil by (simp add: runtime_handle_def)
  assume "runtime_ok s"
  then show "runtime_ok s1"
    using h task(3) net(5) exec_ok_handle(1) [of s a] fs_ok_steps(1) [of "sw_fs (ex_world s')" a] eqs
    by (simp add: runtime_ok_def exec_ok_world)
qed

lemma fire_callback_acts: "acts s (fire_callback c s)"
proof (cases c)
  case (Deliver ch msg)
  then show ?thesis using acts_world [OF acts_refl] by simp
next
  case (Wake t)
  then show ?thesis using acts_wake [OF acts_refl] by simp
qed

section \<open>Properties\<close>

text \<open>The handle of an address is the same whenever it is asked for, and no two addresses share the
  tasks, the channel or the files of theirs.\<close>

theorem node_handles_are_apart:
  assumes "runtime_ok s" and "runtime_handle a s = (h, s1)" and "runtime_handle b s1 = (k, s2)"
  shows "if a = b then k = h \<and> s2 = s1
    else nh_task k \<noteq> nh_task h \<and> lh_receiver (nh_net k) \<noteq> lh_receiver (nh_net h) \<and> nh_fs k \<noteq> nh_fs h"
proof (cases "a = b")
  case True
  with assms(3) runtime_handle_effect(5) [OF assms(2)] show ?thesis by simp
next
  case False
  note h = runtime_handle_effect [OF assms(2)] and k = runtime_handle_effect [OF assms(3)]
  have ok: "exec_ok s2" "net_ok (sw_net (ex_world s2))"
    using k(6) [OF h(6) [OF assms(1)]] by (simp_all add: runtime_ok_def)
  have "nh_task k \<noteq> nh_task h" using ok(1) k(1) k(7) [OF h(1)] False unfolding exec_ok_def by metis
  moreover have "lh_receiver (nh_net k) \<noteq> lh_receiver (nh_net h)"
    using ok(2) k(4) k(8) [OF h(4)] False unfolding net_ok_def by metis
  ultimately show ?thesis using False h(2) k(2) by simp
qed

text \<open>Killing a node ends its tasks and nothing else: started again, it finds its files and what is on its
  channel, while its old tasks stay dead and its new ones run.\<close>

theorem restart_keeps_files_and_mail:
  assumes "runtime_ok s" and "runtime_handle a s = (h, s1)" and "runtime_handle a (runtime_kill a s1) = (k, s2)"
  shows "nh_net k = nh_net h \<and> nh_fs k = nh_fs h \<and> ex_world s2 = ex_world s1 \<and>
    nh_task k \<noteq> nh_task h \<and> ti_killed (ex_infos s2 (nh_task h)) \<and> \<not> ti_killed (ex_infos s2 (nh_task k))"
proof -
  let ?s = "kill_node a s1"
  note h = runtime_handle_effect [OF assms(2)]
  have ok1: "exec_ok s1" using h(6) [OF assms(1)] by (simp add: runtime_ok_def)
  have dead: "dead (nh_task h) ?s" and world: "ex_world ?s = ex_world s1"
    using ok1 h(1) by (auto simp: kill_node_def exec_ok_def dead_def)
  obtain t s' where t: "task_local_handle a ?s = (t, s')" by fastforce
  have s': "ex_world s' = ex_world s1" using task_handle_effect(3) [OF t] world by simp
  obtain t1 s1' n nw f fs where eqs: "task_local_handle a s1 = (t1, s1')"
    "net_local_handle a (sw_net (ex_world s1')) = (n, nw)" "fs_local_handle a (sw_fs (ex_world s1')) = (f, fs)"
    by (metis prod.exhaust)
  have w1: "ex_world s1' = ex_world s1" using task_handle_effect(3) [OF eqs(1)] .
  from h(5) eqs have h_eq: "h = \<lparr>nh_task = t1, nh_net = n, nh_fs = f\<rparr>"
    and "s1 = s1'\<lparr>ex_world := (ex_world s1')\<lparr>sw_net := nw, sw_fs := fs\<rparr>\<rparr>"
    by (simp_all add: runtime_handle_def)
  then have same: "(ex_world s1)\<lparr>sw_net := nw, sw_fs := fs\<rparr> = ex_world s1"
    using w1 by (metis executor.select_convs(9) executor.update_convs(9) executor.surjective)
  have k: "k = \<lparr>nh_task = t, nh_net = n, nh_fs = f\<rparr>" "s2 = s'\<lparr>ex_world := ex_world s1\<rparr>"
    using assms(3) t s' eqs(2, 3) w1 same by (simp_all add: runtime_kill_def runtime_handle_def)
  have "\<not> ti_killed (ex_infos s' t)" by (rule handle_alive [OF _ t]) (use ok1 in simp)
  moreover have "ti_killed (ex_infos s' (nh_task h))"
    using exec_ok_handle(2) [OF dead, of a] t by (simp add: dead_def)
  ultimately show ?thesis using h_eq k by auto
qed

definition demo_runtime :: "nat runtime" where
  "demo_runtime = new_with_seed (\<lambda>n. n) 0 42"

theorem node_handles_are_apart_witness:
  "\<exists>h s1 k s2. runtime_handle 1 demo_runtime = (h, s1) \<and> runtime_handle 2 s1 = (k, s2) \<and>
     nh_task k \<noteq> nh_task h \<and> lh_receiver (nh_net k) \<noteq> lh_receiver (nh_net h)"
proof -
  obtain h s1 where h: "runtime_handle 1 demo_runtime = (h, s1)" by fastforce
  obtain k s2 where k: "runtime_handle 2 s1 = (k, s2)" by fastforce
  have "runtime_ok demo_runtime" by (simp add: demo_runtime_def runtime_ok_new)
  from node_handles_are_apart [OF this h k] h k show ?thesis by auto
qed

theorem restart_keeps_files_and_mail_witness:
  "\<exists>h s1 k s2. runtime_handle 1 demo_runtime = (h, s1) \<and> runtime_handle 1 (runtime_kill 1 s1) = (k, s2) \<and>
     nh_net k = nh_net h \<and> nh_task k \<noteq> nh_task h"
proof -
  obtain h s1 where h: "runtime_handle 1 demo_runtime = (h, s1)" by fastforce
  obtain k s2 where k: "runtime_handle 1 (runtime_kill 1 s1) = (k, s2)" by fastforce
  have "runtime_ok demo_runtime" by (simp add: demo_runtime_def runtime_ok_new)
  from restart_keeps_files_and_mail [OF this h k] h k show ?thesis by blast
qed

end
