(* ===== verification/Sim_Timeout.thy ===== *)
theory Sim_Timeout
  imports Sim_Time
begin

text \<open>
  A future with a time limit in the simulation (\<open>TimeHandle::timeout\<close> of \<open>time/mod.rs\<close>). One poll of it
  is modelled. The future is a parameter: a state and what a poll makes of it and of the runtime. The
  futures library's \<open>select\<close> polls the two branches in an order it draws, an argument here, and takes
  the first that is ready.
\<close>

section \<open>Polling\<close>

type_synonym ('f, 'v, 'c) future = "'f \<Rightarrow> 'c time_runtime \<Rightarrow> 'v option \<times> 'f \<times> 'c time_runtime"

text \<open>The result of a timeout: the future's, or the fact that the time is over.\<close>

datatype 'v limited = Finished 'v | Elapsed

definition poll_limit :: "instant \<Rightarrow> 'c \<Rightarrow> 'c time_runtime \<Rightarrow> 'v limited option \<times> 'c time_runtime" where
  "poll_limit deadline waker rt =
     (case poll_sleep_until deadline waker rt of (over, rt1) \<Rightarrow> (if over then Some Elapsed else None, rt1))"

definition poll_timeout ::
  "('f, 'v, 'c) future \<Rightarrow> instant \<Rightarrow> 'c \<Rightarrow> bool \<Rightarrow> 'f \<Rightarrow> 'c time_runtime \<Rightarrow>
   'v limited option \<times> 'f \<times> 'c time_runtime" where
  "poll_timeout poll deadline waker future_first f rt =
     (if future_first then
        (case poll f rt of
           (Some v, f1, rt1) \<Rightarrow> (Some (Finished v), f1, rt1)
         | (None, f1, rt1) \<Rightarrow>
             (case poll_limit deadline waker rt1 of (r, rt2) \<Rightarrow> (r, f1, rt2)))
      else
        (case poll_limit deadline waker rt of
           (Some e, rt1) \<Rightarrow> (Some e, f, rt1)
         | (None, rt1) \<Rightarrow>
             (case poll f rt1 of
                (Some v, f1, rt2) \<Rightarrow> (Some (Finished v), f1, rt2)
              | (None, f1, rt2) \<Rightarrow> (None, f1, rt2))))"

text \<open>The deadline is set when the timeout is made.\<close>

definition timeout_deadline :: "duration \<Rightarrow> 'c time_runtime \<Rightarrow> instant" where
  "timeout_deadline d rt = sleep_deadline d rt"

section \<open>What a poll leaves\<close>

text \<open>A future's poll leaves the clock alone and takes no timer away.\<close>

definition only_waits :: "('f, 'v, 'c) future \<Rightarrow> bool" where
  "only_waits poll \<longleftrightarrow>
     (\<forall>f rt r f' rt'. poll f rt = (r, f', rt') \<longrightarrow>
        rt_clock rt' = rt_clock rt \<and> set (rt_timer rt) \<subseteq> set (rt_timer rt'))"

lemma only_waitsD:
  assumes "only_waits poll" and "poll f rt = (r, f', rt')"
  shows "rt_clock rt' = rt_clock rt" "set (rt_timer rt) \<subseteq> set (rt_timer rt')"
  using assms unfolding only_waits_def by blast+

text \<open>A limit that is not over has its timer set.\<close>

definition limit_set :: "instant \<Rightarrow> 'c \<Rightarrow> 'c time_runtime \<Rightarrow> bool" where
  "limit_set deadline waker rt \<longleftrightarrow>
     clock_now (rt_clock rt) < deadline \<and>
     \<lparr>ev_deadline = deadline, ev_callback = waker\<rparr> \<in> set (rt_timer rt)"

lemma poll_limit_cases:
  assumes "poll_limit deadline waker rt = (r, rt')"
  shows "rt_clock rt' = rt_clock rt"
    and "if deadline \<le> clock_now (rt_clock rt) then r = Some Elapsed else r = None \<and> limit_set deadline waker rt'"
  using assms
  by (auto simp: poll_limit_def poll_sleep_until_def limit_set_def add_timer_def timer_push_def split: if_splits)

lemma limit_set_waits:
  assumes "only_waits poll" and "limit_set deadline waker rt" and "poll f rt = (r, f', rt')"
  shows "limit_set deadline waker rt'"
  using assms(2) only_waitsD [OF assms(1, 3)] by (auto simp: limit_set_def)

lemma poll_timeout_cases:
  fixes poll :: "('f, 'v, 'c) future"
  assumes "only_waits poll" and "poll_timeout poll deadline waker future_first f rt = (r, f', rt')"
  shows "rt_clock rt' = rt_clock rt"
    and "r = Some Elapsed \<Longrightarrow> deadline \<le> clock_now (rt_clock rt)"
    and "r = None \<Longrightarrow> limit_set deadline waker rt'"
proof -
  have "rt_clock rt' = rt_clock rt \<and> (r = Some Elapsed \<longrightarrow> deadline \<le> clock_now (rt_clock rt)) \<and>
    (r = None \<longrightarrow> limit_set deadline waker rt')"
  proof (cases future_first)
    case True
    obtain v f1 rt1 where p: "poll f rt = (v, f1, rt1)" by (metis prod.exhaust)
    obtain e rt2 where l: "poll_limit deadline waker rt1 = (e :: 'v limited option, rt2)" by fastforce
    show ?thesis
      using assms(2) True p l only_waitsD [OF assms(1) p] poll_limit_cases [OF l]
      by (cases v) (auto simp: poll_timeout_def split: if_splits)
  next
    case False
    obtain e rt1 where l: "poll_limit deadline waker rt = (e :: 'v limited option, rt1)" by fastforce
    obtain v f1 rt2 where p: "poll f rt1 = (v, f1, rt2)" by (metis prod.exhaust)
    show ?thesis
      using assms(2) False p l only_waitsD [OF assms(1) p] poll_limit_cases [OF l] limit_set_waits [OF assms(1) _ p]
      by (cases v) (auto simp: poll_timeout_def split: if_splits)
  qed
  then show "rt_clock rt' = rt_clock rt" "r = Some Elapsed \<Longrightarrow> deadline \<le> clock_now (rt_clock rt)"
    "r = None \<Longrightarrow> limit_set deadline waker rt'" by blast+
qed

text \<open>Time that moves on does not pass a timer.\<close>

lemma advance_reaches:
  assumes "heap_ok pk" and "limit_set deadline waker rt" and "advance pk rt = (going, fired, rt')"
  shows "going" and "clock_now (rt_clock rt') \<le> deadline"
    and "if clock_now (rt_clock rt') = deadline
         then \<lparr>ev_deadline = deadline, ev_callback = waker\<rparr> \<in> set fired
         else limit_set deadline waker rt'"
proof -
  let ?e = "\<lparr>ev_deadline = deadline, ev_callback = waker\<rparr>"
  from assms(2) have now: "clock_now (rt_clock rt) < deadline" and e: "?e \<in> set (rt_timer rt)"
    by (simp_all add: limit_set_def)
  have base: "ck_base (rt_clock rt) < deadline" using now base_before_now order.strict_trans1 by blast
  show going "clock_now (rt_clock rt') \<le> deadline"
    "if clock_now (rt_clock rt') = deadline then ?e \<in> set fired else limit_set deadline waker rt'"
  proof (atomize (full), cases rule: advance_cases [OF assms(1), of rt])
    case 1
    with e show "going \<and> clock_now (rt_clock rt') \<le> deadline \<and>
      (if clock_now (rt_clock rt') = deadline then ?e \<in> set fired else limit_set deadline waker rt')" by simp
  next
    case (2 t fired1 q)
    from assms(3) 2(5) have res: going "fired = fired1"
      "rt' = rt\<lparr>rt_timer := q, rt_clock := clock_set t (rt_clock rt)\<rparr>" by simp_all
    have t: "t \<le> deadline" using 2(4) e by fastforce
    have exact: "set (rt_timer rt) = set fired1 \<union> set q" "\<forall>e \<in> set q. t < ev_deadline e" "\<forall>e \<in> set fired1. ev_deadline e \<le> t"
      using timer_fire_exact [OF 2(2) assms(1)] by (metis set_mset_mset set_mset_union, blast, blast)
    show "going \<and> clock_now (rt_clock rt') \<le> deadline \<and>
      (if clock_now (rt_clock rt') = deadline then ?e \<in> set fired else limit_set deadline waker rt')"
    proof (cases "t = deadline")
      case True
      with exact e have "?e \<in> set fired1" by fastforce
      with True res base show ?thesis by simp
    next
      case False
      with exact e t have "?e \<in> set q" by fastforce
      moreover have "max (ck_base (rt_clock rt)) t < deadline" using False t base by simp
      ultimately show ?thesis using res by (auto simp: limit_set_def max_def split: if_splits)
    qed
  qed
qed

section \<open>Properties\<close>

text \<open>C39: A timeout ends in time: it is over only once its deadline is reached, and whenever a poll leaves
  it waiting, time moves on without passing the deadline; when it gets there, the task is woken, and
  the next poll ends the timeout, with whatever order the branches are polled in.\<close>

theorem timeout_ends_in_time:
  assumes "heap_ok pk" and "only_waits poll"
    and "poll_timeout poll deadline waker future_first f rt = (r, f', rt')"
  shows "(r = Some Elapsed \<longrightarrow> deadline \<le> clock_now (rt_clock rt)) \<and>
    (r = None \<longrightarrow>
      (\<exists>fired rt2. advance pk rt' = (True, fired, rt2) \<and> clock_now (rt_clock rt2) \<le> deadline \<and>
        (clock_now (rt_clock rt2) = deadline \<longrightarrow>
           waker \<in> ev_callback ` set fired \<and> fst (poll_timeout poll deadline waker order f' rt2) \<noteq> None)))"
proof (intro conjI impI)
  show "deadline \<le> clock_now (rt_clock rt)" if "r = Some Elapsed"
    using poll_timeout_cases(2) [OF assms(2, 3) that] .
  assume "r = None"
  note set = poll_timeout_cases(3) [OF assms(2, 3) this]
  obtain going fired rt2 where a: "advance pk rt' = (going, fired, rt2)" by (metis prod.exhaust)
  note reach = advance_reaches [OF assms(1) set a]
  have "fst (poll_timeout poll deadline waker order f' rt2) \<noteq> None" if at: "clock_now (rt_clock rt2) = deadline"
  proof
    assume n: "fst (poll_timeout poll deadline waker order f' rt2) = None"
    obtain r2 f2 rt3 where p: "poll_timeout poll deadline waker order f' rt2 = (r2, f2, rt3)" by (metis prod.exhaust)
    with n have "limit_set deadline waker rt3" by (intro poll_timeout_cases(3) [OF assms(2) p]) simp
    with poll_timeout_cases(1) [OF assms(2) p] at show False by (simp add: limit_set_def)
  qed
  moreover have "waker \<in> ev_callback ` set fired" if "clock_now (rt_clock rt2) = deadline"
    using reach(3) that by force
  moreover have "advance pk rt' = (True, fired, rt2)" using a reach(1) by simp
  ultimately show "\<exists>fired rt2. advance pk rt' = (True, fired, rt2) \<and> clock_now (rt_clock rt2) \<le> deadline \<and>
        (clock_now (rt_clock rt2) = deadline \<longrightarrow>
           waker \<in> ev_callback ` set fired \<and> fst (poll_timeout poll deadline waker order f' rt2) \<noteq> None)"
    using reach(2) by (intro exI [of _ fired] exI [of _ rt2]) simp
qed

theorem timeout_ends_in_time_witness:
  "\<exists>fired rt2. advance first_of (snd (snd (poll_timeout (\<lambda>f rt. (None :: nat option, f, rt)) 9 ''wake'' True ()
     (new_time_runtime 4)))) = (True, fired, rt2) \<and> clock_now (rt_clock rt2) \<le> 9"
proof -
  let ?poll = "\<lambda>(f :: unit) (rt :: string time_runtime). (None :: nat option, f, rt)"
  have w: "only_waits ?poll" by (simp add: only_waits_def)
  obtain r f' rt' where p: "poll_timeout ?poll 9 ''wake'' True () (new_time_runtime 4) = (r, f', rt')"
    by (metis prod.exhaust)
  then have "r = None"
    by (auto simp: poll_timeout_def poll_limit_def poll_sleep_until_def new_time_runtime_def
        clock_now_def instant_add_def)
  with timeout_ends_in_time [OF first_of_ok w p, of True] p show ?thesis by auto
qed

end
