(* ===== verification/Pool_Scenario.thy ===== *)
theory Pool_Scenario
  imports Pool Paths
begin

text \<open>
  A run of the scenario binary from its command line: the Bitcoin node behind the pool
  (\<open>stratamoto-targets/src/node.rs\<close>), the deployment that starts both (\<open>pool.rs\<close>), the scenario over
  it (\<open>pool_setup_connection.rs\<close>) and the runner that says where the input comes from and where the
  verdict goes (\<open>stratamoto/src/runners.rs\<close>), run locally. The node's launcher and the operating system
  are parameters. The working directory is an absolute path without dots.
\<close>

section \<open>The node\<close>

text \<open>Making a link, where the error that it is there already is told apart.\<close>

datatype link_result = Linked | AlreadyExists | LinkFailed io_kind string

record 'w node_host =
  nd_current_dir :: "'w \<Rightarrow> string io"
  nd_exists :: "string \<Rightarrow> 'w \<Rightarrow> bool"
  nd_env :: "string \<Rightarrow> 'w \<Rightarrow> string option"
  nd_canonicalize :: "string \<Rightarrow> 'w \<Rightarrow> string option"
  nd_symlink :: "string \<Rightarrow> string \<Rightarrow> 'w \<Rightarrow> link_result \<times> 'w"
  nd_start_core :: "'w \<Rightarrow> string \<times> 'w"
  nd_generate_blocks :: "nat \<Rightarrow> 'w \<Rightarrow> 'w"
  nd_create_transaction :: "'w \<Rightarrow> (string + unit) \<times> 'w"
  nd_fund_wallet :: "'w \<Rightarrow> (string + unit) \<times> 'w"
  nd_stop :: "'w \<Rightarrow> 'w"

definition startup_blocks :: nat where "startup_blocks = 16"

text \<open>\<open>PathBuf::pop\<close>.\<close>

definition strip_slashes :: "string \<Rightarrow> string" where
  "strip_slashes p = rev (dropWhile (\<lambda>c. c = CHR 0x2F) (rev p))"

definition path_parent :: "string \<Rightarrow> string option" where
  "path_parent p =
     (let q = strip_slashes p; dir = rev (dropWhile (\<lambda>c. c \<noteq> CHR 0x2F) (rev q)) in
      if q = [] then None
      else if strip_slashes dir = [] \<and> dir \<noteq> [] then Some ''/'' else Some (strip_slashes dir))"

lemma length_strip_slashes: "length (strip_slashes p) \<le> length p"
  by (simp add: strip_slashes_def) (metis length_dropWhile_le length_rev)

lemma path_parent_shorter: "path_parent p = Some d \<Longrightarrow> length d < length p"
proof -
  assume p: "path_parent p = Some d"
  let ?q = "strip_slashes p" and ?other = "\<lambda>c :: char. c \<noteq> CHR 0x2F"
  let ?dir = "rev (dropWhile ?other (rev ?q))"
  have q: "?q \<noteq> []" using p by (auto simp: path_parent_def)
  then obtain c cs where c: "rev ?q = c # cs" by (cases "rev ?q") simp_all
  moreover have "c \<noteq> CHR 0x2F"
    using c hd_dropWhile [of "\<lambda>c. c = CHR 0x2F" "rev p"] by (simp add: strip_slashes_def)
  ultimately have "length ?dir \<le> length cs" by (simp add: length_dropWhile_le)
  moreover have "length ?q = Suc (length cs)" using c by (metis length_Cons length_rev)
  ultimately have "length ?dir < length p" using length_strip_slashes [of p] by linarith
  moreover have "length d \<le> length ?dir"
    using p length_strip_slashes [of ?dir]
    by (auto simp: path_parent_def Let_def Suc_le_eq length_greater_0_conv split: if_splits)
  ultimately show ?thesis by linarith
qed

definition candidate_in :: "string \<Rightarrow> string" where
  "candidate_in dir = path_join dir ''sv2-apps/integration-tests/template-provider''"

function search_binaries :: "'w node_host \<Rightarrow> string \<Rightarrow> 'w \<Rightarrow> string option" where
  "search_binaries nd dir w =
     (if nd_exists nd (candidate_in dir) w then nd_canonicalize nd (candidate_in dir) w
      else case path_parent dir of None \<Rightarrow> None | Some up \<Rightarrow> search_binaries nd up w)"
  by pat_completeness auto

termination
  by (relation "measure (\<lambda>(nd, dir, w). length dir)") (simp_all add: path_parent_shorter)

declare search_binaries.simps [simp del]

text \<open>The search takes the nearest directory upwards that has the binaries.\<close>

function ancestors :: "string \<Rightarrow> string list" where
  "ancestors dir = dir # (case path_parent dir of None \<Rightarrow> [] | Some up \<Rightarrow> ancestors up)"
  by pat_completeness auto

termination
  by (relation "measure length") (simp_all add: path_parent_shorter)

declare ancestors.simps [simp del]

lemma search_is_nearest:
  "search_binaries nd dir w =
     Option.bind (find (\<lambda>d. nd_exists nd (candidate_in d) w) (ancestors dir))
       (\<lambda>d. nd_canonicalize nd (candidate_in d) w)"
proof (induction nd dir w rule: search_binaries.induct)
  case (1 nd dir w)
  then show ?case
    by (subst search_binaries.simps, subst ancestors.simps) (simp split: option.split)
qed

definition cached_binaries :: "'w node_host \<Rightarrow> 'w \<Rightarrow> string option" where
  "cached_binaries nd w =
     (case nd_env nd ''STRATAMOTO_TEMPLATE_PROVIDER_CACHE'' w of
        Some configured \<Rightarrow> if nd_exists nd configured w then Some configured else None
      | None \<Rightarrow> (case nd_current_dir nd w of Inl e \<Rightarrow> None | Inr dir \<Rightarrow> search_binaries nd dir w))"

definition use_existing_binaries :: "'w node_host \<Rightarrow> 'w \<Rightarrow> (target_error + unit) \<times> 'w" where
  "use_existing_binaries nd w =
     (case nd_current_dir nd w of
        Inl (k, e) \<Rightarrow> (Inl (TargetIo k e), w)
      | Inr cwd \<Rightarrow>
          (let here = path_join cwd ''template-provider'' in
           if nd_exists nd here w then (Inr (), w)
           else case cached_binaries nd w of
             None \<Rightarrow> (Inr (), w)
           | Some cache \<Rightarrow>
               (case nd_symlink nd cache here w of
                  (Linked, w1) \<Rightarrow> (Inr (), w1)
                | (AlreadyExists, w1) \<Rightarrow> (Inr (), w1)
                | (LinkFailed k e, w1) \<Rightarrow> (Inl (TargetIo k e), w1))))"

text \<open>\<open>Node::start\<close> gives the node's data directory.\<close>

definition node_start :: "'w node_host \<Rightarrow> 'w \<Rightarrow> (target_error + string) \<times> 'w" where
  "node_start nd w =
     (case use_existing_binaries nd w of
        (Inl e, w1) \<Rightarrow> (Inl e, w1)
      | (Inr _, w1) \<Rightarrow>
          (case nd_start_core nd w1 of
             (data_dir, w2) \<Rightarrow> (Inr data_dir, nd_generate_blocks nd startup_blocks w2)))"

definition startup_error :: "string \<Rightarrow> (string + unit) \<times> 'w \<Rightarrow> (target_error + unit) \<times> 'w" where
  "startup_error what r = (case r of (Inl e, w) \<Rightarrow> (Inl (Startup (what @ e)), w) | (Inr _, w) \<Rightarrow> (Inr (), w))"

definition create_mempool_transaction :: "'w node_host \<Rightarrow> 'w \<Rightarrow> (target_error + unit) \<times> 'w" where
  "create_mempool_transaction nd w =
     startup_error ''could not create a mempool transaction: '' (nd_create_transaction nd w)"

definition fund_wallet :: "'w node_host \<Rightarrow> 'w \<Rightarrow> (target_error + unit) \<times> 'w" where
  "fund_wallet nd w = startup_error ''could not fund the wallet: '' (nd_fund_wallet nd w)"

section \<open>The deployment\<close>

text \<open>A node is stopped when the pool does not come up.\<close>

definition deployment_start_with ::
  "('k, 'l, 'w) host \<Rightarrow> 'w node_host \<Rightarrow> string \<Rightarrow> 'w \<Rightarrow> ((target_error + pool) \<times> 'w) option" where
  "deployment_start_with h nd binary w =
     (case node_start nd w of
        (Inl e, w1) \<Rightarrow> Some (Inl e, w1)
      | (Inr data_dir, w1) \<Rightarrow>
          (case start_pool h binary data_dir w1 of
             None \<Rightarrow> None
           | Some (Inl e, w2) \<Rightarrow> Some (Inl e, nd_stop nd w2)
           | Some (Inr pool, w2) \<Rightarrow> Some (Inr pool, w2)))"

definition deployment_start ::
  "('k, 'l, 'w) host \<Rightarrow> 'w node_host \<Rightarrow> 'w \<Rightarrow> ((target_error + pool) \<times> 'w) option" where
  "deployment_start h nd w =
     (case hs_env h ''STRATAMOTO_POOL'' w of
        None \<Rightarrow> Some (Inl (Startup ''STRATAMOTO_POOL does not name the pool binary to run''), w)
      | Some binary \<Rightarrow> deployment_start_with h nd binary w)"

definition kill_pool :: "('k, 'l, 'w) host \<Rightarrow> 'w \<Rightarrow> 'w" where
  "kill_pool h w = hs_kill h w"

section \<open>The runner\<close>

text \<open>What a local run reads and writes.\<close>

record 'w runner_io =
  ri_env :: "string \<Rightarrow> 'w \<Rightarrow> string option"
  ri_read :: "string \<Rightarrow> 'w \<Rightarrow> string + u8 list"
  ri_stdin :: "'w \<Rightarrow> u8 list"
  ri_write :: "string \<Rightarrow> u8 list \<Rightarrow> 'w \<Rightarrow> (string + unit) \<times> 'w"

text \<open>A file that cannot be read is no bytes; of the standard input, what came before an error stays.\<close>

definition local_fuzz_input :: "'w runner_io \<Rightarrow> 'w \<Rightarrow> u8 list" where
  "local_fuzz_input ri w =
     (case ri_env ri ''STRATAMOTO_INPUT'' w of
        Some path \<Rightarrow> (case ri_read ri path w of Inl e \<Rightarrow> [] | Inr bytes \<Rightarrow> bytes)
      | None \<Rightarrow> ri_stdin ri w)"

definition is_alnum :: "char \<Rightarrow> bool" where
  "is_alnum c \<longleftrightarrow> (CHR ''0'' \<le> c \<and> c \<le> CHR ''9'') \<or> (CHR ''A'' \<le> c \<and> c \<le> CHR ''Z'') \<or> (CHR ''a'' \<le> c \<and> c \<le> CHR ''z'')"

definition ascii_upper :: "char \<Rightarrow> char" where
  "ascii_upper c = (if CHR ''a'' \<le> c \<and> c \<le> CHR ''z'' then char_of (of_char c - 32 :: nat) else c)"

definition dump_variable :: "string \<Rightarrow> string" where
  "dump_variable name =
     map (\<lambda>c. if is_alnum c then c else CHR ''_'') (''STRATAMOTO_DUMP_'' @ map ascii_upper name)"

definition dump_to_host :: "'w runner_io \<Rightarrow> string \<Rightarrow> u8 list \<Rightarrow> 'w \<Rightarrow> 'w" where
  "dump_to_host ri name bytes w =
     (case ri_env ri (dump_variable name) w of
        None \<Rightarrow> w
      | Some path \<Rightarrow> snd (ri_write ri path bytes w))"

section \<open>The scenario\<close>

definition dump_context ::
  "'w runner_io \<Rightarrow> (program_context \<Rightarrow> string + u8 list) \<Rightarrow> program_context \<Rightarrow> 'w \<Rightarrow> 'w" where
  "dump_context ri context_to_bytes ctx w =
     (case context_to_bytes ctx of Inl e \<Rightarrow> w | Inr bytes \<Rightarrow> dump_to_host ri ''ir.context'' bytes w)"

definition pool_scenario_new ::
  "('k, 'l, 'w) host \<Rightarrow> 'w node_host \<Rightarrow> 'w runner_io \<Rightarrow> (program_context \<Rightarrow> string + u8 list) \<Rightarrow>
   ('l, 'w) deployment \<Rightarrow> string list \<Rightarrow> 'w \<Rightarrow> ((harness_error + ('l, 'w) deployment) \<times> 'w) option" where
  "pool_scenario_new h nd ri context_to_bytes base args w =
     (case (case get args 1 of
              Some binary \<Rightarrow> deployment_start_with h nd binary w
            | None \<Rightarrow> deployment_start h nd w) of
        None \<Rightarrow> None
      | Some (Inl e, w1) \<Rightarrow> Some (Inl (Target (target_error_display e)), w1)
      | Some (Inr pool, w1) \<Rightarrow>
          (let d = pool_deployment h pool base
           in Some (Inr d, dump_context ri context_to_bytes (pool_context d) w1)))"

text \<open>The binary, run locally: what it reports, its exit code, and the world once the scenario is there or
  has failed to be.\<close>

definition pool_scenario_main ::
  "('k, 'l, 'w) host \<Rightarrow> 'w node_host \<Rightarrow> 'w runner_io \<Rightarrow> (program_context \<Rightarrow> string + u8 list) \<Rightarrow>
   ('l, 'w) deployment \<Rightarrow> (oracle_failure \<Rightarrow> string) \<Rightarrow> codec \<Rightarrow> (u8 list \<Rightarrow> string + program) \<Rightarrow>
   string list \<Rightarrow> 'w \<Rightarrow> ((unit, report \<times> nat) outcome \<times> 'w) option" where
  "pool_scenario_main h nd ri context_to_bytes base render cd from_bytes args w =
     (case pool_scenario_new h nd ri context_to_bytes base args w of
        None \<Rightarrow> None
      | Some (started, w1) \<Rightarrow>
          (case scenario_main render (case started of Inl e \<Rightarrow> Inl e | Inr d \<Rightarrow> Inr (d, w1)) cd from_bytes
                  (local_fuzz_input ri w1) of
             None \<Rightarrow> None
           | Some r \<Rightarrow> Some (r, w1)))"

section \<open>Bringing the pool up\<close>

text \<open>Running the node starts no pool.\<close>

definition helpers_ok :: "'w node_host \<Rightarrow> ('w \<Rightarrow> bool) \<Rightarrow> bool" where
  "helpers_ok nd running \<longleftrightarrow>
     (\<forall>a b w. running (snd (nd_symlink nd a b w)) \<longrightarrow> running w) \<and>
     (\<forall>w. running (snd (nd_start_core nd w)) \<longrightarrow> running w) \<and>
     (\<forall>n w. running (nd_generate_blocks nd n w) \<longrightarrow> running w) \<and>
     (\<forall>w. running (nd_stop nd w) \<longrightarrow> running w)"

lemma helpers_okD:
  assumes "helpers_ok nd running" and "\<not> running w"
  shows "nd_symlink nd a b w = (r, w1) \<Longrightarrow> \<not> running w1"
    and "nd_start_core nd w = (dir, w1) \<Longrightarrow> \<not> running w1"
    and "\<not> running (nd_generate_blocks nd n w)"
    and "\<not> running (nd_stop nd w)"
  using assms unfolding helpers_ok_def by (metis snd_conv)+

lemma use_existing_binaries_starts_nothing:
  assumes "helpers_ok nd running" and "\<not> running w"
    and "use_existing_binaries nd w = (r, w1)"
  shows "\<not> running w1"
  using assms(2, 3) helpers_okD(1) [OF assms(1, 2)]
  by (auto simp: use_existing_binaries_def Let_def
      split: sum.splits prod.splits if_splits option.splits link_result.splits)

lemma node_start_starts_nothing:
  assumes "helpers_ok nd running" and "\<not> running w" and "node_start nd w = (r, w')"
  shows "\<not> running w'"
proof -
  obtain found w1 where u: "use_existing_binaries nd w = (found, w1)" by fastforce
  note n1 = use_existing_binaries_starts_nothing [OF assms(1, 2) u]
  obtain dir w2 where c: "nd_start_core nd w1 = (dir, w2)" by fastforce
  note n2 = helpers_okD(2) [OF assms(1) n1 c]
  show ?thesis
    using assms(3) u c n1 helpers_okD(3) [OF assms(1) n2]
    by (auto simp: node_start_def split: sum.splits)
qed

lemma deployment_start_with_ends_clean:
  assumes "clock_ok h time" and "process_ok h running" and "helpers_ok nd running" and "\<not> running w"
  shows "ends_clean running (deployment_start_with h nd binary w)"
proof -
  obtain r w1 where n: "node_start nd w = (r, w1)" by fastforce
  note none = node_start_starts_nothing [OF assms(3, 4) n]
  show ?thesis
  proof (cases r)
    case (Inl e)
    with n none show ?thesis by (simp add: deployment_start_with_def ends_clean_def)
  next
    case (Inr dir)
    obtain s w2 where s: "start_pool h binary dir w1 = Some (s, w2)" "\<And>e. s = Inl e \<Longrightarrow> \<not> running w2"
      using start_pool_ends_clean [OF assms(1, 2) none] unfolding ends_clean_def by blast
    show ?thesis
      using n Inr s helpers_okD(4) [OF assms(3)]
      by (cases s) (auto simp: deployment_start_with_def ends_clean_def)
  qed
qed

lemma pool_scenario_new_ends:
  assumes "clock_ok h time" and "process_ok h running" and "helpers_ok nd running" and "\<not> running w"
  obtains (failed) e w1 where "pool_scenario_new h nd ri enc base args w = Some (Inl e, w1)" "\<not> running w1"
  | (up) pool w1 where "pool_scenario_new h nd ri enc base args w = Some (Inr (pool_deployment h pool base), w1)"
proof -
  let ?start = "case get args 1 of Some binary \<Rightarrow> deployment_start_with h nd binary w
    | None \<Rightarrow> deployment_start h nd w"
  have "ends_clean running ?start"
    using deployment_start_with_ends_clean [OF assms] assms(4)
    by (auto simp: deployment_start_def ends_clean_def split: option.split)
  then obtain r w1 where s: "?start = Some (r, w1)" "\<And>e. r = Inl e \<Longrightarrow> \<not> running w1"
    unfolding ends_clean_def by blast
  show thesis
  proof (cases r)
    case (Inl e)
    with s failed show thesis by (simp add: pool_scenario_new_def)
  next
    case (Inr pool)
    with s(1) show thesis by (auto simp: pool_scenario_new_def Let_def intro: up)
  qed
qed

lemma drains_pool: "drains base backlog \<Longrightarrow> drains (pool_deployment h pool base) backlog"
  by (simp add: drains_def pool_deployment_def)

lemma roles_configured_pool: "roles_configured (pool_deployment h pool base)"
  by (simp add: roles_configured_def pool_deployment_def pool_roles_def get_def)

lemma scenario_main_code:
  assumes "codec_ok cd" and "drains d backlog" and "roles_configured d"
    and "decode_case from_bytes cd bytes \<noteq> Panic"
  shows "\<exists>rep code. scenario_main render (Inr (d, w)) cd from_bytes bytes = Some (Ok (rep, code)) \<and> code \<le> 1"
proof -
  obtain rep code where r: "scenario_main render (Inr (d, w)) cd from_bytes bytes = Some (Ok (rep, code))"
    and c: "case decode_case from_bytes cd bytes of
       Ok q \<Rightarrow>
         (if dep_num_roles d < num_roles (comp_context q) then rep = ReportedSkip \<and> code = 0
          else \<exists>ex w'. run d q w = Some (Ok ex, w') \<and>
            (if (\<exists>j. unanswered d q ex j) \<or> \<not> dep_is_alive d w'
             then code = 1 \<and> (\<exists>text. rep = Reported text) else code = 0 \<and> rep = NoReport))
     | _ \<Rightarrow> rep = ReportedSkip \<and> code = 0"
    using scenario_main_result [OF assms] by blast
  have "code \<le> 1"
  proof (cases "decode_case from_bytes cd bytes")
    case (Ok q)
    with c show ?thesis by (simp split: if_split_asm) auto
  qed (use c in auto)
  with r show ?thesis by blast
qed

section \<open>Properties\<close>


definition plain_node :: "(nat \<times> bool) node_host" where
  "plain_node =
     \<lparr>nd_current_dir = (\<lambda>w. Inr ''/work''), nd_exists = (\<lambda>p w. False), nd_env = (\<lambda>v w. None),
      nd_canonicalize = (\<lambda>p w. Some p), nd_symlink = (\<lambda>a b w. (Linked, w)),
      nd_start_core = (\<lambda>w. (''/tmp/node'', w)), nd_generate_blocks = (\<lambda>n w. w),
      nd_create_transaction = (\<lambda>w. (Inr (), w)), nd_fund_wallet = (\<lambda>w. (Inr (), w)), nd_stop = (\<lambda>w. w)\<rparr>"

definition plain_io :: "'w runner_io" where
  "plain_io = \<lparr>ri_env = (\<lambda>v w. None), ri_read = (\<lambda>p w. Inl ''not found''), ri_stdin = (\<lambda>w. []),
     ri_write = (\<lambda>p b w. (Inr (), w))\<rparr>"


text \<open>An input file that cannot be read is a skipped test case, with the exit code of a pass, when no
  program is encoded by no bytes.\<close>

lemma unreadable_input_is_skipped:
  assumes "ri_env ri ''STRATAMOTO_INPUT'' w1 = Some path" and "ri_read ri path w1 = Inl e"
    and "from_bytes [] = Inl why"
    and "pool_scenario_new h nd ri enc base args w = Some (Inr d, w1)"
  shows "pool_scenario_main h nd ri enc base render cd from_bytes args w = Some (Ok (ReportedSkip, 0), w1)"
  using assms by (simp add: pool_scenario_main_def scenario_main_def local_fuzz_input_def decode_case_def)

end
