(* ===== verification/Status_Line.thy ===== *)
theory Status_Line
  imports Filing Texts
begin

text \<open>
  The fuzzer's monitor (\<open>stratamoto-libafl/src/monitor.rs\<close>): which events print a line, and what the
  line says. The statistics are libafl's and a parameter, with the times and rates it has written
  out; strings are bytes, so the pictures are written in UTF-8.
\<close>

section \<open>The statistics\<close>

record global_stats =
  gs_total_execs :: nat
  gs_corpus_size :: nat
  gs_objective_size :: nat
  gs_subsec_nanos :: nat
  gs_run_time_pretty :: string
  gs_client_stats_count :: nat
  gs_execs_per_sec_pretty :: string
  gs_aggregated :: "string \<rightharpoonup> string"

record global_monitor =
  mo_total_execs :: nat
  mo_corpus_size :: nat

definition new_monitor :: global_monitor where
  "new_monitor = \<lparr>mo_total_execs = 0, mo_corpus_size = 0\<rparr>"

section \<open>The line\<close>

definition stat :: "global_stats \<Rightarrow> string \<Rightarrow> string \<Rightarrow> string" where
  "stat g name absent = (case gs_aggregated g name of None \<Rightarrow> absent | Some v \<Rightarrow> v)"

definition shown_causes :: "global_stats \<Rightarrow> (string \<times> string) list" where
  "shown_causes g =
     filter (\<lambda>(cause, n). n \<noteq> ''0'') (map (\<lambda>cause. (cause, stat g cause ''0'')) monitor_causes)"

definition picture :: "nat list \<Rightarrow> string" where "picture = map char_of"

definition chart :: string where "chart = picture [0xF0, 0x9F, 0x93, 0x8A]"
definition growing_heart :: string where "growing_heart = picture [0xF0, 0x9F, 0x92, 0x97]"
definition beating_heart :: string where "beating_heart = picture [0xF0, 0x9F, 0x92, 0x93]"

definition bug_pictures :: "string list" where
  "bug_pictures = map picture
     [[0xF0, 0x9F, 0xAA, 0xB2], [0xF0, 0x9F, 0x90, 0x9B], [0xF0, 0x9F, 0x90, 0x9E],
      [0xF0, 0x9F, 0xAA, 0xB0], [0xF0, 0x9F, 0xA6, 0x97], [0xF0, 0x9F, 0xA6, 0x8B]]"

definition has_progress :: "global_stats \<Rightarrow> global_monitor \<Rightarrow> bool" where
  "has_progress g m \<longleftrightarrow>
     gs_total_execs g = 0 \<or> mo_total_execs m < gs_total_execs g \<or> mo_corpus_size m < gs_corpus_size g"

text \<open>What the line starts with, if there is one, and the monitor after.\<close>

definition shown_event :: "global_stats \<Rightarrow> string \<Rightarrow> global_monitor \<Rightarrow> string option \<times> global_monitor" where
  "shown_event g event_msg m =
     (if event_msg = ''UserStats'' then
        (if has_progress g m
         then (Some chart, m\<lparr>mo_total_execs := max (gs_total_execs g) 1, mo_corpus_size := gs_corpus_size g\<rparr>)
         else (None, m))
      else if event_msg = ''Client Heartbeat'' then (Some growing_heart, m)
      else if event_msg = ''Broker Heartbeat'' then (Some beating_heart, m)
      else if event_msg = ''Objective'' then
        (Some (bug_pictures ! (gs_subsec_nanos g mod length bug_pictures)), m)
      else if event_msg = ''Testcase'' then (None, m)
      else (Some event_msg, m))"

fun join_texts :: "string \<Rightarrow> string list \<Rightarrow> string" where
  "join_texts sep [] = []"
| "join_texts sep [t] = t"
| "join_texts sep (t # u # rest) = t @ sep @ join_texts sep (u # rest)"

definition bugs_text :: "global_stats \<Rightarrow> string" where
  "bugs_text g =
     (if 0 < gs_objective_size g \<and> shown_causes g \<noteq> []
      then ''bugs: '' @ decimal (gs_objective_size g) @ '' ('' @
           join_texts '', '' (map (\<lambda>(cause, n). n @ '' '' @ cause) (shown_causes g)) @ '')''
      else ''bugs: '' @ decimal (gs_objective_size g))"

definition status_line :: "global_stats \<Rightarrow> string \<Rightarrow> string" where
  "status_line g event =
     event @ '' time: '' @ gs_run_time_pretty g @ '' (x'' @ decimal (gs_client_stats_count g) @
     '') execs: '' @ decimal (gs_total_execs g) @ '' cov: '' @ stat g ''trace'' ''0%'' @
     '' corpus: '' @ decimal (gs_corpus_size g) @ '' exec/sec: '' @ gs_execs_per_sec_pretty g @
     '' stability: '' @ stat g ''stability'' ''100%'' @ '' '' @ bugs_text g"

text \<open>The lines an event prints.\<close>

definition monitor_display :: "global_stats \<Rightarrow> string \<Rightarrow> global_monitor \<Rightarrow> string list \<times> global_monitor" where
  "monitor_display g event_msg m =
     (case shown_event g event_msg m of
        (None, m1) \<Rightarrow> ([], m1)
      | (Some event, m1) \<Rightarrow> ([status_line g event], m1))"

fun monitor_run :: "(global_stats \<times> string) list \<Rightarrow> global_monitor \<Rightarrow> string list \<times> global_monitor" where
  "monitor_run [] m = ([], m)"
| "monitor_run ((g, event_msg) # rest) m =
     (let (ls, m1) = monitor_display g event_msg m; (ls2, m2) = monitor_run rest m1 in (ls @ ls2, m2))"

section \<open>When a line is printed\<close>

lemma monitor_display_lines:
  "fst (monitor_display g event_msg m) = [] \<longleftrightarrow>
     event_msg = ''Testcase'' \<or> event_msg = ''UserStats'' \<and> \<not> has_progress g m"
  by (simp add: monitor_display_def shown_event_def)

lemma bug_picture_exists: "gs_subsec_nanos g mod length bug_pictures < length bug_pictures"
  by (simp add: bug_pictures_def)

lemma stats_seen:
  assumes "0 < gs_total_execs g"
  shows "\<not> has_progress g (snd (monitor_display g ''UserStats'' m))"
  using assms by (auto simp: monitor_display_def shown_event_def has_progress_def split: prod.splits)

lemma stats_again:
  assumes "\<not> has_progress g m"
  shows "monitor_run (replicate n (g, ''UserStats'')) m = ([], m)"
  using assms by (induction n) (simp_all add: monitor_display_def shown_event_def)

section \<open>Properties\<close>

text \<open>While nothing happens the monitor is quiet: however often the same statistics of a campaign that
  has run are reported, at most one line is printed, and it is printed first.\<close>

theorem unchanged_stats_print_once:
  assumes "0 < gs_total_execs g"
  shows "fst (monitor_run (replicate n (g, ''UserStats'')) m) =
    (if 0 < n \<and> has_progress g m then [status_line g chart] else [])"
proof (cases n)
  case (Suc k)
  obtain ls m1 where d: "monitor_display g ''UserStats'' m = (ls, m1)" by fastforce
  with stats_seen [OF assms, of m] stats_again have "monitor_run (replicate k (g, ''UserStats'')) m1 = ([], m1)"
    by simp
  with d Suc show ?thesis by (auto simp: monitor_display_def shown_event_def split: if_splits)
qed simp

theorem unchanged_stats_print_once_witness:
  "length (fst (monitor_run (replicate 9
     (\<lparr>gs_total_execs = 5, gs_corpus_size = 1, gs_objective_size = 0, gs_subsec_nanos = 0,
       gs_run_time_pretty = ''1s'', gs_client_stats_count = 1, gs_execs_per_sec_pretty = ''5'',
       gs_aggregated = Map.empty\<rparr>, ''UserStats'')) new_monitor)) = 1"
  by (subst unchanged_stats_print_once) (simp_all add: has_progress_def new_monitor_def)

end
