(* ===== verification/Noise_Transport.thy ===== *)
theory Noise_Transport
  imports Frame
begin

text \<open>
  Frames over an encrypted socket (\<open>NoiseTransport\<close> of \<open>noise.rs\<close>): receiving one in chunks,
  with what was read kept across a receive that timed out, and sending one. The decoder, the
  encoder and their encryption states are the codec library's and the socket is the operating
  system's: records of functions. A decoder asks for a number of bytes, takes them, and then
  makes a frame of them or asks for more.
\<close>

section \<open>The library and the socket\<close>

type_synonym io_error = "io_kind \<times> string"

record ('d, 'e, 's) frame_codec =
  writable_len :: "'d \<Rightarrow> nat"
  fill_writable :: "'d \<Rightarrow> u8 list \<Rightarrow> 'd"
  next_transport_frame :: "'d \<Rightarrow> 's \<Rightarrow> (string + u8 list option \<times> 's) \<times> 'd"
  frame_of_bytes :: "u8 list \<Rightarrow> wire_frame option"
  serialized_frame :: "u8 list \<Rightarrow> u8 list option"
  encode_transport :: "u8 list \<Rightarrow> 'e \<Rightarrow> (string + u8 list) \<times> 'e"

record 'w socket =
  sk_read :: "nat \<Rightarrow> 'w \<Rightarrow> (io_error + u8 list) \<times> 'w"
  sk_write_all :: "u8 list \<Rightarrow> 'w \<Rightarrow> (io_error + unit) \<times> 'w"
  sk_read_timeout :: "'w \<Rightarrow> (io_error + duration option) \<times> 'w"
  sk_set_read_timeout :: "duration option \<Rightarrow> 'w \<Rightarrow> (io_error + unit) \<times> 'w"

text \<open>\<open>Frame::from_bytes\<close> (\<open>frame.rs\<close>); which bytes are one frame is the library's.\<close>

definition frame_from_bytes ::
  "('d, 'e, 's) frame_codec \<Rightarrow> u8 list \<Rightarrow> (harness_error, wire_frame) outcome" where
  "frame_from_bytes c bytes =
     (case frame_of_bytes c bytes of
        None \<Rightarrow> Err (Framing ''bytes do not hold exactly one frame'')
      | Some f \<Rightarrow> Ok f)"

section \<open>The transport\<close>

text \<open>\<open>nt_decrypt\<close> is taken for a decode, and stays gone when it fails.\<close>

record ('d, 'e, 's) noise_transport =
  nt_decoder :: 'd
  nt_encrypt :: 'e
  nt_decrypt :: "'s option"
  nt_pending :: "u8 list"
  nt_filled :: nat

definition from_transport :: "'d \<Rightarrow> 'e \<times> 's \<Rightarrow> ('d, 'e, 's) noise_transport" where
  "from_transport decoder transport =
     \<lparr>nt_decoder = decoder, nt_encrypt = fst transport, nt_decrypt = Some (snd transport),
      nt_pending = [], nt_filled = 0\<rparr>"

text \<open>The loop that fills \<open>pending\<close>; a read yields at most what it was asked for.\<close>

function fill_pending ::
  "'w socket \<Rightarrow> u8 list \<Rightarrow> nat \<Rightarrow> 'w \<Rightarrow> (io_error + unit) \<times> u8 list \<times> nat \<times> 'w" where
  "fill_pending sk pending filled w =
     (if filled < length pending then
        (case sk_read sk (length pending - filled) w of
           (Inl e, w1) \<Rightarrow> (Inl e, pending, filled, w1)
         | (Inr bytes, w1) \<Rightarrow>
             let got = take (length pending - filled) bytes in
             if got = [] then (Inl (UnexpectedEof, ''unexpected end of file''), pending, filled, w1)
             else fill_pending sk (take filled pending @ got @ drop (filled + length got) pending)
                    (filled + length got) w1)
      else (Inr (), pending, filled, w))"
  by pat_completeness auto

termination
proof (relation "measure (\<lambda>(sk, pending, filled, w). length pending - filled)")
  fix sk :: "'w socket" and pending bytes got :: "u8 list" and filled :: nat and w r w1
  assume less: "filled < length pending" "got = take (length pending - filled) bytes" "got \<noteq> []"
  then have "0 < length got" "length got \<le> length pending - filled" by auto
  with less(1) show "((sk, take filled pending @ got @ drop (filled + length got) pending, filled + length got, w1),
      (sk, pending, filled, w)) \<in> measure (\<lambda>(sk, pending, filled, w). length pending - filled)"
    by (simp del: length_greater_0_conv)
qed simp

declare fill_pending.simps [simp del]

text \<open>\<open>Vec::resize\<close>, and the buffer the next chunk goes to.\<close>

definition resize_bytes :: "nat \<Rightarrow> u8 list \<Rightarrow> u8 list" where
  "resize_bytes n bs = take n bs @ replicate (n - length bs) 0"

definition ready_pending ::
  "('d, 'e, 's) frame_codec \<Rightarrow> ('d, 'e, 's) noise_transport \<Rightarrow> u8 list \<times> nat" where
  "ready_pending c nt =
     (let expected = writable_len c (nt_decoder nt) in
      if length (nt_pending nt) \<noteq> expected then (resize_bytes expected (nt_pending nt), 0)
      else (nt_pending nt, nt_filled nt))"

text \<open>What follows a full chunk: a result, or another round.\<close>

definition decode_chunk ::
  "('d, 'e, 's) frame_codec \<Rightarrow> u8 list \<Rightarrow> ('d, 'e, 's) noise_transport \<Rightarrow>
   (harness_error, wire_frame) outcome option \<times> ('d, 'e, 's) noise_transport" where
  "decode_chunk c pending nt =
     (let dec = fill_writable c (nt_decoder nt) pending;
          nt1 = nt\<lparr>nt_decoder := dec, nt_pending := pending, nt_filled := 0\<rparr>
      in case nt_decrypt nt of
           None \<Rightarrow> (Some (Err (Noise ''a decryption failed earlier on this connection'')), nt1)
         | Some st \<Rightarrow>
             (case next_transport_frame c dec st of
                (Inl e, dec') \<Rightarrow> (Some (Err (Codec e)), nt1\<lparr>nt_decoder := dec', nt_decrypt := None\<rparr>)
              | (Inr (Some bytes, st'), dec') \<Rightarrow>
                  (Some (frame_from_bytes c bytes), nt1\<lparr>nt_decoder := dec', nt_decrypt := Some st'\<rparr>)
              | (Inr (None, st'), dec') \<Rightarrow> (None, nt1\<lparr>nt_decoder := dec', nt_decrypt := Some st'\<rparr>)))"

partial_function (option) read_frame ::
  "('d, 'e, 's) frame_codec \<Rightarrow> 'w socket \<Rightarrow> ('d, 'e, 's) noise_transport \<Rightarrow> 'w \<Rightarrow>
   ((harness_error, wire_frame) outcome \<times> ('d, 'e, 's) noise_transport \<times> 'w) option" where
  "read_frame c sk nt w =
     (case fill_pending sk (fst (ready_pending c nt)) (snd (ready_pending c nt)) w of
        (r, pending, filled, w1) \<Rightarrow>
          (case r of
             Inl (k, e) \<Rightarrow> Some (Err (IoError k e), nt\<lparr>nt_pending := pending, nt_filled := filled\<rparr>, w1)
           | Inr _ \<Rightarrow>
               (case decode_chunk c pending nt of
                  (res, nt1) \<Rightarrow>
                    (case res of
                       Some frame \<Rightarrow> Some (frame, nt1, w1)
                     | None \<Rightarrow> read_frame c sk nt1 w1))))"

section \<open>Sending and receiving\<close>

definition noise_send ::
  "('d, 'e, 's) frame_codec \<Rightarrow> 'w socket \<Rightarrow> u16 \<Rightarrow> u8 \<Rightarrow> bool \<Rightarrow> u8 list \<Rightarrow>
   ('d, 'e, 's) noise_transport \<Rightarrow> 'w \<Rightarrow>
   (harness_error, unit) outcome \<times> ('d, 'e, 's) noise_transport \<times> 'w" where
  "noise_send c sk ext mt chan payload nt w =
     (case assemble ext mt chan payload of
        Panic \<Rightarrow> (Panic, nt, w)
      | Err e \<Rightarrow> (Err e, nt, w)
      | Ok bytes \<Rightarrow>
          (case serialized_frame c bytes of
             None \<Rightarrow> (Err (Framing ''could not frame the payload''), nt, w)
           | Some frame \<Rightarrow>
               (case encode_transport c frame (nt_encrypt nt) of
                  (Inl e, enc) \<Rightarrow> (Err (Codec e), nt\<lparr>nt_encrypt := enc\<rparr>, w)
                | (Inr encoded, enc) \<Rightarrow>
                    (case sk_write_all sk encoded w of
                       (Inl (k, e), w1) \<Rightarrow> (Err (IoError k e), nt\<lparr>nt_encrypt := enc\<rparr>, w1)
                     | (Inr _, w1) \<Rightarrow> (Ok (), nt\<lparr>nt_encrypt := enc\<rparr>, w1)))))"

fun timed_out :: "(harness_error, wire_frame) outcome \<Rightarrow> (harness_error, wire_frame) outcome" where
  "timed_out (Err (IoError k e)) =
     (if k = WouldBlock \<or> k = IoTimedOut then Err Timeout else Err (IoError k e))"
| "timed_out r = r"

text \<open>\<open>recv\<close>: the socket's own timeout is put back before the result is looked at. The shortest
  wait a socket takes is a millisecond.\<close>

definition noise_recv ::
  "('d, 'e, 's) frame_codec \<Rightarrow> 'w socket \<Rightarrow> duration \<Rightarrow> ('d, 'e, 's) noise_transport \<Rightarrow> 'w \<Rightarrow>
   ((harness_error, wire_frame) outcome \<times> ('d, 'e, 's) noise_transport \<times> 'w) option" where
  "noise_recv c sk timeout nt w =
     (case sk_read_timeout sk w of
        (Inl (k, e), w1) \<Rightarrow> Some (Err (IoError k e), nt, w1)
      | (Inr previous, w1) \<Rightarrow>
          (case sk_set_read_timeout sk (Some (max timeout nanos_per_milli)) w1 of
             (Inl (k, e), w2) \<Rightarrow> Some (Err (IoError k e), nt, w2)
           | (Inr _, w2) \<Rightarrow>
               (case read_frame c sk nt w2 of
                  None \<Rightarrow> None
                | Some (res, nt1, w3) \<Rightarrow>
                    (case sk_set_read_timeout sk previous w3 of
                       (Inl (k, e), w4) \<Rightarrow> Some (Err (IoError k e), nt1, w4)
                     | (Inr _, w4) \<Rightarrow> Some (timed_out res, nt1, w4)))))"

section \<open>A socket whose bytes arrive in pieces\<close>

text \<open>Chunks of bytes, and waits that run out, in the order in which they come; when all have come,
  every wait runs out.\<close>

datatype arrival = Chunk "u8 list" | Nothing

fun arrive :: "nat \<Rightarrow> arrival list \<Rightarrow> (io_error + u8 list) \<times> arrival list" where
  "arrive n [] = (Inl (WouldBlock, []), [])"
| "arrive n (Nothing # w) = (Inl (WouldBlock, []), w)"
| "arrive n (Chunk bs # w) = (Inr (take n bs), if n < length bs then Chunk (drop n bs) # w else w)"

definition arrivals :: "arrival list socket" where
  "arrivals =
     \<lparr>sk_read = arrive, sk_write_all = (\<lambda>_ w. (Inr (), w)), sk_read_timeout = (\<lambda>w. (Inr None, w)),
      sk_set_read_timeout = (\<lambda>_ w. (Inr (), w))\<rparr>"

definition chunks :: "arrival list \<Rightarrow> arrival list" where
  "chunks = filter (\<lambda>a. a \<noteq> Nothing)"

lemma sk_read_arrivals [simp]: "sk_read arrivals = arrive"
  by (simp add: arrivals_def)

lemma chunks_simps [simp]:
  "chunks [] = []" "chunks (Nothing # w) = chunks w" "chunks (Chunk bs # w) = Chunk bs # chunks w"
  by (simp_all add: chunks_def)

lemma filled_shorter:
  assumes "filled < length pending" and "got \<noteq> []" and "length got \<le> length pending - filled"
  shows "length (take filled pending @ got @ drop (filled + length got) pending) = length pending"
    and "length pending - (filled + length got) < length pending - filled"
  using assms by (simp, cases got) simp_all

text \<open>Filling through waits that run out either gives what it gives without them, or is cut short
  at one and can be taken up again.\<close>

lemma fill_pending_cut:
  assumes "fill_pending arrivals pending filled (chunks w) = (r, p1, f1, v1)"
    and "\<forall>k e. r = Inl (k, e) \<longrightarrow> k \<noteq> WouldBlock"
  shows "(\<exists>w1. fill_pending arrivals pending filled w = (r, p1, f1, w1) \<and> chunks w1 = v1 \<and>
       length w1 \<le> length w) \<or>
    (\<exists>p2 f2 w2. fill_pending arrivals pending filled w = (Inl (WouldBlock, []), p2, f2, w2) \<and>
       length p2 = length pending \<and> length w2 < length w \<and>
       fill_pending arrivals p2 f2 (chunks w2) = (r, p1, f1, v1))"
  using assms
proof (induction "length pending - filled" arbitrary: pending filled w rule: less_induct)
  case (less pending filled w)
  show ?case
  proof (cases "filled < length pending")
    case False
    with less.prems show ?thesis by (auto simp: fill_pending.simps)
  next
    case True
    let ?n = "length pending - filled"
    show ?thesis
    proof (cases w)
      case Nil
      with True less.prems show ?thesis by (simp add: fill_pending.simps)
    next
      case (Cons a u)
      show ?thesis
      proof (cases a)
        case Nothing
        with Cons True have "fill_pending arrivals pending filled w = (Inl (WouldBlock, []), pending, filled, u)"
          by (simp add: fill_pending.simps [of _ pending])
        with Cons Nothing less.prems(1) show ?thesis by simp
      next
        case (Chunk bs)
        let ?got = "take ?n bs"
        let ?u = "if ?n < length bs then Chunk (drop ?n bs) # u else u"
        let ?p = "take filled pending @ ?got @ drop (filled + length ?got) pending"
        have u: "chunks ?u = (if ?n < length bs then Chunk (drop ?n bs) # chunks u else chunks u)" by simp
        show ?thesis
        proof (cases "?got = []")
          case empty: True
          with True have "bs = []" by auto
          with True have "fill_pending arrivals pending filled (Chunk bs # v) =
              (Inl (UnexpectedEof, ''unexpected end of file''), pending, filled, v)" for v
            by (simp add: fill_pending.simps [of _ pending])
          with Cons Chunk less.prems(1) show ?thesis by auto
        next
          case False
          have "length ?got \<le> ?n" by simp
          note shorter = filled_shorter [OF True False this]
          have go: "fill_pending arrivals pending filled v =
              fill_pending arrivals ?p (filled + length ?got) v'"
            if "arrive ?n v = (Inr ?got, v')" for v v'
            using that True False by (simp add: fill_pending.simps [of _ pending] Let_def)
          have steps: "fill_pending arrivals pending filled w = fill_pending arrivals ?p (filled + length ?got) ?u"
            "fill_pending arrivals pending filled (chunks w) = fill_pending arrivals ?p (filled + length ?got) (chunks ?u)"
            by (rule go, simp add: Cons Chunk)+
          have "length ?u \<le> length w" using Cons by simp
          moreover have "length ?p - (filled + length ?got) < ?n" unfolding shorter(1) by (rule shorter(2))
          note less.hyps [OF this less.prems(1) [unfolded steps(2)] less.prems(2)]
          ultimately show ?thesis unfolding steps(1) shorter(1) by (elim disjE exE conjE) (blast intro: le_trans less_le_trans)+
        qed
      qed
    qed
  qed
qed

lemma ready_pending_again:
  "length p = length (fst (ready_pending c nt)) \<Longrightarrow>
   ready_pending c (nt\<lparr>nt_pending := p, nt_filled := f\<rparr>) = (p, f)"
  by (auto simp: ready_pending_def resize_bytes_def Let_def split: if_splits)

lemma decode_chunk_again [simp]:
  "decode_chunk c p (nt\<lparr>nt_pending := q, nt_filled := f\<rparr>) = decode_chunk c p nt"
  by (simp add: decode_chunk_def Let_def split: option.splits sum.splits prod.splits)

lemma read_frame_cut:
  fixes c :: "('d, 'e, 's) frame_codec"
  assumes "read_frame c arrivals nt (chunks w) = Some (r, nt1, v1)"
    and "\<forall>e. r \<noteq> Err (IoError WouldBlock e)"
  shows "(\<exists>w1. read_frame c arrivals nt w = Some (r, nt1, w1) \<and> chunks w1 = v1) \<or>
    (\<exists>nt2 w2. read_frame c arrivals nt w = Some (Err (IoError WouldBlock []), nt2, w2) \<and>
       length w2 < length w \<and> read_frame c arrivals nt2 (chunks w2) = Some (r, nt1, v1))"
proof -
  let ?cut = "\<lambda>c nt w r nt1 v1.
    (\<exists>w1. read_frame c arrivals nt w = Some (r, nt1, w1) \<and> chunks w1 = v1) \<or>
    (\<exists>nt2 w2. read_frame c arrivals nt w = Some (Err (IoError WouldBlock []), nt2, w2) \<and>
       length w2 < length w \<and> read_frame c arrivals nt2 (chunks w2) = Some (r, nt1, v1))"
  let ?P = "\<lambda>(c :: ('d, 'e, 's) frame_codec) sk nt v (r, nt1, v1). sk = arrivals \<longrightarrow>
    (\<forall>e. r \<noteq> Err (IoError WouldBlock e)) \<longrightarrow> read_frame c arrivals nt v = Some (r, nt1, v1) \<and>
      (\<forall>w. v = chunks w \<longrightarrow> ?cut c nt w r nt1 v1)"
  have "?P c arrivals nt (chunks w) (r, nt1, v1)"
  proof (rule read_frame.raw_induct [where P = ?P, OF _ assms(1)])
    fix again :: "('d, 'e, 's) frame_codec \<Rightarrow> arrival list socket \<Rightarrow> ('d, 'e, 's) noise_transport \<Rightarrow>
        arrival list \<Rightarrow> ((harness_error, wire_frame) outcome \<times> ('d, 'e, 's) noise_transport \<times> arrival list) option"
      and c :: "('d, 'e, 's) frame_codec" and sk nt v y
    assume IH: "\<And>c sk nt v y. again c sk nt v = Some y \<Longrightarrow> ?P c sk nt v y"
      and eq: "(case fill_pending sk (fst (ready_pending c nt)) (snd (ready_pending c nt)) v of
        (r, pending, filled, w1) \<Rightarrow>
          (case r of
             Inl (k, e) \<Rightarrow> Some (Err (IoError k e), nt\<lparr>nt_pending := pending, nt_filled := filled\<rparr>, w1)
           | Inr _ \<Rightarrow>
               (case decode_chunk c pending nt of
                  (res, nt1) \<Rightarrow>
                    (case res of
                       Some frame \<Rightarrow> Some (frame, nt1, w1)
                     | None \<Rightarrow> again c sk nt1 w1)))) = Some y"
    obtain r nt1 v1 where y: "y = (r, nt1, v1)" by (cases y) auto
    show "?P c sk nt v y"
      unfolding y prod.case
    proof (intro impI)
      assume sk: "sk = arrivals" and fine: "\<forall>e. r \<noteq> Err (IoError WouldBlock e)"
      let ?p = "fst (ready_pending c nt)" and ?f = "snd (ready_pending c nt)"
      obtain q p1 f1 u1 where fill: "fill_pending arrivals ?p ?f v = (q, p1, f1, u1)"
        by (metis prod_cases4)
      obtain res nt2 where dec: "decode_chunk c p1 nt = (res, nt2)" by fastforce
      note eq' = eq [unfolded y sk fill prod.case dec]
      have rest: "read_frame c arrivals nt2 u1 = Some (r, nt1, v1)"
        "\<And>w. u1 = chunks w \<Longrightarrow> ?cut c nt2 w r nt1 v1" if "q = Inr ()" "res = None"
        using IH [of c arrivals nt2 u1 "(r, nt1, v1)"] that eq' fine by auto
      have whole: "read_frame c arrivals nt v = Some (r, nt1, v1)"
        using eq' rest(1) fill dec
        by (subst read_frame.simps) (auto split: sum.splits option.splits)
      have "?cut c nt w r nt1 v1" if v: "v = chunks w" for w
      proof -
        have "\<forall>k e. q = Inl (k, e) \<longrightarrow> k \<noteq> WouldBlock" using eq' fine by auto
        from fill_pending_cut [OF fill [unfolded v] this] show ?thesis
        proof (elim disjE exE conjE)
          fix w1 assume w1: "fill_pending arrivals ?p ?f w = (q, p1, f1, w1)" "chunks w1 = u1"
            "length w1 \<le> length w"
          show ?thesis
          proof (cases "q = Inr () \<and> res = None")
            case True
            with w1(1) dec have "read_frame c arrivals nt w = read_frame c arrivals nt2 w1"
              by (simp add: read_frame.simps [of c arrivals nt w])
            with rest(2) [OF _ _ w1(2) [symmetric]] True w1(3) show ?thesis by fastforce
          next
            case False
            with w1 dec eq' show ?thesis
              by (auto simp: read_frame.simps [of c arrivals nt w] split: sum.splits option.splits)
          qed
        next
          fix p2 f2 w2
          assume cut: "fill_pending arrivals ?p ?f w = (Inl (WouldBlock, []), p2, f2, w2)"
            "length p2 = length ?p" "length w2 < length w"
            "fill_pending arrivals p2 f2 (chunks w2) = (q, p1, f1, u1)"
          let ?nt = "nt\<lparr>nt_pending := p2, nt_filled := f2\<rparr>"
          have "read_frame c arrivals nt w = Some (Err (IoError WouldBlock []), ?nt, w2)"
            using cut(1) by (simp add: read_frame.simps [of c arrivals nt w])
          moreover have "read_frame c arrivals ?nt (chunks w2) = read_frame c arrivals nt v"
            using ready_pending_again [OF cut(2), of f2] cut(4) fill dec
            by (cases q) (simp_all add: read_frame.simps [of c arrivals nt v]
                read_frame.simps [of c arrivals ?nt] split: prod.splits)
          ultimately show ?thesis using cut(3) whole by auto
        qed
      qed
      with whole show "read_frame c arrivals nt v = Some (r, nt1, v1) \<and>
          (\<forall>w. v = chunks w \<longrightarrow> ?cut c nt w r nt1 v1)" by blast
    qed
  qed
  with assms(2) show ?thesis by simp
qed

section \<open>Properties\<close>

lemma noise_recv_arrivals:
  "noise_recv c arrivals t nt w =
   map_option (\<lambda>(r, nt1, w1). (timed_out r, nt1, w1)) (read_frame c arrivals nt w)"
  by (simp add: noise_recv_def) (simp add: arrivals_def split: option.splits)

text \<open>Receiving with one timeout after the other until something other than a timeout comes.\<close>

fun poll_until ::
  "('d, 'e, 's) frame_codec \<Rightarrow> 'w socket \<Rightarrow> duration list \<Rightarrow> ('d, 'e, 's) noise_transport \<Rightarrow> 'w \<Rightarrow>
   ((harness_error, wire_frame) outcome \<times> ('d, 'e, 's) noise_transport \<times> 'w) option" where
  "poll_until c sk [] nt w = None"
| "poll_until c sk (t # ts) nt w =
     (case noise_recv c sk t nt w of
        None \<Rightarrow> None
      | Some (r, nt1, w1) \<Rightarrow> if r = Err Timeout then poll_until c sk ts nt1 w1 else Some (r, nt1, w1))"

text \<open>C35: A short poll tears no frame: however the waits that run out fall between the bytes and within
  frames, polling with any timeouts finds the frame, or the failure, that one receive finds when
  nothing runs out, leaves the transport as that one does, and leaves the bytes after the frame.\<close>

theorem frames_are_not_torn:
  assumes "noise_recv c arrivals t nt (chunks w) = Some (r, nt1, v1)" and "r \<noteq> Err Timeout"
    and "length w < length ts"
  shows "\<exists>w1. poll_until c arrivals ts nt w = Some (r, nt1, w1) \<and> chunks w1 = v1"
  using assms(1, 3)
proof (induction ts arbitrary: nt w)
  case (Cons t1 ts)
  from Cons.prems(1) obtain q where q: "read_frame c arrivals nt (chunks w) = Some (q, nt1, v1)" "r = timed_out q"
    by (auto simp: noise_recv_arrivals)
  with assms(2) have "\<forall>e. q \<noteq> Err (IoError WouldBlock e)" by auto
  from read_frame_cut [OF q(1) this] show ?case
  proof (elim disjE exE conjE)
    fix w1 assume "read_frame c arrivals nt w = Some (q, nt1, w1)" "chunks w1 = v1"
    with q(2) assms(2) show ?thesis by (simp add: noise_recv_arrivals)
  next
    fix nt2 w2 assume cut: "read_frame c arrivals nt w = Some (Err (IoError WouldBlock []), nt2, w2)"
      "length w2 < length w" "read_frame c arrivals nt2 (chunks w2) = Some (q, nt1, v1)"
    with q(2) Cons.prems(2) Cons.IH [of nt2 w2] show ?thesis by (simp add: noise_recv_arrivals)
  qed
qed simp

definition demo_codec :: "(u8 list, unit, unit) frame_codec" where
  "demo_codec =
     \<lparr>writable_len = (\<lambda>_. 2), fill_writable = (\<lambda>_ bs. bs),
      next_transport_frame = (\<lambda>d s. (Inr (Some d, s), [])),
      frame_of_bytes = (\<lambda>bs. Some \<lparr>ext_type_without_channel_msg = 0, channel_msg = False,
        msg_type = hd bs, payload_length = length bs, message = Err (Input [])\<rparr>),
      serialized_frame = Some, encode_transport = (\<lambda>bs e. (Inr bs, e))\<rparr>"

theorem frames_are_not_torn_witness:
  "\<exists>f nt w1. poll_until demo_codec arrivals [0, 0, 0, 0] (from_transport [] ((), ()))
      [Chunk [7], Nothing, Chunk [8, 9]] = Some (Ok f, nt, w1) \<and> msg_type f = 7 \<and> chunks w1 = [Chunk [9]]"
proof -
  have "\<exists>f nt. noise_recv demo_codec arrivals 0 (from_transport [] ((), ()))
      (chunks [Chunk [7], Nothing, Chunk [8, 9]]) = Some (Ok f, nt, [Chunk [9]]) \<and> msg_type f = 7"
    by (simp add: noise_recv_arrivals read_frame.simps fill_pending.simps demo_codec_def frame_from_bytes_def
        from_transport_def ready_pending_def resize_bytes_def decode_chunk_def Let_def
        numeral_2_eq_2)
  then obtain f nt where one: "noise_recv demo_codec arrivals 0 (from_transport [] ((), ()))
      (chunks [Chunk [7], Nothing, Chunk [8, 9]]) = Some (Ok f, nt, [Chunk [9]])" "msg_type f = 7" by blast
  from frames_are_not_torn [OF one(1), of "[0, 0, 0, 0]"] one(2) show ?thesis by auto
qed

end
