(* ===== verification/Noise_Handshake.thy ===== *)
theory Noise_Handshake
  imports Noise_Transport
begin

text \<open>
  Opening an encrypted connection (\<open>noise.rs\<close>): the handshake as its initiator (\<open>connect\<close>) and as its
  responder (\<open>accept\<close>). The steps of the handshake, the encoding of its messages and what a decoder makes
  of them are the codec library's, a record of functions; a message is its payload. The world holds the
  socket and the randomness the library draws.
\<close>

section \<open>The library and the socket\<close>

record ('d, 'e, 's, 'i, 'h, 'r, 'w) handshake_codec =
  hk_new_decoder :: 'd
  hk_next_as_initiator :: "'d \<Rightarrow> (string + u8 list option) \<times> 'd"
  hk_next_as_responder :: "'d \<Rightarrow> (string + u8 list option) \<times> 'd"
  hk_encode :: "u8 list \<Rightarrow> u8 list"
  hk_initiator :: "'w \<Rightarrow> (string + 'i) \<times> 'w"
  hk_responder :: "u8 list \<Rightarrow> u8 list \<Rightarrow> duration \<Rightarrow> 'w \<Rightarrow> (string + 'r) \<times> 'w"
  hk_step_0 :: "'i \<Rightarrow> 'w \<Rightarrow> (string + u8 list \<times> 'h) \<times> 'w"
  hk_step_1 :: "'r \<Rightarrow> u8 list \<Rightarrow> 'w \<Rightarrow> (string + u8 list \<times> 'e \<times> 's) \<times> 'w"
  hk_step_2 :: "'h \<Rightarrow> u8 list \<Rightarrow> 'w \<Rightarrow> (string + 'e \<times> 's) \<times> 'w"
  hk_first_size :: nat
  hk_second_size :: nat

record 'w handshake_socket = "'w socket" +
  sk_set_write_timeout :: "duration option \<Rightarrow> 'w \<Rightarrow> (io_error + unit) \<times> 'w"
  sk_read_exact :: "nat \<Rightarrow> 'w \<Rightarrow> (io_error + u8 list) \<times> 'w"

text \<open>Going on after a step that may fail, with the error it becomes.\<close>

fun try_with :: "('x \<Rightarrow> harness_error) \<Rightarrow> ('x + 'a) \<times> 'w \<Rightarrow>
    ('a \<Rightarrow> 'w \<Rightarrow> ((harness_error + 'b) \<times> 'w) option) \<Rightarrow> ((harness_error + 'b) \<times> 'w) option" where
  "try_with f (Inl e, w) go = Some (Inl (f e), w)"
| "try_with f (Inr a, w) go = go a w"

definition io_failure :: "io_error \<Rightarrow> harness_error" where "io_failure e = IoError (fst e) (snd e)"

section \<open>The handshake\<close>

partial_function (option) read_handshake ::
  "('d, 'e, 's) frame_codec \<Rightarrow> ('d \<Rightarrow> (string + u8 list option) \<times> 'd) \<Rightarrow> 'w handshake_socket \<Rightarrow> 'd \<Rightarrow> 'w \<Rightarrow>
   ((harness_error + u8 list \<times> 'd) \<times> 'w) option" where
  "read_handshake c next_frame sk d w =
     (case sk_read_exact sk (writable_len c d) w of
        (r, w1) \<Rightarrow>
          (case r of
             Inl e \<Rightarrow> Some (Inl (io_failure e), w1)
           | Inr bytes \<Rightarrow>
               (case next_frame (fill_writable c d bytes) of
                  (res, d1) \<Rightarrow>
                    (case res of
                       Inl e \<Rightarrow> Some (Inl (Codec e), w1)
                     | Inr found \<Rightarrow>
                         (case found of
                            Some m \<Rightarrow> Some (Inr (m, d1), w1)
                          | None \<Rightarrow> read_handshake c next_frame sk d1 w1)))))"

text \<open>Going on with the message that is read, if it has the size that is expected.\<close>

definition with_handshake ::
  "((harness_error + u8 list \<times> 'd) \<times> 'w) option \<Rightarrow> nat \<Rightarrow> string \<Rightarrow>
   (u8 list \<Rightarrow> 'd \<Rightarrow> 'w \<Rightarrow> ((harness_error + 'b) \<times> 'w) option) \<Rightarrow> ((harness_error + 'b) \<times> 'w) option" where
  "with_handshake r expected complaint go =
     (case r of
        None \<Rightarrow> None
      | Some (Inl e, w) \<Rightarrow> Some (Inl e, w)
      | Some (Inr (m, d), w) \<Rightarrow>
          if length m = expected then go m d w else Some (Inl (Noise complaint), w))"

definition noise_connect ::
  "('d, 'e, 's) frame_codec \<Rightarrow> ('d, 'e, 's, 'i, 'h, 'r, 'w) handshake_codec \<Rightarrow> 'w handshake_socket \<Rightarrow>
   duration \<Rightarrow> 'w \<Rightarrow> ((harness_error + ('d, 'e, 's) noise_transport) \<times> 'w) option" where
  "noise_connect c hk sk timeout w =
     try_with io_failure (sk_set_read_timeout sk (Some timeout) w) (\<lambda>_ w.
     try_with io_failure (sk_set_write_timeout sk (Some timeout) w) (\<lambda>_ w.
     try_with Noise (hk_initiator hk w) (\<lambda>i w.
     try_with Codec (hk_step_0 hk i w) (\<lambda>(first, h) w.
     try_with io_failure (sk_write_all sk (hk_encode hk first) w) (\<lambda>_ w.
     with_handshake (read_handshake c (hk_next_as_initiator hk) sk (hk_new_decoder hk) w) (hk_second_size hk)
       ''the responder sent a malformed handshake message'' (\<lambda>second d w.
     try_with Codec (hk_step_2 hk h second w) (\<lambda>transport w.
       Some (Inr (from_transport d transport), w))))))))"

definition noise_accept ::
  "('d, 'e, 's) frame_codec \<Rightarrow> ('d, 'e, 's, 'i, 'h, 'r, 'w) handshake_codec \<Rightarrow> 'w handshake_socket \<Rightarrow>
   u8 list \<Rightarrow> u8 list \<Rightarrow> duration \<Rightarrow> duration \<Rightarrow> 'w \<Rightarrow>
   ((harness_error + ('d, 'e, 's) noise_transport) \<times> 'w) option" where
  "noise_accept c hk sk public_key private_key validity timeout w =
     try_with io_failure (sk_set_read_timeout sk (Some timeout) w) (\<lambda>_ w.
     try_with io_failure (sk_set_write_timeout sk (Some timeout) w) (\<lambda>_ w.
     try_with Noise (hk_responder hk public_key private_key validity w) (\<lambda>r w.
     with_handshake (read_handshake c (hk_next_as_responder hk) sk (hk_new_decoder hk) w) (hk_first_size hk)
       ''the initiator sent a malformed handshake message'' (\<lambda>first d w.
     try_with Codec (hk_step_1 hk r first w) (\<lambda>(second, transport) w.
     try_with io_failure (sk_write_all sk (hk_encode hk second) w) (\<lambda>_ w.
       Some (Inr (from_transport d transport), w)))))))"

section \<open>Two ends of a connection\<close>

text \<open>The bytes still to be read, and those written.\<close>

record stream =
  st_in :: "u8 list"
  st_out :: "u8 list"

definition stream_socket :: "stream handshake_socket" where
  "stream_socket =
     \<lparr>sk_read = (\<lambda>n w. (Inr (take n (st_in w)), w\<lparr>st_in := drop n (st_in w)\<rparr>)),
      sk_write_all = (\<lambda>bytes w. (Inr (), w\<lparr>st_out := st_out w @ bytes\<rparr>)),
      sk_read_timeout = (\<lambda>w. (Inr None, w)), sk_set_read_timeout = (\<lambda>_ w. (Inr (), w)),
      sk_set_write_timeout = (\<lambda>_ w. (Inr (), w)),
      sk_read_exact = (\<lambda>n w. if length (st_in w) < n then (Inl (UnexpectedEof, ''failed to fill whole buffer''), w)
        else (Inr (take n (st_in w)), w\<lparr>st_in := drop n (st_in w)\<rparr>))\<rparr>"

text \<open>A decoder that is handed bytes in the pieces it asks for and makes a message of exactly these.\<close>

inductive feeds ::
  "('d, 'e, 's) frame_codec \<Rightarrow> ('d \<Rightarrow> (string + u8 list option) \<times> 'd) \<Rightarrow> 'd \<Rightarrow> u8 list \<Rightarrow> u8 list \<Rightarrow> 'd \<Rightarrow> bool"
  for c next_frame where
  feeds_last: "length bs = writable_len c d \<Longrightarrow> next_frame (fill_writable c d bs) = (Inr (Some m), d') \<Longrightarrow>
    feeds c next_frame d bs m d'"
| feeds_more: "length bs = writable_len c d \<Longrightarrow> next_frame (fill_writable c d bs) = (Inr None, d1) \<Longrightarrow>
    feeds c next_frame d1 rest m d' \<Longrightarrow> feeds c next_frame d (bs @ rest) m d'"

text \<open>What the library documents: a fresh decoder takes a message of the size its role waits for from its
  encoding.\<close>

definition handshake_codec_ok ::
  "('d, 'e, 's) frame_codec \<Rightarrow> ('d, 'e, 's, 'i, 'h, 'r, 'w) handshake_codec \<Rightarrow> bool" where
  "handshake_codec_ok c hk \<longleftrightarrow>
     (\<forall>m. length m = hk_first_size hk \<longrightarrow>
        (\<exists>d. feeds c (hk_next_as_responder hk) (hk_new_decoder hk) (hk_encode hk m) m d)) \<and>
     (\<forall>m. length m = hk_second_size hk \<longrightarrow>
        (\<exists>d. feeds c (hk_next_as_initiator hk) (hk_new_decoder hk) (hk_encode hk m) m d))"

lemma read_handshake_feeds:
  assumes "feeds c next_frame d bs m d'"
  shows "read_handshake c next_frame stream_socket d \<lparr>st_in = bs @ rest, st_out = out\<rparr> =
    Some (Inr (m, d'), \<lparr>st_in = rest, st_out = out\<rparr>)"
  using assms
proof (induction arbitrary: rest)
  case (feeds_last bs d m d')
  then show ?case by (subst read_handshake.simps) (simp add: stream_socket_def)
next
  case (feeds_more bs d d1 bs2 m d')
  from feeds_more(1, 2) feeds_more.IH show ?case
    by (subst read_handshake.simps) (simp add: stream_socket_def)
qed

text \<open>A connection that ends before the first piece is there fails.\<close>

lemma read_handshake_eof:
  "length (st_in w) < writable_len c d \<Longrightarrow>
   read_handshake c next_frame stream_socket d w =
     Some (Inl (IoError UnexpectedEof ''failed to fill whole buffer''), w)"
  by (subst read_handshake.simps) (simp add: stream_socket_def io_failure_def)

section \<open>Properties\<close>

text \<open>C34: The two ends of a connection complete the handshake with each other: what one writes is what the
  other reads, each comes out with the keys of its last step, and neither reads a byte of what follows.\<close>

theorem handshake_completes:
  assumes "handshake_codec_ok c hk"
    and "\<And>w. hk_initiator hk w = (Inr i, w)" and "\<And>w. hk_responder hk public_key private_key validity w = (Inr r, w)"
    and "\<And>w. hk_step_0 hk i w = (Inr (first, h), w)" and "length first = hk_first_size hk"
    and "\<And>w. hk_step_1 hk r first w = (Inr (second, responder_keys), w)" and "length second = hk_second_size hk"
    and "\<And>w. hk_step_2 hk h second w = (Inr initiator_keys, w)"
  shows "\<exists>d d'.
    noise_connect c hk stream_socket t1 \<lparr>st_in = hk_encode hk second @ after_second, st_out = []\<rparr> =
      Some (Inr (from_transport d initiator_keys), \<lparr>st_in = after_second, st_out = hk_encode hk first\<rparr>) \<and>
    noise_accept c hk stream_socket public_key private_key validity t2
        \<lparr>st_in = hk_encode hk first @ after_first, st_out = []\<rparr> =
      Some (Inr (from_transport d' responder_keys), \<lparr>st_in = after_first, st_out = hk_encode hk second\<rparr>)"
proof -
  obtain d where d: "feeds c (hk_next_as_initiator hk) (hk_new_decoder hk) (hk_encode hk second) second d"
    using assms(1, 7) unfolding handshake_codec_ok_def by blast
  obtain d' where d': "feeds c (hk_next_as_responder hk) (hk_new_decoder hk) (hk_encode hk first) first d'"
    using assms(1, 5) unfolding handshake_codec_ok_def by blast
  have io: "sk_set_read_timeout stream_socket x w = (Inr (), w)" "sk_set_write_timeout stream_socket x w = (Inr (), w)"
    "sk_write_all stream_socket bytes w = (Inr (), w\<lparr>st_out := st_out w @ bytes\<rparr>)" for x bytes w
    by (simp_all add: stream_socket_def)
  show ?thesis
    using read_handshake_feeds [OF d, of after_second "hk_encode hk first"]
      read_handshake_feeds [OF d', of after_first "[]"] assms(2-8)
    by (auto simp: noise_connect_def noise_accept_def io with_handshake_def)
qed

text \<open>A codec whose messages are one and two bytes behind a byte that says nothing, asked for in two
  pieces.\<close>

definition plain_codec :: "(nat \<times> u8 list, unit, unit) frame_codec" where
  "plain_codec =
     \<lparr>writable_len = (\<lambda>d. fst d), fill_writable = (\<lambda>d bs. (fst d, bs)),
      next_transport_frame = (\<lambda>d s. (Inl ''none'', d)), frame_of_bytes = (\<lambda>bs. None),
      serialized_frame = (\<lambda>bs. None), encode_transport = (\<lambda>bs e. (Inr bs, e))\<rparr>"

definition plain_handshake :: "(nat \<times> u8 list, unit, unit, unit, unit, unit, stream) handshake_codec" where
  "plain_handshake =
     \<lparr>hk_new_decoder = (1, []),
      hk_next_as_initiator = (\<lambda>d. if fst d = 2 then (Inr (Some (snd d)), d) else (Inr None, (2, []))),
      hk_next_as_responder = (\<lambda>d. (Inr (Some (snd d)), d)),
      hk_encode = (\<lambda>m. if length m = 2 then 0 # m else m),
      hk_initiator = (\<lambda>w. (Inr (), w)), hk_responder = (\<lambda>_ _ _ w. (Inr (), w)),
      hk_step_0 = (\<lambda>_ w. (Inr ([7], ()), w)), hk_step_1 = (\<lambda>_ m w. (Inr (m @ m, (), ()), w)),
      hk_step_2 = (\<lambda>_ m w. (Inr ((), ()), w)), hk_first_size = 1, hk_second_size = 2\<rparr>"

lemma plain_handshake_ok: "handshake_codec_ok plain_codec plain_handshake"
proof -
  have "feeds plain_codec (hk_next_as_responder plain_handshake) (1, []) m m (1, m)" if "length m = 1" for m
    by (rule feeds_last) (simp_all add: plain_codec_def plain_handshake_def that)
  moreover have "feeds plain_codec (hk_next_as_initiator plain_handshake) (1, []) ([0] @ m) m (2, m)"
    if "length m = 2" for m
  proof (rule feeds_more)
    show "feeds plain_codec (hk_next_as_initiator plain_handshake) (2, []) m m (2, m)"
      by (rule feeds_last) (simp_all add: plain_codec_def plain_handshake_def that)
  qed (simp_all add: plain_codec_def plain_handshake_def)
  ultimately show ?thesis by (fastforce simp: handshake_codec_ok_def plain_handshake_def)
qed

theorem handshake_completes_witness:
  "\<exists>d. noise_connect plain_codec plain_handshake stream_socket 1 \<lparr>st_in = [0, 7, 7, 5], st_out = []\<rparr> =
     Some (Inr (from_transport d ((), ())), \<lparr>st_in = [5], st_out = [7]\<rparr>)"
proof -
  have *: "hk_initiator plain_handshake w = (Inr (), w)" "hk_responder plain_handshake [1] [2] 3 w = (Inr (), w)"
    "hk_step_0 plain_handshake () w = (Inr ([7], ()), w)" "length [7 :: u8] = hk_first_size plain_handshake"
    "hk_step_1 plain_handshake () [7] w = (Inr ([7, 7], (), ()), w)" "length [7 :: u8, 7] = hk_second_size plain_handshake"
    "hk_step_2 plain_handshake () [7, 7] w = (Inr ((), ()), w)" for w
    by (simp_all add: plain_handshake_def)
  from handshake_completes [OF plain_handshake_ok *, of 1 "[5]" 1 "[]"]
  show ?thesis by (auto simp: plain_handshake_def)
qed

end
