(* ===== verification/Nyx_Agent.thy ===== *)
theory Nyx_Agent
  imports Texts
begin

text \<open>
  The agent a scenario talks to the snapshotting machine through
  (\<open>stratamoto-nyx-sys/src/nyx-agent.c\<close>, \<open>nyx.h\<close> and the size the build script gives it). A C
  string is its characters before the zero. The hypervisor and the operating system are
  parameters; what a hypercall does on the host is the list of the calls made, and whether control
  comes back from one is the hypervisor's to say. Where C leaves the behaviour open, an access past
  the end of a buffer, the model says so.
\<close>

section \<open>Steps of a guest\<close>

text \<open>
  \<open>Returns\<close> goes on, \<open>Halts\<close> is a hypercall that does not come back, \<open>Panics\<close> is a Rust panic,
  \<open>Diverges\<close> a computation that does not end and \<open>Undefined\<close> what C does not define.
\<close>

datatype ('a, 's) step = Returns 'a 's | Halts 's | Panics 's | Diverges | Undefined

fun proceed :: "('a, 's) step \<Rightarrow> ('a \<Rightarrow> 's \<Rightarrow> ('b, 's) step) \<Rightarrow> ('b, 's) step" where
  "proceed (Returns x s) f = f x s"
| "proceed (Halts s) f = Halts s"
| "proceed (Panics s) f = Panics s"
| "proceed Diverges f = Diverges"
| "proceed Undefined f = Undefined"

lemma proceed_cong [fundef_cong]:
  "r = r' \<Longrightarrow> (\<And>x s. r' = Returns x s \<Longrightarrow> f x s = f' x s) \<Longrightarrow> proceed r f = proceed r' f'"
  by (cases r') auto

lemma proceed_assoc [simp]:
  "proceed (proceed r f) g = proceed r (\<lambda>x s. proceed (f x s) g)"
  by (cases r) auto

lemma proceed_Returns [simp]: "proceed r Returns = r"
  by (cases r) auto

text \<open>The state a step leaves.\<close>

fun final :: "('a, 's) step \<Rightarrow> 's option" where
  "final (Returns x s) = Some s"
| "final (Halts s) = Some s"
| "final (Panics s) = Some s"
| "final Diverges = None"
| "final Undefined = None"

lemma final_proceed:
  "final (proceed r f) = Some s' \<Longrightarrow>
     final r = Some s' \<or> (\<exists>x s. r = Returns x s \<and> final (f x s) = Some s')"
  by (cases r) auto

section \<open>The machine\<close>

record host_config =
  hc_magic :: u32
  hc_version :: u32
  hc_bitmap_size :: u32
  hc_ijon_bitmap_size :: u32
  hc_payload_buffer_size :: u32
  hc_worker_id :: u32

record agent_config =
  ac_magic :: u32
  ac_version :: u32
  ac_timeout_detection :: u8
  ac_tracing :: u8
  ac_ijon_tracing :: u8
  ac_non_reload_mode :: u8
  ac_trace_buffer :: nat
  ac_ijon_trace_buffer :: nat
  ac_coverage_bitmap_size :: u32
  ac_input_buffer_size :: u32
  ac_dump_payloads :: u8

definition zero_agent_config :: agent_config where
  "zero_agent_config =
     \<lparr>ac_magic = 0, ac_version = 0, ac_timeout_detection = 0, ac_tracing = 0, ac_ijon_tracing = 0,
      ac_non_reload_mode = 0, ac_trace_buffer = 0, ac_ijon_trace_buffer = 0,
      ac_coverage_bitmap_size = 0, ac_input_buffer_size = 0, ac_dump_payloads = 0\<rparr>"

text \<open>The hypercalls the repository makes; a report may have no message.\<close>

datatype hypercall =
    GetHostConfig
  | SetAgentConfig agent_config
  | GetPayload nat
  | Printf string
  | SubmitMode nat
  | FastAcquire
  | Release
  | PanicExtended "string option"
  | UserAbort string
  | DumpFile string "u8 list" nat

text \<open>The guest: the agent's statics, the calls made so far, and the rest of the world.\<close>

record 'w guest =
  gu_initialized :: bool
  gu_trace :: "u8 list"
  gu_area :: "nat option"
  gu_calls :: "hypercall list"
  gu_world :: 'w

text \<open>What the hypervisor answers, the payload it hands over (the size field and the bytes after it),
  whether a call comes back, and the operating system's calls.\<close>

record 'w machine =
  mc_host_config :: host_config
  mc_payload :: "32 word \<times> u8 list"
  mc_returns :: "hypercall \<Rightarrow> bool"
  mc_shmget :: "nat \<Rightarrow> 'w \<Rightarrow> int \<times> 'w"
  mc_shmat :: "int \<Rightarrow> 'w \<Rightarrow> nat option \<times> 'w"
  mc_setenv :: "string \<Rightarrow> string \<Rightarrow> 'w \<Rightarrow> 'w"
  mc_mmap :: "nat \<Rightarrow> 'w \<Rightarrow> nat \<times> 'w"

definition kafl_hypercall :: "'w machine \<Rightarrow> hypercall \<Rightarrow> 'w guest \<Rightarrow> (unit, 'w guest) step" where
  "kafl_hypercall m c g =
     (let g' = g\<lparr>gu_calls := gu_calls g @ [c]\<rparr> in if mc_returns m c then Returns () g' else Halts g')"

definition habort :: "'w machine \<Rightarrow> string \<Rightarrow> 'w guest \<Rightarrow> (unit, 'w guest) step" where
  "habort m msg g = kafl_hypercall m (UserAbort msg) g"

definition c_str :: "string \<Rightarrow> string" where
  "c_str s = takeWhile (\<lambda>c. c \<noteq> CHR 0x00) s"

definition hprintf_max_size :: nat where "hprintf_max_size = 65535"

text \<open>\<open>vsnprintf\<close> keeps one character of the buffer for the zero.\<close>

definition hprintf :: "'w machine \<Rightarrow> string \<Rightarrow> 'w guest \<Rightarrow> (unit, 'w guest) step" where
  "hprintf m text g = kafl_hypercall m (Printf (take (hprintf_max_size - 1) text)) g"

text \<open>\<open>%d\<close> of an unsigned word, and \<open>%x\<close>.\<close>

definition signed_decimal :: "int \<Rightarrow> string" where
  "signed_decimal i = (if i < 0 then CHR ''-'' # decimal (nat (- i)) else decimal (nat i))"

definition word_decimal :: "u32 \<Rightarrow> string" where "word_decimal w = signed_decimal (sint w)"

fun hex_text :: "nat \<Rightarrow> string" where
  "hex_text n = (if n < 16 then [hex_digit n] else hex_text (n div 16) @ [hex_digit (n mod 16)])"

declare hex_text.simps [simp del]

abbreviation newline_text :: string where "newline_text \<equiv> [CHR 0x0A]"

section \<open>Setting up\<close>

text \<open>How the agent was built: the size of the target's coverage map, when the build learnt it, and the
  scenario's own, when it is instrumented.\<close>

record agent_build =
  ab_target_map :: "nat option"
  ab_afl_map :: "u32 option"

definition host_magic :: u32 where "host_magic = 0x4878794E"
definition agent_magic :: u32 where "agent_magic = 0x4178794E"
definition host_version :: u32 where "host_version = 2"
definition agent_version :: u32 where "agent_version = 1"

definition outdated :: "string \<Rightarrow> string" where
  "outdated what = ''Error: '' @ what @ '' not found in host configuration - You are probably using an outdated version of QEMU-Nyx...''"

definition check_host :: "'w machine \<Rightarrow> 'w guest \<Rightarrow> (unit, 'w guest) step" where
  "check_host m g =
     proceed (kafl_hypercall m GetHostConfig g) (\<lambda>_ g.
     proceed (if hc_magic (mc_host_config m) \<noteq> host_magic then habort m (outdated ''NYX_HOST_MAGIC'') g
              else Returns () g) (\<lambda>_ g.
     if hc_version (mc_host_config m) \<noteq> host_version then habort m (outdated ''NYX_HOST_VERSION'') g
     else Returns () g))"

definition print_capabilities :: "'w machine \<Rightarrow> 'w guest \<Rightarrow> (unit, 'w guest) step" where
  "print_capabilities m g =
     (let hc = mc_host_config m; capability = (\<lambda>name n tail g.
            hprintf m (''[capablities] host_config.'' @ name @ '': 0x'' @ hex_text (unat n) @ tail @ newline_text) g)
      in proceed (capability ''bitmap_size'' (hc_bitmap_size hc) [] g) (\<lambda>_ g.
         proceed (capability ''ijon_bitmap_size'' (hc_ijon_bitmap_size hc) [] g) (\<lambda>_ g.
         capability ''payload_buffer_size'' (hc_payload_buffer_size hc) ''x'' g)))"

text \<open>The size of the map that target and scenario share.\<close>

definition coverage_size :: "'w machine \<Rightarrow> agent_build \<Rightarrow> u32" where
  "coverage_size m b =
     (case ab_target_map b of
        None \<Rightarrow> hc_bitmap_size (mc_host_config m)
      | Some n \<Rightarrow> of_nat n + (case ab_afl_map b of None \<Rightarrow> 0 | Some k \<Rightarrow> k))"

definition print_coverage :: "'w machine \<Rightarrow> agent_build \<Rightarrow> 'w guest \<Rightarrow> (unit, 'w guest) step" where
  "print_coverage m b g =
     (case ab_target_map b of
        None \<Rightarrow> hprintf m (''[warn] TARGET_MAP_SIZE not set, using host supplied size: '' @
                  word_decimal (hc_bitmap_size (mc_host_config m)) @ newline_text) g
      | Some n \<Rightarrow>
          proceed (hprintf m (''[init] using TARGET_MAP_SIZE: '' @ word_decimal (of_nat n) @ newline_text) g) (\<lambda>_ g.
          case ab_afl_map b of
            Some k \<Rightarrow> hprintf m (''[init] scenario was build with afl instrumentation, extending the map by '' @
                        word_decimal k @ '' edges'' @ newline_text) g
          | None \<Rightarrow> hprintf m (''[init] scenario not compiled with afl instrumentation'' @ newline_text) g))"

text \<open>The shared map: made, announced to the target in the environment, attached and cleared. An
  attachment that failed is not memory, if the abort came back.\<close>

definition share_map :: "'w machine \<Rightarrow> u32 \<Rightarrow> 'w guest \<Rightarrow> (nat, 'w guest) step" where
  "share_map m map_size g =
     (case mc_shmget m (unat map_size) (gu_world g) of
        (shmid, w1) \<Rightarrow>
          proceed (if shmid = -1
                   then habort m ''Error: Failed to create shared memory segment for trace buffer'' (g\<lparr>gu_world := w1\<rparr>)
                   else Returns () (g\<lparr>gu_world := w1\<rparr>)) (\<lambda>_ g.
          let w2 = mc_setenv m ''__AFL_SHM_ID'' (signed_decimal shmid) (gu_world g);
              w3 = mc_setenv m ''AFL_MAP_SIZE'' (word_decimal map_size) w2
          in case mc_shmat m shmid w3 of
               (None, w4) \<Rightarrow>
                 proceed (habort m ''Error: Failed to attach to shared memory segment for trace buffer''
                            (g\<lparr>gu_world := w4\<rparr>)) (\<lambda>_ g. Undefined)
             | (Some address, w4) \<Rightarrow>
                 Returns address (g\<lparr>gu_world := w4, gu_trace := replicate (unat map_size) 0\<rparr>)))"

definition agent_config_of :: "nat \<Rightarrow> u32 \<Rightarrow> agent_config" where
  "agent_config_of address map_size =
     zero_agent_config\<lparr>ac_coverage_bitmap_size := map_size, ac_magic := agent_magic,
       ac_version := agent_version, ac_timeout_detection := 0, ac_tracing := 1,
       ac_trace_buffer := address, ac_ijon_tracing := 0, ac_ijon_trace_buffer := 0,
       ac_non_reload_mode := 1\<rparr>"

definition nyx_init :: "'w machine \<Rightarrow> agent_build \<Rightarrow> 'w guest \<Rightarrow> (nat, 'w guest) step" where
  "nyx_init m b g =
     proceed (if gu_initialized g then habort m ''Error: nyx_init called twice'' g else Returns () g) (\<lambda>_ g.
     proceed (check_host m (g\<lparr>gu_initialized := True\<rparr>)) (\<lambda>_ g.
     proceed (print_capabilities m g) (\<lambda>_ g.
     proceed (print_coverage m b g) (\<lambda>_ g.
     proceed (share_map m (coverage_size m b) g) (\<lambda>address g.
     proceed (kafl_hypercall m (SetAgentConfig (agent_config_of address (coverage_size m b))) g) (\<lambda>_ g.
     Returns (unat (hc_payload_buffer_size (mc_host_config m))) g))))))"

section \<open>Printing\<close>

text \<open>A text that does not fit the buffer is printed in pieces that do.\<close>

function print_pieces :: "'w machine \<Rightarrow> string \<Rightarrow> nat \<Rightarrow> 'w guest \<Rightarrow> (unit, 'w guest) step" where
  "print_pieces m text offset g =
     (if offset < length text then
        let rest = length text - offset;
            piece = (if rest \<ge> hprintf_max_size then hprintf_max_size - 1 else rest)
        in proceed (hprintf m (c_str (take piece (drop offset text))) g)
             (\<lambda>_ g. print_pieces m text (offset + piece) g)
      else Returns () g)"
  by pat_completeness auto

termination
  by (relation "measure (\<lambda>(m, text, offset, g). length text - offset)")
    (auto simp: hprintf_max_size_def split: if_splits)

declare print_pieces.simps [simp del]

definition nyx_println :: "'w machine \<Rightarrow> string \<Rightarrow> 'w guest \<Rightarrow> (unit, 'w guest) step" where
  "nyx_println m text g =
     proceed (if length text < hprintf_max_size then hprintf m (c_str text) g
              else print_pieces m text 0 g) (\<lambda>_ g. hprintf m newline_text g)"

section \<open>An input, and its end\<close>

definition scenario_area :: "agent_build \<Rightarrow> nat option \<Rightarrow> nat option" where
  "scenario_area b area =
     (case (ab_target_map b, ab_afl_map b) of (Some n, Some k) \<Rightarrow> Some n | _ \<Rightarrow> area)"

text \<open>\<open>memset\<close> of the trace buffer, and marking its first entry.\<close>

definition clear_trace :: "'w guest \<Rightarrow> 'w guest" where
  "clear_trace g = g\<lparr>gu_trace := replicate (length (gu_trace g)) 0\<rparr>"

definition mark_trace :: "'w guest \<Rightarrow> (unit, 'w guest) step" where
  "mark_trace g = (if gu_trace g = [] then Undefined else Returns () (g\<lparr>gu_trace := (gu_trace g)[0 := 1]\<rparr>))"

text \<open>The payload's bytes begin after its size, which is signed, in a buffer of the largest size.\<close>

definition copy_payload :: "u32 \<times> u8 list \<Rightarrow> nat \<Rightarrow> u8 list \<Rightarrow> (u8 list \<times> nat) option" where
  "copy_payload payload max_size data =
     (case payload of (len, bytes) \<Rightarrow>
        if sint len < 0 \<or> length data < unat len \<or> max_size < 4 + unat len then None
        else Some (take (unat len) (bytes @ replicate (unat len) 0) @ drop (unat len) data, unat len))"

definition nyx_get_fuzz_input ::
  "'w machine \<Rightarrow> agent_build \<Rightarrow> u8 list \<Rightarrow> nat \<Rightarrow> 'w guest \<Rightarrow> (u8 list \<times> nat, 'w guest) step" where
  "nyx_get_fuzz_input m b data max_size g =
     (case mc_mmap m max_size (gu_world g) of
        (address, w1) \<Rightarrow>
          proceed (kafl_hypercall m (GetPayload max_size) (g\<lparr>gu_world := w1\<rparr>)) (\<lambda>_ g.
          proceed (hprintf m (''[init] payload buffer is mapped at 0x'' @ hex_text address @ '' (size: 0x'' @
                     hex_text max_size @ '')'' @ newline_text) g) (\<lambda>_ g.
          let g = (clear_trace g)\<lparr>gu_area := scenario_area b (gu_area g)\<rparr>
          in proceed (hprintf m (''[init] taking snapshot'' @ newline_text) g) (\<lambda>_ g.
             proceed (kafl_hypercall m (SubmitMode 0) g) (\<lambda>_ g.
             proceed (kafl_hypercall m FastAcquire g) (\<lambda>_ g.
             proceed (mark_trace g) (\<lambda>_ g.
             case copy_payload (mc_payload m) max_size data of
               None \<Rightarrow> Undefined
             | Some r \<Rightarrow> Returns r g)))))))"

definition nyx_skip :: "'w machine \<Rightarrow> 'w guest \<Rightarrow> (unit, 'w guest) step" where
  "nyx_skip m g = proceed (mark_trace (clear_trace g)) (\<lambda>_ g. kafl_hypercall m Release g)"

definition nyx_release :: "'w machine \<Rightarrow> 'w guest \<Rightarrow> (unit, 'w guest) step" where
  "nyx_release m g = kafl_hypercall m Release g"

definition nyx_fail :: "'w machine \<Rightarrow> string \<Rightarrow> 'w guest \<Rightarrow> (unit, 'w guest) step" where
  "nyx_fail m text g = kafl_hypercall m (PanicExtended (Some (c_str text))) g"

text \<open>A file's name is kept to 255 characters; the bytes are appended to it.\<close>

definition nyx_dump_file_to_host ::
  "'w machine \<Rightarrow> string \<Rightarrow> u8 list \<Rightarrow> 'w guest \<Rightarrow> (unit, 'w guest) step" where
  "nyx_dump_file_to_host m name bytes g = kafl_hypercall m (DumpFile (c_str (take 255 name)) bytes 1) g"

section \<open>What the agent's documentation says of the machine\<close>

text \<open>Restoring the snapshot, reporting a crash and aborting do not come back; every other call does.\<close>

fun comes_back :: "hypercall \<Rightarrow> bool" where
  "comes_back Release = False"
| "comes_back (PanicExtended _) = False"
| "comes_back (UserAbort _) = False"
| "comes_back _ = True"

definition nyx_ok :: "'w machine \<Rightarrow> bool" where
  "nyx_ok m \<longleftrightarrow> mc_returns m = comes_back"

abbreviation add_calls :: "hypercall list \<Rightarrow> 'w guest \<Rightarrow> 'w guest" where
  "add_calls cs g \<equiv> g\<lparr>gu_calls := gu_calls g @ cs\<rparr>"

lemma hypercall_ok:
  "nyx_ok m \<Longrightarrow> kafl_hypercall m c g = (if comes_back c then Returns () (add_calls [c] g) else Halts (add_calls [c] g))"
  by (simp add: kafl_hypercall_def nyx_ok_def Let_def)

lemma hprintf_ok:
  "nyx_ok m \<Longrightarrow> hprintf m text g = Returns () (add_calls [Printf (take (hprintf_max_size - 1) text)] g)"
  by (simp add: hprintf_def hypercall_ok)

section \<open>What reaches the host\<close>

text \<open>A step only adds calls, of a certain kind.\<close>

definition emits :: "(hypercall \<Rightarrow> bool) \<Rightarrow> 'w guest \<Rightarrow> ('a, 'w guest) step \<Rightarrow> bool" where
  "emits P g r \<longleftrightarrow>
     (\<forall>g'. final r = Some g' \<longrightarrow> (\<exists>cs. gu_calls g' = gu_calls g @ cs \<and> (\<forall>c\<in>set cs. P c)))"

named_theorems emitting \<open>what the steps of the agent emit\<close>

lemma emits_Returns [emitting]: "gu_calls g' = gu_calls g \<Longrightarrow> emits P g (Returns x g')"
  by (simp add: emits_def)

lemma emits_Undefined [emitting]: "emits P g Undefined"
  by (simp add: emits_def)

lemma emits_from: "emits P g' r \<Longrightarrow> gu_calls g' = gu_calls g \<Longrightarrow> emits P g r"
  by (simp add: emits_def)

lemma emits_proceed [emitting]:
  assumes "emits P g r" and "\<And>x g'. r = Returns x g' \<Longrightarrow> emits P g' (f x g')"
  shows "emits P g (proceed r f)"
  unfolding emits_def
proof (intro allI impI)
  fix g'
  assume "final (proceed r f) = Some g'"
  then consider "final r = Some g'" | x s where "r = Returns x s" "final (f x s) = Some g'"
    by (auto dest: final_proceed)
  then show "\<exists>cs. gu_calls g' = gu_calls g @ cs \<and> (\<forall>c\<in>set cs. P c)"
  proof cases
    case 1
    with assms(1) show ?thesis by (simp add: emits_def)
  next
    case 2
    then obtain cs ds where "gu_calls s = gu_calls g @ cs" "\<forall>c\<in>set cs. P c"
      "gu_calls g' = gu_calls s @ ds" "\<forall>c\<in>set ds. P c"
      using assms unfolding emits_def by (metis final.simps(1))
    then show ?thesis by (intro exI [of _ "cs @ ds"]) auto
  qed
qed

lemma emits_hypercall [emitting]: "P c \<Longrightarrow> gu_calls g' = gu_calls g \<Longrightarrow> emits P g (kafl_hypercall m c g')"
  by (simp add: emits_def kafl_hypercall_def Let_def)

lemma emits_hprintf [emitting]:
  "(\<And>text. P (Printf text)) \<Longrightarrow> gu_calls g' = gu_calls g \<Longrightarrow> emits P g (hprintf m text g')"
  by (simp add: hprintf_def emits_hypercall)

lemma emits_print_pieces [emitting]:
  assumes "\<And>msg. P (Printf msg)"
  shows "emits P g (print_pieces m msg offset g)"
proof (induction m msg offset g rule: print_pieces.induct)
  case (1 m msg offset g)
  then show ?case
    by (subst print_pieces.simps)
      (simp add: Let_def emits_Returns emits_proceed emits_hprintf assms del: One_nat_def)
qed

lemma emits_println [emitting]: "(\<And>text. P (Printf text)) \<Longrightarrow> emits P g (nyx_println m text g)"
  by (auto simp: nyx_println_def intro!: emitting)

text \<open>The texts printed, one after the other, and the crashes reported.\<close>

fun printed :: "hypercall list \<Rightarrow> string" where
  "printed [] = []"
| "printed (Printf text # cs) = text @ printed cs"
| "printed (_ # cs) = printed cs"

fun panics_of :: "hypercall list \<Rightarrow> string option list" where
  "panics_of [] = []"
| "panics_of (PanicExtended text # cs) = text # panics_of cs"
| "panics_of (_ # cs) = panics_of cs"

lemma printed_append [simp]: "printed (cs @ ds) = printed cs @ printed ds"
  by (induction cs rule: printed.induct) simp_all

lemma panics_of_append [simp]: "panics_of (cs @ ds) = panics_of cs @ panics_of ds"
  by (induction cs rule: panics_of.induct) simp_all

lemma printed_Printf [simp]: "printed (map Printf texts) = concat texts"
  by (induction texts) simp_all

lemma panics_of_Printf [simp]: "panics_of (map Printf texts) = []"
  by (induction texts) simp_all

lemma panics_of_none: "(\<And>text. PanicExtended text \<notin> set cs) \<Longrightarrow> panics_of cs = []"
  by (induction cs rule: panics_of.induct) auto

section \<open>Printing in pieces\<close>

lemma c_str_id: "CHR 0x00 \<notin> set s \<Longrightarrow> c_str s = s"
  unfolding c_str_def by (subst takeWhile_eq_all_conv) auto

lemma print_pieces_exact:
  assumes "nyx_ok m" and "CHR 0x00 \<notin> set msg"
  shows "\<exists>ps. print_pieces m msg offset g = Returns () (add_calls (map Printf ps) g) \<and>
    concat ps = drop offset msg \<and> (\<forall>p\<in>set ps. p \<noteq> [] \<and> length p < hprintf_max_size)"
  using assms
proof (induction m msg offset g rule: print_pieces.induct)
  case (1 m msg offset g)
  show ?case
  proof (cases "offset < length msg")
    case False
    then show ?thesis by (subst print_pieces.simps) (auto intro!: exI [of _ "[]"])
  next
    case True
    let ?rest = "length msg - offset"
    let ?n = "if ?rest \<ge> hprintf_max_size then hprintf_max_size - 1 else ?rest"
    let ?p = "take ?n (drop offset msg)"
    have n: "0 < ?n" "?n < hprintf_max_size" using True by (auto simp: hprintf_max_size_def)
    then have p: "?p \<noteq> []" "length ?p < hprintf_max_size" using True by auto
    have "CHR 0x00 \<notin> set ?p" using "1.prems"(2) by (meson in_set_dropD in_set_takeD)
    then have c: "c_str ?p = ?p" by (rule c_str_id)
    have "length ?p \<le> hprintf_max_size - 1" using p(2) by linarith
    then have t: "take (hprintf_max_size - 1) ?p = ?p" by (rule take_all)
    have print: "hprintf m (c_str ?p) g = Returns () (add_calls [Printf ?p] g)"
      unfolding c hprintf_ok [OF "1.prems"(1)] t by (rule refl)
    from "1.IH" [OF True refl refl print "1.prems"] obtain ps where
      ps: "print_pieces m msg (offset + ?n) (add_calls [Printf ?p] g) =
        Returns () (add_calls (map Printf ps) (add_calls [Printf ?p] g))"
      "concat ps = drop (offset + ?n) msg" "\<forall>p\<in>set ps. p \<noteq> [] \<and> length p < hprintf_max_size"
      by blast
    have "print_pieces m msg offset g = print_pieces m msg (offset + ?n) (add_calls [Printf ?p] g)"
      by (subst print_pieces.simps) (simp only: True if_True Let_def print proceed.simps)
    moreover have "concat (?p # ps) = drop offset msg"
      using append_take_drop_id [of ?n "drop offset msg"]
      by (simp only: concat.simps ps(2) drop_drop add.commute)
    moreover have "\<forall>q\<in>set (?p # ps). q \<noteq> [] \<and> length q < hprintf_max_size"
      using p ps(3) by (simp only: list.set ball_simps) blast
    moreover have "add_calls (map Printf ps) (add_calls [Printf ?p] g) = add_calls (map Printf (?p # ps)) g"
      by (simp only: list.map) simp
    ultimately show ?thesis using ps(1) by metis
  qed
qed

text \<open>What a line without a zero in it becomes on the host.\<close>

lemma nyx_println_exact:
  assumes "nyx_ok m" and "CHR 0x00 \<notin> set text"
  shows "\<exists>ps. nyx_println m text g = Returns () (add_calls (map Printf ps) g) \<and>
    concat ps = text @ newline_text \<and> (\<forall>p\<in>set ps. length p < hprintf_max_size)"
proof -
  have nl: "take (hprintf_max_size - 1) newline_text = newline_text" by (simp add: hprintf_max_size_def)
  have "\<exists>ps. (if length text < hprintf_max_size then hprintf m (c_str text) g else print_pieces m text 0 g) =
      Returns () (add_calls (map Printf ps) g) \<and> concat ps = text \<and> (\<forall>p\<in>set ps. length p < hprintf_max_size)"
  proof (cases "length text < hprintf_max_size")
    case True
    then have "take (hprintf_max_size - 1) text = text" by simp
    with True show ?thesis
      by (intro exI [of _ "[text]"]) (simp add: c_str_id [OF assms(2)] hprintf_ok [OF assms(1)])
  next
    case False
    with print_pieces_exact [OF assms, of 0 g] show ?thesis by auto
  qed
  then obtain ps where ps: "(if length text < hprintf_max_size then hprintf m (c_str text) g
      else print_pieces m text 0 g) = Returns () (add_calls (map Printf ps) g)"
    "concat ps = text" "\<forall>p\<in>set ps. length p < hprintf_max_size" by blast
  then show ?thesis
    by (intro exI [of _ "ps @ [newline_text]"])
      (simp add: nyx_println_def ps hprintf_ok [OF assms(1)] nl hprintf_max_size_def)
qed

end
