(* ===== verification/Nyx_Runner.thy ===== *)
theory Nyx_Runner
  imports Pool_Scenario Nyx_Agent Filing
begin

text \<open>
  The entry point of a scenario binary (\<open>stratamoto_main!\<close> of \<open>scenario.rs\<close>) over the runner it is
  built with (\<open>runners.rs\<close>): the local one, or the one that talks to the fuzzer through the Nyx
  agent. The entry point is written once over the operations of a runner and of a scenario, with the
  drops Rust makes at the end of a scope and while it unwinds; the pool scenario is then run by
  either runner. What goes to the log besides the runner's own lines is left out.
\<close>

section \<open>Runners\<close>

record ('r, 's) runner =
  rn_new :: "'s \<Rightarrow> ('r, 's) step"
  rn_get_fuzz_input :: "'r \<Rightarrow> 's \<Rightarrow> (u8 list, 's) step"
  rn_fail :: "'r \<Rightarrow> string \<Rightarrow> 's \<Rightarrow> (unit, 's) step"
  rn_skip :: "'r \<Rightarrow> 's \<Rightarrow> (unit, 's) step"
  rn_drop :: "'r \<Rightarrow> 's \<Rightarrow> (unit, 's) step"

text \<open>The local runner, which logs.\<close>

datatype log_line = LogInfo string | LogWarn string | LogError string

record 'w local_run =
  lr_log :: "log_line list"
  lr_world :: 'w

definition add_line :: "log_line \<Rightarrow> 'w local_run \<Rightarrow> 'w local_run" where
  "add_line l s = s\<lparr>lr_log := lr_log s @ [l]\<rparr>"

definition local_input_line :: "'w runner_io \<Rightarrow> 'w \<Rightarrow> log_line" where
  "local_input_line ri w =
     LogInfo (case ri_env ri ''STRATAMOTO_INPUT'' w of
                Some path \<Rightarrow> ''reading the input from '' @ path
              | None \<Rightarrow> ''reading the input from stdin'')"

definition local_runner :: "'w runner_io \<Rightarrow> (unit, 'w local_run) runner" where
  "local_runner ri =
     \<lparr>rn_new = Returns (),
      rn_get_fuzz_input = (\<lambda>_ s. Returns (local_fuzz_input ri (lr_world s))
                             (add_line (local_input_line ri (lr_world s)) s)),
      rn_fail = (\<lambda>_ report s. Returns () (add_line (LogError report) s)),
      rn_skip = (\<lambda>_ s. Returns () (add_line (LogWarn ''skipping the test case'') s)),
      rn_drop = (\<lambda>_ s. Returns () s)\<rparr>"

text \<open>The runner under Nyx holds the size of the largest input. \<open>CString::new\<close> refuses a text with a
  zero in it, and the default is the empty text.\<close>

definition c_string :: "string \<Rightarrow> string" where
  "c_string s = (if CHR 0x00 \<in> set s then [] else s)"

definition nyx_runner_input ::
  "'w machine \<Rightarrow> agent_build \<Rightarrow> nat \<Rightarrow> 'w guest \<Rightarrow> (u8 list, 'w guest) step" where
  "nyx_runner_input m b max_input_size g =
     proceed (nyx_get_fuzz_input m b (replicate max_input_size 0) max_input_size g)
       (\<lambda>(data, len) g. Returns (take len data) g)"

definition nyx_runner_fail :: "'w machine \<Rightarrow> string \<Rightarrow> 'w guest \<Rightarrow> (unit, 'w guest) step" where
  "nyx_runner_fail m report g =
     proceed (nyx_println m (c_string report) g) (\<lambda>_ g. nyx_fail m (c_string report) g)"

definition nyx_runner :: "'w machine \<Rightarrow> agent_build \<Rightarrow> (nat, 'w guest) runner" where
  "nyx_runner m b =
     \<lparr>rn_new = nyx_init m b,
      rn_get_fuzz_input = nyx_runner_input m b,
      rn_fail = (\<lambda>_. nyx_runner_fail m),
      rn_skip = (\<lambda>_. nyx_skip m),
      rn_drop = (\<lambda>_. nyx_release m)\<rparr>"

lemma nyx_runner_simps [simp]:
  "rn_new (nyx_runner m b) = nyx_init m b"
  "rn_get_fuzz_input (nyx_runner m b) = nyx_runner_input m b"
  "rn_fail (nyx_runner m b) r = nyx_runner_fail m"
  "rn_skip (nyx_runner m b) r = nyx_skip m"
  "rn_drop (nyx_runner m b) r = nyx_release m"
  by (simp_all add: nyx_runner_def)

text \<open>The runner a binary is built with, around one of these.\<close>

record 'r std_runner_state =
  sr_runner :: 'r

definition std_runner :: "('r, 's) runner \<Rightarrow> ('r std_runner_state, 's) runner" where
  "std_runner rn =
     \<lparr>rn_new = (\<lambda>s. proceed (rn_new rn s) (\<lambda>r s. Returns \<lparr>sr_runner = r\<rparr> s)),
      rn_get_fuzz_input = (\<lambda>r. rn_get_fuzz_input rn (sr_runner r)),
      rn_fail = (\<lambda>r. rn_fail rn (sr_runner r)),
      rn_skip = (\<lambda>r. rn_skip rn (sr_runner r)),
      rn_drop = (\<lambda>r. rn_drop rn (sr_runner r))\<rparr>"

lemma std_runner_simps [simp]:
  "rn_new (std_runner rn) s = proceed (rn_new rn s) (\<lambda>r s. Returns \<lparr>sr_runner = r\<rparr> s)"
  "rn_get_fuzz_input (std_runner rn) q = rn_get_fuzz_input rn (sr_runner q)"
  "rn_fail (std_runner rn) q = rn_fail rn (sr_runner q)"
  "rn_skip (std_runner rn) q = rn_skip rn (sr_runner q)"
  "rn_drop (std_runner rn) q = rn_drop rn (sr_runner q)"
  by (simp_all add: std_runner_def)

section \<open>The entry point\<close>

record ('d, 'q, 's) scenario =
  sn_new :: "string list \<Rightarrow> 's \<Rightarrow> (harness_error + 'd, 's) step"
  sn_decode :: "u8 list \<Rightarrow> (harness_error, 'q) outcome"
  sn_run :: "'d \<Rightarrow> 'q \<Rightarrow> 's \<Rightarrow> (scenario_result, 's) step"
  sn_drop :: "'d \<Rightarrow> 's \<Rightarrow> (unit, 's) step"

text \<open>A value is dropped when its scope ends, also by a panic; a call that does not come back drops
  nothing.\<close>

fun scoped :: "('s \<Rightarrow> (unit, 's) step) \<Rightarrow> ('a, 's) step \<Rightarrow> ('a, 's) step" where
  "scoped drop_it (Returns x s) = proceed (drop_it s) (\<lambda>_ s. Returns x s)"
| "scoped drop_it (Panics s) = proceed (drop_it s) (\<lambda>_ s. Panics s)"
| "scoped drop_it (Halts s) = Halts s"
| "scoped drop_it Diverges = Diverges"
| "scoped drop_it Undefined = Undefined"

definition report_result ::
  "('r, 's) runner \<Rightarrow> 'r \<Rightarrow> (oracle_failure \<Rightarrow> string) \<Rightarrow> scenario_result \<Rightarrow> 's \<Rightarrow> (nat, 's) step" where
  "report_result rn r render result s =
     (case result of
        ScOk \<Rightarrow> Returns 0 s
      | ScSkip \<Rightarrow> proceed (rn_skip rn r s) (\<lambda>_ s. Returns 0 s)
      | ScFail name e \<Rightarrow>
          proceed (rn_fail rn r (''FAIL: '' @ verdict_text render name e) s) (\<lambda>_ s. Returns 1 s)
      | ScInfrastructure name e \<Rightarrow>
          proceed (rn_fail rn r (''INFRASTRUCTURE: '' @ verdict_text render name e) s) (\<lambda>_ s. Returns 2 s))"

definition run_input ::
  "('r, 's) runner \<Rightarrow> 'r \<Rightarrow> ('d, 'q, 's) scenario \<Rightarrow> 'd \<Rightarrow> (oracle_failure \<Rightarrow> string) \<Rightarrow> 's \<Rightarrow> (nat, 's) step" where
  "run_input rn r sn d render s =
     proceed (rn_get_fuzz_input rn r s) (\<lambda>bytes s.
     case sn_decode sn bytes of
       Panic \<Rightarrow> Panics s
     | Err e \<Rightarrow> proceed (rn_skip rn r s) (\<lambda>_ s. Returns 0 s)
     | Ok q \<Rightarrow> proceed (sn_run sn d q s) (\<lambda>result s. report_result rn r render result s))"

definition stratamoto_main ::
  "('r, 's) runner \<Rightarrow> ('d, 'q, 's) scenario \<Rightarrow> (oracle_failure \<Rightarrow> string) \<Rightarrow> string list \<Rightarrow> 's \<Rightarrow> (nat, 's) step" where
  "stratamoto_main rn sn render args s =
     proceed (rn_new rn s) (\<lambda>r s.
     scoped (rn_drop rn r)
       (proceed (sn_new sn args s) (\<lambda>started s.
        case started of
          Inl e \<Rightarrow>
            proceed (rn_fail rn r (''INFRASTRUCTURE: could not initialize the scenario: '' @ error_display e) s)
              (\<lambda>_ s. Returns 2 s)
        | Inr d \<Rightarrow> scoped (sn_drop sn d) (run_input rn r sn d render s))))"

section \<open>The pool scenario, run by a runner\<close>

text \<open>The scenario's own steps act on the world within the state; only the context it dumps goes
  through the runner's side.\<close>

definition in_world ::
  "('s \<Rightarrow> 'w) \<Rightarrow> ('w \<Rightarrow> 's \<Rightarrow> 's) \<Rightarrow> ('w \<Rightarrow> ('a \<times> 'w) option) \<Rightarrow> 's \<Rightarrow> ('a, 's) step" where
  "in_world world put act s =
     (case act (world s) of None \<Rightarrow> Diverges | Some (x, w) \<Rightarrow> Returns x (put w s))"

definition pool_start ::
  "('k, 'l, 'w) host \<Rightarrow> 'w node_host \<Rightarrow> string list \<Rightarrow> 'w \<Rightarrow> ((target_error + pool) \<times> 'w) option" where
  "pool_start h nd args w =
     (case get args 1 of
        Some binary \<Rightarrow> deployment_start_with h nd binary w
      | None \<Rightarrow> deployment_start h nd w)"

definition pool_scenario ::
  "('s \<Rightarrow> 'w) \<Rightarrow> ('w \<Rightarrow> 's \<Rightarrow> 's) \<Rightarrow> (string \<Rightarrow> u8 list \<Rightarrow> 's \<Rightarrow> (unit, 's) step) \<Rightarrow>
   ('k, 'l, 'w) host \<Rightarrow> 'w node_host \<Rightarrow> (program_context \<Rightarrow> string + u8 list) \<Rightarrow> ('l, 'w) deployment \<Rightarrow>
   codec \<Rightarrow> (u8 list \<Rightarrow> string + program) \<Rightarrow> (pool, compiled_program, 's) scenario" where
  "pool_scenario world put dump h nd context_to_bytes base cd from_bytes =
     \<lparr>sn_new = (\<lambda>args s.
        proceed (in_world world put (pool_start h nd args) s) (\<lambda>started s.
        case started of
          Inl e \<Rightarrow> Returns (Inl (Target (target_error_display e))) s
        | Inr pool \<Rightarrow>
            proceed (case context_to_bytes (pool_context (pool_deployment h pool base)) of
                       Inl e \<Rightarrow> Returns () s
                     | Inr bytes \<Rightarrow> dump ''ir.context'' bytes s)
              (\<lambda>_ s. Returns (Inr pool) s))),
      sn_decode = decode_case from_bytes cd,
      sn_run = (\<lambda>pool q s.
        proceed (in_world world put (execute (pool_deployment h pool base) q) s) (\<lambda>r s.
        case r of Ok (ex, result) \<Rightarrow> Returns result s | _ \<Rightarrow> Panics s)),
      sn_drop = (\<lambda>pool s. Returns () (put (nd_stop nd (drop_pool h pool (world s))) s))\<rparr>"

definition local_dump :: "'w runner_io \<Rightarrow> string \<Rightarrow> u8 list \<Rightarrow> 'w local_run \<Rightarrow> (unit, 'w local_run) step" where
  "local_dump ri name bytes s = Returns () (s\<lparr>lr_world := dump_to_host ri name bytes (lr_world s)\<rparr>)"

abbreviation local_pool where
  "local_pool ri \<equiv> pool_scenario lr_world (\<lambda>w s. s\<lparr>lr_world := w\<rparr>) (local_dump ri)"

abbreviation nyx_pool where
  "nyx_pool m \<equiv> pool_scenario gu_world (\<lambda>w g. g\<lparr>gu_world := w\<rparr>) (nyx_dump_file_to_host m)"

section \<open>The contract of a runner\<close>

text \<open>What a step tells of findings: \<open>told\<close> lists those that reached whoever listens.\<close>

definition keeps :: "('s \<Rightarrow> string list) \<Rightarrow> 's \<Rightarrow> ('a, 's) step \<Rightarrow> bool" where
  "keeps told s r \<longleftrightarrow> (\<forall>s'. final r = Some s' \<longrightarrow> told s' = told s)"

definition tells_once :: "('s \<Rightarrow> string list) \<Rightarrow> (string \<Rightarrow> string) \<Rightarrow> 's \<Rightarrow> 's \<Rightarrow> bool" where
  "tells_once told shown s s' \<longleftrightarrow> told s' = told s \<or> (\<exists>t. told s' = told s @ [shown t])"

text \<open>A run that returns an exit code has told one finding exactly when the code is not 0, and of the
  kind that the code names; any other end has told one at most.\<close>

fun tells_code :: "('s \<Rightarrow> string list) \<Rightarrow> (string \<Rightarrow> string) \<Rightarrow> 's \<Rightarrow> (nat, 's) step \<Rightarrow> bool" where
  "tells_code told shown s (Returns code s') \<longleftrightarrow>
     code = 0 \<and> told s' = told s \<or>
     code = 1 \<and> (\<exists>t. told s' = told s @ [shown (''FAIL: '' @ t)]) \<or>
     code = 2 \<and> (\<exists>t. told s' = told s @ [shown (''INFRASTRUCTURE: '' @ t)])"
| "tells_code told shown s (Halts s') \<longleftrightarrow> tells_once told shown s s'"
| "tells_code told shown s (Panics s') \<longleftrightarrow> tells_once told shown s s'"
| "tells_code told shown s Diverges \<longleftrightarrow> True"
| "tells_code told shown s Undefined \<longleftrightarrow> True"

named_theorems telling \<open>what the parts of the entry point tell\<close>

lemma keeps_Returns [telling]: "told s' = told s \<Longrightarrow> keeps told s (Returns x s')"
  and keeps_Panics [telling]: "told s' = told s \<Longrightarrow> keeps told s (Panics s')"
  and keeps_Diverges [telling]: "keeps told s Diverges"
  by (simp_all add: keeps_def)

lemma keeps_proceed [telling]:
  assumes "keeps told s r" and "\<And>x s'. r = Returns x s' \<Longrightarrow> keeps told s' (f x s')"
  shows "keeps told s (proceed r f)"
  using assms unfolding keeps_def by (metis final.simps(1) final_proceed)

lemma tells_proceed [telling]:
  assumes "keeps told s r" and "\<And>x s'. r = Returns x s' \<Longrightarrow> tells_code told shown s' (f x s')"
  shows "tells_code told shown s (proceed r f)"
proof (cases r)
  case (Returns x s')
  with assms have "told s' = told s" "tells_code told shown s' (f x s')" by (simp_all add: keeps_def)
  then have "tells_code told shown s (f x s')"
    by (cases "f x s'") (auto simp: tells_once_def)
  with Returns show ?thesis by simp
qed (use assms(1) in \<open>auto simp: keeps_def tells_once_def\<close>)

lemma tells_scoped [telling]:
  assumes "tells_code told shown s r" and "\<And>s'. keeps told s' (drop_it s')"
  shows "tells_code told shown s (scoped drop_it r)"
proof (cases r)
  case (Returns code s')
  with assms(1) assms(2) [of s'] show ?thesis
    by (cases "drop_it s'") (auto simp: keeps_def tells_once_def)
next
  case (Panics s')
  with assms(1) assms(2) [of s'] show ?thesis
    by (cases "drop_it s'") (auto simp: keeps_def tells_once_def)
qed (use assms(1) in simp_all)

definition scenario_keeps :: "('s \<Rightarrow> string list) \<Rightarrow> ('d, 'q, 's) scenario \<Rightarrow> bool" where
  "scenario_keeps told sn \<longleftrightarrow>
     (\<forall>args s. keeps told s (sn_new sn args s)) \<and>
     (\<forall>d q s. keeps told s (sn_run sn d q s)) \<and>
     (\<forall>d s. keeps told s (sn_drop sn d s))"

locale runner_contract =
  fixes rn :: "('r, 's) runner" and told :: "'s \<Rightarrow> string list" and shown :: "string \<Rightarrow> string"
  assumes new_keeps: "keeps told s (rn_new rn s)"
    and input_keeps: "keeps told s (rn_get_fuzz_input rn r s)"
    and skip_keeps: "keeps told s (rn_skip rn r s)"
    and drop_keeps: "keeps told s (rn_drop rn r s)"
    and fail_tells_once: "final (rn_fail rn r report s) = Some s' \<Longrightarrow>
      told s' = told s \<or> told s' = told s @ [shown report]"
    and fail_tells: "rn_fail rn r report s = Returns u s' \<Longrightarrow> told s' = told s @ [shown report]"
begin

lemma fail_then_code:
  assumes "code = 1 \<and> report = ''FAIL: '' @ t \<or> code = 2 \<and> report = ''INFRASTRUCTURE: '' @ t"
  shows "tells_code told shown s (proceed (rn_fail rn r report s) (\<lambda>_. Returns code))"
proof (cases "rn_fail rn r report s")
  case (Returns u s')
  with fail_tells [OF Returns] assms show ?thesis by auto
next
  case (Halts s')
  with fail_tells_once [of r report s s'] show ?thesis by (auto simp: tells_once_def)
next
  case (Panics s')
  with fail_tells_once [of r report s s'] show ?thesis by (auto simp: tells_once_def)
qed simp_all

lemma result_tells: "tells_code told shown s (report_result rn r render result s)"
  by (cases result) (auto simp: report_result_def intro!: fail_then_code tells_proceed skip_keeps)

lemma input_tells:
  assumes "scenario_keeps told sn"
  shows "tells_code told shown s (run_input rn r sn d render s)"
  unfolding run_input_def
  using assms
  by (auto simp: scenario_keeps_def tells_once_def split: outcome.split
      intro!: tells_proceed input_keeps skip_keeps result_tells)

lemma main_tells:
  assumes "scenario_keeps told sn"
  shows "tells_code told shown s (stratamoto_main rn sn render args s)"
  unfolding stratamoto_main_def
  using assms
  by (auto simp: scenario_keeps_def split: sum.split
      intro!: tells_proceed tells_scoped new_keeps drop_keeps fail_then_code input_tells [OF assms])

end

text \<open>The runner a binary is built with keeps the contract of the one within.\<close>

lemma std_runner_contract:
  assumes "runner_contract rn told shown"
  shows "runner_contract (std_runner rn) told shown"
proof -
  note [simp] = std_runner_def
  show ?thesis
  proof
    show "keeps told s (rn_new (std_runner rn) s)" for s
      using runner_contract.new_keeps [OF assms] by (auto intro!: telling)
  qed (use assms in \<open>auto simp: runner_contract_def\<close>)
qed

section \<open>Both runners keep it\<close>

fun error_lines :: "log_line list \<Rightarrow> string list" where
  "error_lines [] = []"
| "error_lines (LogError t # ls) = t # error_lines ls"
| "error_lines (_ # ls) = error_lines ls"

lemma error_lines_append [simp]: "error_lines (ls @ ks) = error_lines ls @ error_lines ks"
  by (induction ls rule: error_lines.induct) simp_all

abbreviation logged_errors :: "'w local_run \<Rightarrow> string list" where
  "logged_errors s \<equiv> error_lines (lr_log s)"

lemma local_contract: "runner_contract (local_runner ri) logged_errors id"
  by unfold_locales
    (auto simp: local_runner_def keeps_def add_line_def local_input_line_def)

interpretation locally: runner_contract "std_runner (local_runner ri)" logged_errors id for ri
  by (rule std_runner_contract [OF local_contract])

text \<open>Under Nyx a finding reaches the fuzzer by the hypercall that reports a crash.\<close>

definition reported :: "hypercall list \<Rightarrow> string list" where
  "reported cs = map (case_option [] id) (panics_of cs)"

abbreviation reported_crashes :: "'w guest \<Rightarrow> string list" where
  "reported_crashes g \<equiv> reported (gu_calls g)"

definition no_panic :: "hypercall \<Rightarrow> bool" where
  "no_panic c \<longleftrightarrow> (\<forall>t. c \<noteq> PanicExtended t)"

lemma no_panic_simps [simp]:
  "no_panic GetHostConfig" "no_panic (SetAgentConfig a)" "no_panic (GetPayload n)" "no_panic (Printf t)"
  "no_panic (SubmitMode k)" "no_panic FastAcquire" "no_panic Release" "no_panic (UserAbort t)"
  "no_panic (DumpFile t bytes k)"
  by (simp_all add: no_panic_def)

lemma emits_keeps: "emits no_panic g r \<Longrightarrow> keeps reported_crashes g r"
proof -
  assume e: "emits no_panic g r"
  have "panics_of cs = []" if "\<forall>c\<in>set cs. no_panic c" for cs
    using that by (intro panics_of_none) (auto simp: no_panic_def)
  with e show ?thesis by (fastforce simp: keeps_def emits_def reported_def)
qed

lemma mark_trace_emits [emitting]: "gu_calls g' = gu_calls g \<Longrightarrow> emits P g (mark_trace g')"
  by (simp add: mark_trace_def emits_def)

lemma nyx_init_emits: "emits no_panic g (nyx_init m b g)"
  unfolding nyx_init_def check_host_def print_capabilities_def print_coverage_def share_map_def habort_def Let_def
  by (auto intro!: emitting split: option.split prod.split)

lemma nyx_input_emits: "emits no_panic g (nyx_runner_input m b k g)"
  unfolding nyx_runner_input_def nyx_get_fuzz_input_def clear_trace_def Let_def
  by (auto intro!: emitting split: option.split prod.split)

lemma nyx_skip_emits: "emits no_panic g (nyx_skip m g)"
  unfolding nyx_skip_def clear_trace_def by (auto intro!: emitting)

lemma nyx_release_emits: "emits no_panic g (nyx_release m g)"
  unfolding nyx_release_def by (auto intro!: emitting)

lemma nyx_dump_emits: "emits no_panic g (nyx_dump_file_to_host m name bytes g)"
  unfolding nyx_dump_file_to_host_def by (auto intro!: emitting)

lemma nyx_fail_tells:
  assumes "final (nyx_runner_fail m report g) = Some g'"
  shows "reported_crashes g' = reported_crashes g \<or> reported_crashes g' = reported_crashes g @ [c_string report]"
    and "nyx_runner_fail m report g = Returns u g' \<Longrightarrow> reported_crashes g' = reported_crashes g @ [c_string report]"
proof -
  have c: "c_str (c_string report) = c_string report"
    using c_str_id [of report] by (auto simp: c_string_def c_str_def)
  have p: "emits no_panic g (nyx_println m (c_string report) g)" by (rule emits_println) simp
  have f: "reported_crashes g2 = reported_crashes g1 @ [c_string report]"
    if "final (nyx_fail m (c_string report) g1) = Some g2" for g1 g2
    using that by (auto simp: nyx_fail_def kafl_hypercall_def reported_def c Let_def split: if_splits)
  have k: "keeps reported_crashes g (nyx_println m (c_string report) g)" by (rule emits_keeps [OF p])
  show "reported_crashes g' = reported_crashes g \<or> reported_crashes g' = reported_crashes g @ [c_string report]"
    using assms k f unfolding nyx_runner_fail_def keeps_def
    by (cases "nyx_println m (c_string report) g") auto
  show "reported_crashes g' = reported_crashes g @ [c_string report]"
    if "nyx_runner_fail m report g = Returns u g'"
  proof -
    from that obtain u1 g1 where "nyx_println m (c_string report) g = Returns u1 g1"
      "nyx_fail m (c_string report) g1 = Returns u g'"
      unfolding nyx_runner_fail_def by (cases "nyx_println m (c_string report) g") auto
    with f [of g1 g'] k show ?thesis by (simp add: keeps_def)
  qed
qed

lemma nyx_contract:
  fixes m :: "'w machine"
  shows "runner_contract (nyx_runner m b) reported_crashes c_string"
proof unfold_locales
  fix r report u and g g' :: "'w guest"
  show "final (rn_fail (nyx_runner m b) r report g) = Some g' \<Longrightarrow>
      reported_crashes g' = reported_crashes g \<or> reported_crashes g' = reported_crashes g @ [c_string report]"
    using nyx_fail_tells(1) by (simp add: nyx_runner_def)
  show "reported_crashes g' = reported_crashes g @ [c_string report]"
    if "rn_fail (nyx_runner m b) r report g = Returns u g'"
    using that nyx_fail_tells(2) [of m report g g' u] by (simp add: nyx_runner_def)
qed (auto simp: nyx_runner_def intro!: emits_keeps nyx_init_emits nyx_input_emits nyx_skip_emits nyx_release_emits)

interpretation nyx: runner_contract "std_runner (nyx_runner m b)" reported_crashes c_string for m b
  by (rule std_runner_contract [OF nyx_contract])

text \<open>The pool scenario tells nothing itself, with either.\<close>

lemma in_world_keeps:
  "(\<And>w. told (put w s) = told s) \<Longrightarrow> keeps told s (in_world world put act s)"
  by (auto simp: in_world_def keeps_def split: option.split)

lemma pool_scenario_keeps:
  assumes "\<And>w s. told (put w s) = told s" and "\<And>name bytes s. keeps told s (dump name bytes s)"
  shows "scenario_keeps told (pool_scenario world put dump h nd enc base cd from_bytes)"
  using assms
  by (auto simp: scenario_keeps_def pool_scenario_def split: sum.split outcome.split
      intro!: telling in_world_keeps)

lemma local_pool_keeps: "scenario_keeps logged_errors (local_pool ri h nd enc base cd from_bytes)"
  by (rule pool_scenario_keeps) (simp_all add: local_dump_def keeps_def)

lemma nyx_pool_keeps: "scenario_keeps reported_crashes (nyx_pool m h nd enc base cd from_bytes)"
  by (rule pool_scenario_keeps) (simp_all add: emits_keeps nyx_dump_emits)

text \<open>The runner a binary is built with only passes on.\<close>

lemma std_main: "stratamoto_main (std_runner rn) sn render args s = stratamoto_main rn sn render args s"
proof -
  have result: "report_result (std_runner rn) \<lparr>sr_runner = r\<rparr> render = report_result rn r render" for r
    by (intro ext) (simp add: report_result_def split: scenario_result.split)
  have input: "run_input (std_runner rn) \<lparr>sr_runner = r\<rparr> sn d render = run_input rn r sn d render" for r d
    by (intro ext) (simp add: run_input_def result cong: outcome.case_cong)
  show ?thesis by (simp add: stratamoto_main_def input cong: sum.case_cong)
qed

section \<open>Properties\<close>

text \<open>C27: Whatever the machine does, the pool scenario's binary under Nyx reports at most one crash, and
  so does its log locally at most one error: none when the exit code is 0, and for the codes 1 and 2 one
  whose text began with FAIL and with INFRASTRUCTURE; a text with a zero in it is reported as the empty
  one under Nyx.\<close>

theorem one_report_at_most:
  "tells_code reported_crashes c_string g
     (stratamoto_main (std_runner (nyx_runner m b)) (nyx_pool m h nd enc base cd from_bytes) render args g) \<and>
   tells_code logged_errors id s
     (stratamoto_main (std_runner (local_runner ri)) (local_pool ri h nd enc base cd from_bytes) render args s)"
  by (intro conjI nyx.main_tells [OF nyx_pool_keeps] locally.main_tells [OF local_pool_keeps])

end
