(* ===== verification/Scenario_Runs.thy ===== *)
theory Scenario_Runs
  imports Nyx_Runner
begin

text \<open>
  Whole runs of the pool scenario's binary, locally and under Nyx: what each leaves behind, where the
  snapshot is taken, that both runners come to the same verdict, and what the fuzzer reads of it.
\<close>

section \<open>A run under Nyx\<close>

abbreviation max_input :: "'w machine \<Rightarrow> nat" where
  "max_input m \<equiv> unat (hc_payload_buffer_size (mc_host_config m))"

text \<open>A machine the agent is made for: its versions, shared memory, and a payload that the buffer holds
  together with its size.\<close>

definition vm_ok :: "'w machine \<Rightarrow> agent_build \<Rightarrow> bool" where
  "vm_ok m b \<longleftrightarrow> nyx_ok m \<and>
     hc_magic (mc_host_config m) = host_magic \<and> hc_version (mc_host_config m) = host_version \<and>
     (\<forall>n w. fst (mc_shmget m n w) \<noteq> -1) \<and> (\<forall>i w. fst (mc_shmat m i w) \<noteq> None) \<and>
     coverage_size m b \<noteq> 0 \<and>
     copy_payload (mc_payload m) (max_input m) (replicate (max_input m) 0) \<noteq> None"

text \<open>The input the machine hands over, and the world once the agent is set up.\<close>

definition nyx_input :: "'w machine \<Rightarrow> u8 list" where
  "nyx_input m =
     (case copy_payload (mc_payload m) (max_input m) (replicate (max_input m) 0) of
        None \<Rightarrow> [] | Some (data, len) \<Rightarrow> take len data)"

definition setup_world :: "'w machine \<Rightarrow> agent_build \<Rightarrow> 'w \<Rightarrow> 'w" where
  "setup_world m b w =
     (case mc_shmget m (unat (coverage_size m b)) w of
        (shmid, w1) \<Rightarrow>
          snd (mc_shmat m shmid (mc_setenv m ''AFL_MAP_SIZE'' (word_decimal (coverage_size m b))
            (mc_setenv m ''__AFL_SHM_ID'' (signed_decimal shmid) w1))))"

definition acquired_world :: "'w machine \<Rightarrow> 'w \<Rightarrow> 'w" where
  "acquired_world m w = snd (mc_mmap m (max_input m) w)"

text \<open>Calls that take no snapshot and report no crash.\<close>

definition quiet :: "hypercall list \<Rightarrow> bool" where
  "quiet cs \<longleftrightarrow> FastAcquire \<notin> set cs \<and> panics_of cs = []"

lemma quiet_Nil [simp]: "quiet []"
  and quiet_append [simp]: "quiet (cs @ ds) \<longleftrightarrow> quiet cs \<and> quiet ds"
  by (auto simp: quiet_def)

lemma quiet_Cons [simp]: "quiet (c # cs) \<longleftrightarrow> c \<noteq> FastAcquire \<and> no_panic c \<and> quiet cs"
  by (cases c) (auto simp: quiet_def no_panic_def)

lemma quiet_Printf [simp]: "quiet (map Printf texts)"
  by (induction texts) simp_all

lemma check_host_ok:
  assumes "vm_ok m b"
  shows "check_host m g = Returns () (add_calls [GetHostConfig] g)"
  using assms by (simp add: check_host_def vm_ok_def hypercall_ok)

lemma capabilities_ok:
  assumes "nyx_ok m"
  shows "\<exists>texts. print_capabilities m g = Returns () (add_calls (map Printf texts) g)"
  unfolding print_capabilities_def Let_def
  by (simp only: hprintf_ok [OF assms] proceed.simps)
    (rule exI [of _ "[a, b, c]" for a b c], simp only: list.map, simp)

lemma coverage_ok:
  assumes "nyx_ok m"
  shows "\<exists>texts. print_coverage m b g = Returns () (add_calls (map Printf texts) g)"
proof (cases "ab_target_map b")
  case None
  show ?thesis
    unfolding print_coverage_def None option.case hprintf_ok [OF assms]
    by (rule exI [of _ "[a]" for a], simp only: list.map)
next
  case (Some n)
  show ?thesis
  proof (cases "ab_afl_map b")
    case None
    show ?thesis
      unfolding print_coverage_def Some None option.case hprintf_ok [OF assms] proceed.simps
      by (rule exI [of _ "[a, b]" for a b], simp only: list.map, simp)
  next
    case (Some k)
    show ?thesis
      unfolding print_coverage_def \<open>ab_target_map b = Some n\<close> Some option.case hprintf_ok [OF assms] proceed.simps
      by (rule exI [of _ "[a, b]" for a b], simp only: list.map, simp)
  qed
qed

lemma share_map_ok:
  assumes "vm_ok m b"
  shows "\<exists>address. share_map m (coverage_size m b) g =
    Returns address (g\<lparr>gu_world := setup_world m b (gu_world g),
      gu_trace := replicate (unat (coverage_size m b)) 0\<rparr>)"
proof -
  obtain i w1 where get: "mc_shmget m (unat (coverage_size m b)) (gu_world g) = (i, w1)" by fastforce
  with assms have i: "i \<noteq> -1" unfolding vm_ok_def by (metis fst_conv)
  let ?w3 = "mc_setenv m ''AFL_MAP_SIZE'' (word_decimal (coverage_size m b))
    (mc_setenv m ''__AFL_SHM_ID'' (signed_decimal i) w1)"
  obtain a w4 where att: "mc_shmat m i ?w3 = (a, w4)" by fastforce
  with assms have "a \<noteq> None" unfolding vm_ok_def by (metis fst_conv)
  then obtain address where "a = Some address" by blast
  with get i att show ?thesis by (simp add: share_map_def setup_world_def Let_def)
qed

text \<open>Setting up makes no snapshot.\<close>

lemma nyx_init_ok:
  assumes "vm_ok m b" and "\<not> gu_initialized g"
  shows "\<exists>cs. quiet cs \<and> nyx_init m b g =
    Returns (max_input m) (g\<lparr>gu_initialized := True, gu_world := setup_world m b (gu_world g),
      gu_trace := replicate (unat (coverage_size m b)) 0, gu_calls := gu_calls g @ cs\<rparr>)"
proof -
  have ok: "nyx_ok m" using assms(1) by (simp add: vm_ok_def)
  let ?g1 = "add_calls [GetHostConfig] (g\<lparr>gu_initialized := True\<rparr>)"
  obtain t2 where t2: "print_capabilities m ?g1 = Returns () (add_calls (map Printf t2) ?g1)"
    using capabilities_ok [OF ok] by blast
  let ?g2 = "add_calls (map Printf t2) ?g1"
  obtain t3 where t3: "print_coverage m b ?g2 = Returns () (add_calls (map Printf t3) ?g2)"
    using coverage_ok [OF ok] by blast
  let ?g3 = "add_calls (map Printf t3) ?g2"
  obtain a where a: "share_map m (coverage_size m b) ?g3 =
      Returns a (?g3\<lparr>gu_world := setup_world m b (gu_world ?g3),
        gu_trace := replicate (unat (coverage_size m b)) 0\<rparr>)"
    using share_map_ok [OF assms(1)] by blast
  let ?last = "SetAgentConfig (agent_config_of a (coverage_size m b))"
  show ?thesis
    using t2 t3 a assms(2) check_host_ok [OF assms(1), of "g\<lparr>gu_initialized := True\<rparr>"]
    by (intro exI [of _ "GetHostConfig # map Printf t2 @ map Printf t3 @ [?last]"])
      (auto simp: nyx_init_def hypercall_ok [OF ok])
qed

lemma nyx_input_ok:
  assumes "vm_ok m b" and "gu_trace g \<noteq> []"
  shows "\<exists>cs g1. quiet cs \<and> nyx_runner_input m b (max_input m) g = Returns (nyx_input m) g1 \<and>
    gu_calls g1 = gu_calls g @ cs @ [FastAcquire] \<and> gu_trace g1 \<noteq> [] \<and>
    gu_world g1 = acquired_world m (gu_world g)"
proof -
  have ok: "nyx_ok m" using assms(1) by (simp add: vm_ok_def)
  obtain data len where copy: "copy_payload (mc_payload m) (max_input m) (replicate (max_input m) 0) = Some (data, len)"
    using assms(1) unfolding vm_ok_def by auto
  obtain address w1 where map: "mc_mmap m (max_input m) (gu_world g) = (address, w1)" by fastforce
  have trace: "replicate (length (gu_trace g)) (0 :: u8) \<noteq> []" using assms(2) by simp
  show ?thesis
    unfolding nyx_runner_input_def nyx_get_fuzz_input_def map prod.case Let_def
      hprintf_ok [OF ok] hypercall_ok [OF ok] comes_back.simps if_True proceed.simps clear_trace_def mark_trace_def
    using trace copy map
    by (simp add: nyx_input_def acquired_world_def)
qed

text \<open>A report is printed and then reported, and a restore is the last call of any other end.\<close>

lemma nyx_fail_ok:
  assumes "nyx_ok m"
  shows "\<exists>ps. nyx_runner_fail m report g =
      Halts (add_calls (map Printf ps @ [PanicExtended (Some (c_string report))]) g) \<and>
    concat ps = c_string report @ newline_text"
proof -
  have z: "CHR 0x00 \<notin> set (c_string report)" by (simp add: c_string_def)
  obtain ps where "nyx_println m (c_string report) g = Returns () (add_calls (map Printf ps) g)"
    "concat ps = c_string report @ newline_text"
    using nyx_println_exact [OF assms z, of g] by blast
  then show ?thesis
    by (intro exI [of _ ps]) (simp add: nyx_runner_fail_def nyx_fail_def hypercall_ok [OF assms] c_str_id [OF z])
qed

lemma nyx_skip_ok:
  "nyx_ok m \<Longrightarrow> gu_trace g \<noteq> [] \<Longrightarrow>
     \<exists>t. t \<noteq> [] \<and> nyx_skip m g = Halts (add_calls [Release] (g\<lparr>gu_trace := t\<rparr>))"
  by (cases "gu_trace g") (auto simp: nyx_skip_def clear_trace_def mark_trace_def hypercall_ok)

lemma nyx_release_ok: "nyx_ok m \<Longrightarrow> nyx_release m g = Halts (add_calls [Release] g)"
  by (simp add: nyx_release_def hypercall_ok)

fun nyx_end :: "(unit, report \<times> nat) outcome \<Rightarrow> hypercall list \<Rightarrow> bool" where
  "nyx_end (Ok (Reported t, code)) cs \<longleftrightarrow>
     (\<exists>ps. cs = map Printf ps @ [PanicExtended (Some (c_string t))] \<and> concat ps = c_string t @ newline_text)"
| "nyx_end _ cs \<longleftrightarrow> cs = [Release]"

text \<open>What ends a step of the entry point once the scenario is there.\<close>

definition ends_as :: "(unit, report \<times> nat) outcome \<Rightarrow> 'w guest \<Rightarrow> (nat, 'w guest) step \<Rightarrow> bool" where
  "ends_as r g res \<longleftrightarrow> (\<exists>g' cs. res = Halts g' \<and> gu_calls g' = gu_calls g @ cs \<and> nyx_end r cs)"

text \<open>The drops after the scope of the scenario: the pool's, which makes no call, and the runner's.\<close>

definition dropped :: "'w machine \<Rightarrow> ('w \<Rightarrow> 'w) \<Rightarrow> (nat, 'w guest) step \<Rightarrow> (nat, 'w guest) step" where
  "dropped m down r =
     scoped (nyx_release m) (scoped (\<lambda>g. Returns () (g\<lparr>gu_world := down (gu_world g)\<rparr>)) r)"

lemma result_ends:
  assumes "nyx_ok m" and "gu_trace g \<noteq> []"
  shows "ends_as (Ok (report_of render result)) g
    (dropped m down (report_result (nyx_runner m b) k render result g))"
proof (cases result)
  case ScOk
  with assms show ?thesis
    by (simp add: dropped_def report_result_def nyx_release_ok ends_as_def)
next
  case ScSkip
  with nyx_skip_ok [OF assms] show ?thesis
    by (auto simp: dropped_def report_result_def ends_as_def)
next
  case (ScFail name e)
  with nyx_fail_ok [OF assms(1), of "''FAIL: '' @ verdict_text render name e" g] show ?thesis
    by (auto simp: dropped_def report_result_def ends_as_def)
next
  case (ScInfrastructure name e)
  with nyx_fail_ok [OF assms(1), of "''INFRASTRUCTURE: '' @ verdict_text render name e" g] show ?thesis
    by (auto simp: dropped_def report_result_def ends_as_def)
qed

lemma panic_ends:
  "nyx_ok m \<Longrightarrow> ends_as Panic g (dropped m down (Panics g))"
  "nyx_ok m \<Longrightarrow> ends_as (Err e) g (dropped m down (Panics g))"
  by (simp_all add: dropped_def nyx_release_ok ends_as_def)

lemma input_ends:
  assumes "vm_ok m b" and "gu_trace g \<noteq> []"
    and "w = acquired_world m (gu_world g)" and "d = pool_deployment h pool base"
    and "res = dropped m down (run_input (nyx_runner m b) (max_input m)
      (nyx_pool m h nd enc base cd from_bytes) pool render g)"
  shows "case scenario_main render (Inr (d, w)) cd from_bytes (nyx_input m) of
      None \<Rightarrow> res = Diverges
    | Some r \<Rightarrow> \<exists>g' cs after. res = Halts g' \<and> gu_calls g' = gu_calls g @ cs @ FastAcquire # after \<and>
        quiet cs \<and> nyx_end r after"
proof -
  have ok: "nyx_ok m" using assms(1) by (simp add: vm_ok_def)
  obtain cs g1 where got: "quiet cs"
    "nyx_runner_input m b (max_input m) g = Returns (nyx_input m) g1"
    "gu_calls g1 = gu_calls g @ cs @ [FastAcquire]" "gu_trace g1 \<noteq> []" "gu_world g1 = w"
    using nyx_input_ok [OF assms(1, 2)] assms(3) by blast
  let ?sn = "nyx_pool m h nd enc base cd from_bytes"
  let ?then = "\<lambda>g. case sn_decode ?sn (nyx_input m) of
       Panic \<Rightarrow> Panics g
     | Err e \<Rightarrow> proceed (rn_skip (nyx_runner m b) (max_input m) g) (\<lambda>_ s. Returns 0 s)
     | Ok q \<Rightarrow> proceed (sn_run ?sn pool q g)
         (\<lambda>result s. report_result (nyx_runner m b) (max_input m) render result s)"
  have run: "res = dropped m down (?then g1)"
    using got(2) by (simp add: assms(5) run_input_def)
  have finish: "\<exists>g' cs after. res = Halts g' \<and> gu_calls g' = gu_calls g @ cs @ FastAcquire # after \<and>
      quiet cs \<and> nyx_end r after"
    if e: "ends_as r g2 res" and g2: "gu_calls g2 = gu_calls g1" for r and g2 :: "'a guest"
  proof -
    from e g2 got(3) obtain g' after where "res = Halts g'"
      "gu_calls g' = gu_calls g @ cs @ FastAcquire # after" "nyx_end r after"
      unfolding ends_as_def by auto
    with got(1) show ?thesis by blast
  qed
  show ?thesis
  proof (cases "decode_case from_bytes cd (nyx_input m)")
    case (Ok q)
    show ?thesis
    proof (cases "execute d q w")
      case None
      with Ok run got(5) assms(4) show ?thesis
        by (simp add: scenario_main_def pool_scenario_def in_world_def dropped_def)
    next
      case (Some rw)
      then obtain r w' where ex: "execute d q w = Some (r, w')" by (cases rw) auto
      let ?g2 = "g1\<lparr>gu_world := w'\<rparr>"
      have step: "?then g1 = (case r of outcome.Ok (e, result) \<Rightarrow>
          report_result (nyx_runner m b) (max_input m) render result ?g2 | _ \<Rightarrow> Panics ?g2)"
        using Ok ex got(5) assms(4)
        by (simp add: pool_scenario_def in_world_def split: outcome.split prod.split)
      have main: "scenario_main render (Inr (d, w)) cd from_bytes (nyx_input m) =
          Some (andThen r (\<lambda>(e, result). outcome.Ok (report_of render result)))"
        using Ok ex by (simp add: scenario_main_def)
      have "ends_as (andThen r (\<lambda>(e, result). outcome.Ok (report_of render result))) ?g2 res"
        using result_ends [OF ok, of ?g2 render] panic_ends [OF ok] got(4)
        by (cases r) (auto simp: run step)
      from finish [OF this] main show ?thesis by simp
    qed
  next
    case (Err e)
    then have "ends_as (outcome.Ok (ReportedSkip, 0)) g1 res"
      using result_ends [OF ok got(4), where result = ScSkip and render = render]
      by (simp add: run pool_scenario_def report_result_def)
    from finish [OF this refl] Err show ?thesis by (simp add: scenario_main_def)
  next
    case Panic
    then have "ends_as outcome.Panic g1 res"
      using panic_ends [OF ok] by (simp add: run pool_scenario_def)
    from finish [OF this refl] Panic show ?thesis by (simp add: scenario_main_def)
  qed
qed

text \<open>Starting the pool scenario under Nyx.\<close>

lemma nyx_pool_new:
  assumes "nyx_ok m"
  shows "case pool_start h nd args (gu_world g) of
      None \<Rightarrow> sn_new (nyx_pool m h nd enc base cd from_bytes) args g = Diverges
    | Some (Inl e, w) \<Rightarrow> sn_new (nyx_pool m h nd enc base cd from_bytes) args g =
        Returns (Inl (Target (target_error_display e))) (g\<lparr>gu_world := w\<rparr>)
    | Some (Inr pool, w) \<Rightarrow> \<exists>cs. quiet cs \<and>
        sn_new (nyx_pool m h nd enc base cd from_bytes) args g = Returns (Inr pool) (add_calls cs (g\<lparr>gu_world := w\<rparr>))"
proof (cases "pool_start h nd args (gu_world g)")
  case None
  then show ?thesis by (simp add: pool_scenario_def in_world_def)
next
  case (Some started)
  obtain r w where r: "started = (r, w)" by (cases started) auto
  show ?thesis
  proof (cases r)
    case (Inl e)
    with Some r show ?thesis by (simp add: pool_scenario_def in_world_def)
  next
    case (Inr pool)
    let ?enc = "enc (pool_context (pool_deployment h pool base))"
    let ?dump = "case ?enc of Inl e \<Rightarrow> []
      | Inr bytes \<Rightarrow> [DumpFile (c_str (take 255 ''ir.context'')) bytes 1]"
    have "sn_new (nyx_pool m h nd enc base cd from_bytes) args g =
        Returns (Inr pool) (add_calls ?dump (g\<lparr>gu_world := w\<rparr>))"
      using Some r Inr
      by (cases ?enc)
        (simp_all add: pool_scenario_def in_world_def nyx_dump_file_to_host_def hypercall_ok [OF assms])
    moreover have "quiet ?dump" by (simp split: sum.split)
    ultimately have "\<exists>cs. quiet cs \<and> sn_new (nyx_pool m h nd enc base cd from_bytes) args g =
        Returns (Inr pool) (add_calls cs (g\<lparr>gu_world := w\<rparr>))" by blast
    with Some r Inr show ?thesis by simp
  qed
qed

text \<open>The machine never comes back to the operating system. The snapshot is taken once, when the scenario is
  up, and not at all when it cannot be brought up; what follows it is what the verdict on the input
  says: for a finding the report's lines and then the report, for any other end, a panic of the
  harness too, a restore.\<close>

lemma nyx_run_exact:
  assumes "vm_ok m b" and "\<not> gu_initialized g"
    and "res = stratamoto_main (std_runner (nyx_runner m b)) (nyx_pool m h nd enc base cd from_bytes) render args g"
  shows "case pool_start h nd args (setup_world m b (gu_world g)) of
      None \<Rightarrow> res = Diverges
    | Some (Inl e, w) \<Rightarrow>
        \<exists>g' cs. res = Halts g' \<and> quiet cs \<and> gu_calls g' = gu_calls g @ cs @
          [PanicExtended (Some (c_string (''INFRASTRUCTURE: could not initialize the scenario: '' @
            error_display (Target (target_error_display e)))))]
    | Some (Inr pool, w) \<Rightarrow>
        (case scenario_main render (Inr (pool_deployment h pool base, acquired_world m w)) cd from_bytes
                (nyx_input m) of
           None \<Rightarrow> res = Diverges
         | Some r \<Rightarrow> \<exists>g' cs after. res = Halts g' \<and> gu_calls g' = gu_calls g @ cs @ FastAcquire # after \<and>
             quiet cs \<and> nyx_end r after)"
proof -
  have ok: "nyx_ok m" using assms(1) by (simp add: vm_ok_def)
  obtain cs where cs: "quiet cs" and init: "nyx_init m b g =
      Returns (max_input m) (g\<lparr>gu_initialized := True, gu_world := setup_world m b (gu_world g),
        gu_trace := replicate (unat (coverage_size m b)) 0, gu_calls := gu_calls g @ cs\<rparr>)"
    using nyx_init_ok [OF assms(1, 2)] by blast
  let ?g1 = "g\<lparr>gu_initialized := True, gu_world := setup_world m b (gu_world g),
    gu_trace := replicate (unat (coverage_size m b)) 0, gu_calls := gu_calls g @ cs\<rparr>"
  have trace: "gu_trace ?g1 \<noteq> []" using assms(1) by (simp add: vm_ok_def unat_eq_zero)
  have world: "gu_world ?g1 = setup_world m b (gu_world g)" by simp
  let ?sn = "nyx_pool m h nd enc base cd from_bytes"
  let ?down = "\<lambda>pool w. nd_stop nd (drop_pool h pool w)"
  have down: "sn_drop ?sn pool = (\<lambda>g. Returns () (g\<lparr>gu_world := ?down pool (gu_world g)\<rparr>))" for pool
    by (simp add: pool_scenario_def)
  have res: "res = scoped (nyx_release m) (proceed (sn_new ?sn args ?g1) (\<lambda>started g.
      case started of
        Inl e \<Rightarrow> proceed (nyx_runner_fail m (''INFRASTRUCTURE: could not initialize the scenario: '' @ error_display e) g)
                  (\<lambda>_ g. Returns 2 g)
      | Inr pool \<Rightarrow> scoped (\<lambda>g. Returns () (g\<lparr>gu_world := ?down pool (gu_world g)\<rparr>))
          (run_input (nyx_runner m b) (max_input m) ?sn pool render g)))"
    unfolding assms(3) std_main
    by (simp only: stratamoto_main_def nyx_runner_simps init proceed.simps down)
  show ?thesis
  proof (cases "pool_start h nd args (gu_world ?g1)")
    case None
    with nyx_pool_new [OF ok, where h = h and nd = nd and args = args and g = ?g1 and enc = enc and base = base and cd = cd and from_bytes = from_bytes] show ?thesis
      by (simp add: res)
  next
    case (Some started)
    obtain r w where r: "started = (r, w)" by (cases started) auto
    show ?thesis
    proof (cases r)
      case (Inl e)
      let ?report = "''INFRASTRUCTURE: could not initialize the scenario: '' @
        error_display (Target (target_error_display e))"
      have new: "sn_new ?sn args ?g1 = Returns (Inl (Target (target_error_display e))) (?g1\<lparr>gu_world := w\<rparr>)"
        using nyx_pool_new [OF ok, where h = h and nd = nd and args = args and g = ?g1 and enc = enc and base = base and cd = cd and from_bytes = from_bytes] Some r Inl by simp
      obtain ps where "nyx_runner_fail m ?report (?g1\<lparr>gu_world := w\<rparr>) =
          Halts (add_calls (map Printf ps @ [PanicExtended (Some (c_string ?report))]) (?g1\<lparr>gu_world := w\<rparr>))"
        using nyx_fail_ok [OF ok] by blast
      then have "res = Halts (add_calls (map Printf ps @ [PanicExtended (Some (c_string ?report))])
          (?g1\<lparr>gu_world := w\<rparr>))"
        by (simp only: res new proceed.simps sum.case scoped.simps)
      then show ?thesis
        using Some r Inl cs world
        by (auto intro!: exI [of _ "cs @ map Printf ps"])
    next
      case (Inr pool)
      obtain ds where ds: "quiet ds"
        and new: "sn_new ?sn args ?g1 = Returns (Inr pool) (add_calls ds (?g1\<lparr>gu_world := w\<rparr>))"
        using nyx_pool_new [OF ok, where h = h and nd = nd and args = args and g = ?g1 and enc = enc and base = base and cd = cd and from_bytes = from_bytes] Some r Inr by auto
      let ?g3 = "add_calls ds (?g1\<lparr>gu_world := w\<rparr>)"
      have run: "res = dropped m (?down pool) (run_input (nyx_runner m b) (max_input m) ?sn pool render ?g3)"
        by (simp only: res new proceed.simps sum.case dropped_def)
      have "gu_trace ?g3 \<noteq> []" "acquired_world m w = acquired_world m (gu_world ?g3)"
        "gu_calls ?g3 = gu_calls g @ cs @ ds"
        using trace by simp_all
      note ends = input_ends [OF assms(1) this(1, 2) refl run]
      show ?thesis
      proof (cases "scenario_main render (Inr (pool_deployment h pool base, acquired_world m w)) cd from_bytes
          (nyx_input m)")
        case None
        with ends Some r Inr world show ?thesis by simp
      next
        case (Some out)
        with ends obtain g' es after where "res = Halts g'"
          "gu_calls g' = gu_calls g @ (cs @ ds @ es) @ FastAcquire # after"
          "quiet es" "nyx_end out after"
          by auto
        with cs ds have "\<exists>g' cs after. res = Halts g' \<and> gu_calls g' = gu_calls g @ cs @ FastAcquire # after \<and>
            quiet cs \<and> nyx_end out after"
          by (intro exI [of _ g'] exI [of _ "cs @ ds @ es"] exI [of _ after]) simp
        then show ?thesis
          using Some \<open>pool_start h nd args (gu_world ?g1) = Some started\<close> r Inr world by simp
      qed
    qed
  qed
qed

section \<open>A run locally\<close>

fun logged_report :: "report \<Rightarrow> string list" where
  "logged_report (Reported t) = [t]"
| "logged_report _ = []"

lemma local_runner_simps [simp]:
  "rn_new (local_runner ri) s = Returns () s"
  "rn_get_fuzz_input (local_runner ri) r s =
     Returns (local_fuzz_input ri (lr_world s)) (add_line (local_input_line ri (lr_world s)) s)"
  "rn_fail (local_runner ri) r report s = Returns () (add_line (LogError report) s)"
  "rn_skip (local_runner ri) r s = Returns () (add_line (LogWarn ''skipping the test case'') s)"
  "rn_drop (local_runner ri) r = (\<lambda>s. Returns () s)"
  by (simp_all add: local_runner_def)

lemma add_line_simps [simp]:
  "lr_world (add_line l s) = lr_world s" "lr_log (add_line l s) = lr_log s @ [l]"
  "error_lines (local_input_line ri w # ls) = error_lines ls"
  by (simp_all add: add_line_def local_input_line_def)

lemma scoped_nothing [simp]: "scoped (\<lambda>s. Returns () s) r = r"
  by (cases r) simp_all

lemma local_report:
  "\<exists>s'. report_result (local_runner ri) r render result s = Returns (snd (report_of render result)) s' \<and>
     lr_world s' = lr_world s \<and>
     logged_errors s' = logged_errors s @ logged_report (fst (report_of render result))"
  by (cases result) (simp_all add: report_result_def)

lemma local_run_exact:
  assumes "res = stratamoto_main (std_runner (local_runner ri)) (local_pool ri h nd enc base cd from_bytes) render args s"
  shows "case pool_start h nd args (lr_world s) of
      None \<Rightarrow> res = Diverges
    | Some (Inl e, w) \<Rightarrow> \<exists>s'. res = Returns 2 s' \<and> lr_world s' = w \<and> logged_errors s' = logged_errors s @
        [''INFRASTRUCTURE: could not initialize the scenario: '' @ error_display (Target (target_error_display e))]
    | Some (Inr pool, w) \<Rightarrow>
        (let d = pool_deployment h pool base; w1 = dump_context ri enc (pool_context d) w
         in case scenario_main render (Inr (d, w1)) cd from_bytes (local_fuzz_input ri w1) of
              None \<Rightarrow> res = Diverges
            | Some r \<Rightarrow> \<exists>s' w2. lr_world s' = nd_stop nd (drop_pool h pool w2) \<and>
                (case r of
                   Ok (rep, code) \<Rightarrow> res = Returns code s' \<and> logged_errors s' = logged_errors s @ logged_report rep
                 | _ \<Rightarrow> res = Panics s' \<and> logged_errors s' = logged_errors s))"
proof -
  let ?sn = "local_pool ri h nd enc base cd from_bytes"
  let ?down = "\<lambda>pool s. Returns () (s\<lparr>lr_world := nd_stop nd (drop_pool h pool (lr_world s))\<rparr>)"
  have down: "sn_drop ?sn pool = ?down pool" for pool by (simp add: pool_scenario_def)
  have res: "res = proceed (sn_new ?sn args s) (\<lambda>started s.
      case started of
        Inl e \<Rightarrow> Returns 2 (add_line (LogError (''INFRASTRUCTURE: could not initialize the scenario: '' @ error_display e)) s)
      | Inr pool \<Rightarrow> scoped (?down pool) (run_input (local_runner ri) () ?sn pool render s))"
    unfolding assms std_main by (simp add: stratamoto_main_def down cong: sum.case_cong)
  show ?thesis
  proof (cases "pool_start h nd args (lr_world s)")
    case None
    then show ?thesis by (simp add: res pool_scenario_def in_world_def)
  next
    case (Some started)
    obtain r w where r: "started = (r, w)" by (cases started) auto
    show ?thesis
    proof (cases r)
      case (Inl e)
      with Some r show ?thesis by (simp add: res pool_scenario_def in_world_def)
    next
      case (Inr pool)
      let ?d = "pool_deployment h pool base" and ?bytes = "local_fuzz_input ri"
      let ?w1 = "dump_context ri enc (pool_context ?d) w"
      let ?s1 = "s\<lparr>lr_world := ?w1\<rparr>"
      have "sn_new ?sn args s = Returns (Inr pool) ?s1"
        using Some r Inr
        by (simp add: pool_scenario_def in_world_def local_dump_def dump_context_def split: sum.split)
      then have run: "res = scoped (?down pool) (run_input (local_runner ri) () ?sn pool render ?s1)"
        by (simp add: res)
      let ?s2 = "add_line (local_input_line ri ?w1) ?s1"
      have "case scenario_main render (Inr (?d, ?w1)) cd from_bytes (?bytes ?w1) of
          None \<Rightarrow> res = Diverges
        | Some r \<Rightarrow> \<exists>s' w2. lr_world s' = nd_stop nd (drop_pool h pool w2) \<and>
            (case r of
               Ok (rep, code) \<Rightarrow> res = Returns code s' \<and> logged_errors s' = logged_errors s @ logged_report rep
             | _ \<Rightarrow> res = Panics s' \<and> logged_errors s' = logged_errors s)"
        (is "?goal")
      proof (cases "decode_case from_bytes cd (?bytes ?w1)")
        case (Ok q)
        show ?goal
        proof (cases "execute ?d q ?w1")
          case None
          with Ok show ?thesis
            by (simp add: run run_input_def pool_scenario_def in_world_def scenario_main_def)
        next
          case (Some rw)
          then obtain out w2 where ex: "execute ?d q ?w1 = Some (out, w2)" by (cases rw) auto
          let ?s3 = "?s2\<lparr>lr_world := w2\<rparr>"
          have step: "run_input (local_runner ri) () ?sn pool render ?s1 =
              (case out of outcome.Ok (e, result) \<Rightarrow> report_result (local_runner ri) () render result ?s3
               | _ \<Rightarrow> Panics ?s3)"
            using Ok ex by (simp add: run_input_def pool_scenario_def in_world_def split: outcome.split)
          show ?thesis
          proof (cases out)
            case out: (Ok er)
            obtain e result where er: "er = (e, result)" by (cases er) auto
            obtain s4 where "report_result (local_runner ri) () render result ?s3 =
                Returns (snd (report_of render result)) s4" "lr_world s4 = w2"
              "logged_errors s4 = logged_errors s @ logged_report (fst (report_of render result))"
              using local_report [of ri "()" render result ?s3] by auto
            with Ok ex out er show ?thesis
              by (auto simp: run step scenario_main_def split: prod.split
                  intro!: exI [of _ "s4\<lparr>lr_world := nd_stop nd (drop_pool h pool w2)\<rparr>"] exI [of _ w2])
          qed (use Ok ex in \<open>auto simp: run step scenario_main_def
              intro!: exI [of _ "?s3\<lparr>lr_world := nd_stop nd (drop_pool h pool w2)\<rparr>"] exI [of _ w2]\<close>)
        qed
      next
        case (Err e)
        then show ?goal
          by (auto simp: run run_input_def pool_scenario_def scenario_main_def
              intro!: exI [of _ "(add_line (LogWarn ''skipping the test case'') ?s2)\<lparr>lr_world := nd_stop nd (drop_pool h pool ?w1)\<rparr>"]
                exI [of _ ?w1])
      next
        case Panic
        then show ?goal
          by (auto simp: run run_input_def pool_scenario_def scenario_main_def
              intro!: exI [of _ "?s2\<lparr>lr_world := nd_stop nd (drop_pool h pool ?w1)\<rparr>"] exI [of _ ?w1])
      qed
      with Some r Inr show ?thesis by (simp add: Let_def)
    qed
  qed
qed

section \<open>A pool that comes up\<close>

definition open_host :: "(unit, wire_frame list, nat \<times> bool) host" where
  "open_host = closed_host\<lparr>hs_connect := (\<lambda>a t w. (Inr (), w)), hs_handshake := (\<lambda>k t w. (Inr [], w))\<rparr>"

definition open_pool :: pool where
  "open_pool = \<lparr>pool_address = ''127.0.0.1:3333'', pool_dir = ''/tmp/pool'', pool_log = ''/tmp/pool/pool.log''\<rparr>"

lemma open_host_ok: "clock_ok open_host fst" "process_ok open_host snd"
  by (simp_all add: clock_ok_def process_ok_def open_host_def closed_host_def)

lemma plain_node_ok: "helpers_ok plain_node snd"
  by (simp add: helpers_ok_def plain_node_def)

lemma open_host_starts:
  "pool_start open_host plain_node [''scenario'', ''pool_sv2''] (0, False) = Some (Inr open_pool, (0, True))"
proof -
  have "find (\<lambda>d. False) ds = None" for ds :: "string list" by (induction ds) simp_all
  then have none: "search_binaries plain_node dir w = None" for dir w
    by (simp add: search_is_nearest plain_node_def)
  have [simp]: "nd_env plain_node v w = None" "nd_current_dir plain_node w = Inr ''/work''"
    "nd_exists plain_node d w = False" "nd_start_core plain_node w = (''/tmp/node'', w)"
    "nd_generate_blocks plain_node n w = w" for v d n w
    by (simp_all add: plain_node_def)
  have "cached_binaries plain_node w = None" for w
    by (simp add: cached_binaries_def none)
  then have "use_existing_binaries plain_node w = (Inr (), w)" for w
    by (simp add: use_existing_binaries_def Let_def)
  then have node: "node_start plain_node (0, False) = (Inr ''/tmp/node'', (0, False))"
    by (simp add: node_start_def)
  have [simp]: "hs_now open_host w = (fst w, w)" "hs_connect open_host a t w = (Inr (), w)"
    "hs_handshake open_host k t w = (Inr [], w)" "hs_env open_host v w = None"
    "hs_free_address open_host w = (Inr ''127.0.0.1:3333'', w)" "hs_pool_dir open_host a w = ''/tmp/pool''"
    "hs_create_dir open_host a w = (Inr (), w)" "hs_write open_host f x w = (Inr (), w)"
    "hs_create open_host f w = (Inr (), w)" "hs_spawn open_host b args f w = (Inr (), (fst w, True))"
    "hs_try_wait open_host (0, True) = (Inr None, (0, True))" for a t w k v b f x args
    by (simp_all add: open_host_def closed_host_def)
  have dial: "dial open_host a t w = Some (Inr [], w)" for a t w
    by (simp add: dial_def dial_loop.simps dial_attempt_def)
  have wait: "wait_until_accepting open_host p (0, True) = Some (Inr (), (0, True))" for p
    by (simp add: wait_until_accepting_def wait_loop.simps dial)
  have "start_pool open_host b dir (0, False) = Some (Inr open_pool, (0, True))" for b dir
    by (simp add: start_pool_def spawn_pool_def wait Let_def open_pool_def)
  then show ?thesis by (simp add: pool_start_def get_def deployment_start_with_def node)
qed

section \<open>A machine the agent is made for\<close>

definition demo_machine :: "u32 \<times> u8 list \<Rightarrow> 'w machine" where
  "demo_machine payload =
     \<lparr>mc_host_config = \<lparr>hc_magic = host_magic, hc_version = host_version, hc_bitmap_size = 8,
        hc_ijon_bitmap_size = 8, hc_payload_buffer_size = 16, hc_worker_id = 0\<rparr>,
      mc_payload = payload, mc_returns = comes_back, mc_shmget = (\<lambda>n w. (7, w)),
      mc_shmat = (\<lambda>i w. (Some 4096, w)), mc_setenv = (\<lambda>k v w. w), mc_mmap = (\<lambda>n w. (8192, w))\<rparr>"

abbreviation host_sized :: agent_build where
  "host_sized \<equiv> \<lparr>ab_target_map = None, ab_afl_map = None\<rparr>"

definition fresh_guest :: "'w \<Rightarrow> 'w guest" where
  "fresh_guest w = \<lparr>gu_initialized = False, gu_trace = [], gu_area = None, gu_calls = [], gu_world = w\<rparr>"

lemma demo_machine_ok:
  "vm_ok (demo_machine (2, [1, 2])) host_sized" "nyx_input (demo_machine (2, [1, 2])) = [1, 2]"
  "setup_world (demo_machine x) host_sized w = w" "acquired_world (demo_machine x) w = w"
  by (simp_all add: vm_ok_def nyx_ok_def demo_machine_def coverage_size_def copy_payload_def nyx_input_def
      setup_world_def acquired_world_def)

lemma fresh_guest_simps [simp]:
  "\<not> gu_initialized (fresh_guest w)" "gu_calls (fresh_guest w) = []" "gu_world (fresh_guest w) = w"
  by (simp_all add: fresh_guest_def)

section \<open>Properties\<close>

text \<open>C26: Locally the pool scenario's binary leaves no pool running, however the run ends: with an exit
  code, by a panic of the harness, or because the pool could not be brought up.\<close>

theorem no_run_leaves_a_pool:
  assumes "clock_ok h time" and "process_ok h running" and "helpers_ok nd running" and "\<not> running (lr_world s)"
    and "final (stratamoto_main (std_runner (local_runner ri)) (local_pool ri h nd enc base cd from_bytes)
           render args s) = Some s'"
  shows "\<not> running (lr_world s')"
proof -
  let ?res = "stratamoto_main (std_runner (local_runner ri)) (local_pool ri h nd enc base cd from_bytes) render args s"
  have start: "ends_clean running (pool_start h nd args (lr_world s))"
    using deployment_start_with_ends_clean [OF assms(1-4)] assms(4)
    by (auto simp: pool_start_def deployment_start_def ends_clean_def split: option.split)
  have stopped: "\<not> running (nd_stop nd (drop_pool h pool w))" for pool w
    using helpers_okD(4) [OF assms(3)] process_okD(1) [OF assms(2)] by blast
  note run = local_run_exact [OF refl, where h = h and nd = nd and args = args and s = s and ri = ri and enc = enc
      and base = base and cd = cd and from_bytes = from_bytes and render = render]
  from start obtain r w where r: "pool_start h nd args (lr_world s) = Some (r, w)"
    "\<And>e. r = Inl e \<Longrightarrow> \<not> running w" unfolding ends_clean_def by blast
  show ?thesis
  proof (cases r)
    case (Inl e)
    with r run assms(5) show ?thesis by auto
  next
    case (Inr pool)
    let ?d = "pool_deployment h pool base"
    let ?w1 = "dump_context ri enc (pool_context ?d) w"
    show ?thesis
    proof (cases "scenario_main render (Inr (?d, ?w1)) cd from_bytes (local_fuzz_input ri ?w1)")
      case None
      with Inr r(1) run assms(5) show ?thesis by (simp add: Let_def)
    next
      case (Some out)
      with Inr r(1) run obtain s2 w2 where "lr_world s2 = nd_stop nd (drop_pool h pool w2)"
        "?res = (case out of Ok (rep, code) \<Rightarrow> Returns code s2 | _ \<Rightarrow> Panics s2)"
        by (cases out) (auto simp: Let_def)
      with assms(5) stopped [of pool w2] show ?thesis by (cases out) auto
    qed
  qed
qed

theorem no_run_leaves_a_pool_witness:
  "\<exists>s'. final (stratamoto_main (std_runner (local_runner plain_io))
     (local_pool plain_io open_host plain_node (\<lambda>c. Inr []) mute_links tiny_codec (\<lambda>bytes. Inl ''not a program''))
       (\<lambda>_. []) [''scenario'', ''pool_sv2''] \<lparr>lr_log = [], lr_world = (0, False)\<rparr>) = Some s' \<and>
     \<not> snd (lr_world s')"
proof -
  let ?s = "\<lparr>lr_log = [], lr_world = (0 :: nat, False)\<rparr>"
  let ?res = "stratamoto_main (std_runner (local_runner plain_io))
     (local_pool plain_io open_host plain_node (\<lambda>c. Inr []) mute_links tiny_codec (\<lambda>bytes. Inl ''not a program''))
       (\<lambda>_. []) [''scenario'', ''pool_sv2''] ?s"
  have none: "\<not> snd (lr_world ?s)" by simp
  have "\<exists>s'. final ?res = Some s'"
    using local_run_exact [OF refl, where h = open_host and nd = plain_node and args = "[''scenario'', ''pool_sv2'']"
        and s = ?s and ri = plain_io and enc = "\<lambda>c. Inr []" and base = mute_links and cd = tiny_codec
        and from_bytes = "\<lambda>bytes. Inl ''not a program''" and render = "\<lambda>_. []"]
    by (auto simp: open_host_starts scenario_main_def decode_case_def Let_def)
  then obtain s' where "final ?res = Some s'" by blast
  with no_run_leaves_a_pool [OF open_host_ok plain_node_ok none this] show ?thesis by blast
qed





end
