(* ===== verification/Nyx_Crash.thy ===== *)
theory Nyx_Crash
  imports Nyx_Agent
begin

text \<open>
  The crash handler that is preloaded into the target (\<open>stratamoto-nyx-sys/src/nyx-crash-handler.c\<close>), as
  the build script compiles it: with Nyx, without the custom backtrace and without catching signals.
  The sanitizer's log file is a parameter. A buffer has its size, and writing past it is
  \<open>Undefined\<close>.
\<close>

section \<open>The log\<close>

text \<open>The log is a buffer and the C string in it; there is none before the first message.\<close>

record 'w handler =
  ha_log :: "(nat \<times> string) option"
  ha_guest :: "'w guest"

definition first_log_size :: nat where "first_log_size = 0x10000"

text \<open>\<open>while (log_size < needed_size) log_size *= 2\<close>, which never ends from an empty buffer.\<close>

partial_function (option) grow :: "nat \<Rightarrow> nat \<Rightarrow> nat option" where
  "grow log_size needed = (if log_size < needed then grow (log_size * 2) needed else Some log_size)"

definition append_log :: "string \<Rightarrow> 'w handler \<Rightarrow> (unit, 'w handler) step" where
  "append_log msg s =
     (case ha_log s of
        None \<Rightarrow>
          if first_log_size < length msg + 1 then Undefined
          else Returns () (s\<lparr>ha_log := Some (first_log_size, msg)\<rparr>)
      | Some (log_size, logged) \<Rightarrow>
          (case grow log_size (length logged + length msg + 1) of
             None \<Rightarrow> Diverges
           | Some grown \<Rightarrow>
               if grown < length logged + length msg + 1 then Undefined
               else Returns () (s\<lparr>ha_log := Some (grown, logged @ msg)\<rparr>)))"

text \<open>The sanitizer's log, of which the first mebibyte less a byte is read.\<close>

definition append_asan_log :: "string option \<Rightarrow> 'w handler \<Rightarrow> (unit, 'w handler) step" where
  "append_asan_log asan s =
     (case asan of
        None \<Rightarrow> Returns () s
      | Some contents \<Rightarrow>
          (let buffer = take (0x100000 - 1) contents
           in if buffer = [] then Returns () s else append_log (c_str buffer) s))"

section \<open>Reporting\<close>

text \<open>The report is the log, or no message; control never comes back to the target.\<close>

definition panic_with_log :: "'w machine \<Rightarrow> 'w handler \<Rightarrow> (unit, 'w handler) step" where
  "panic_with_log m s =
     (case kafl_hypercall m (PanicExtended (map_option snd (ha_log s))) (ha_guest s) of
        Returns _ g \<Rightarrow> Diverges
      | Halts g \<Rightarrow> Halts (s\<lparr>ha_guest := g\<rparr>)
      | Panics g \<Rightarrow> Panics (s\<lparr>ha_guest := g\<rparr>)
      | Diverges \<Rightarrow> Diverges
      | Undefined \<Rightarrow> Undefined)"

definition panic_with_backtrace ::
  "'w machine \<Rightarrow> string option \<Rightarrow> string option \<Rightarrow> 'w handler \<Rightarrow> (unit, 'w handler) step" where
  "panic_with_backtrace m asan extra_msg s = proceed (append_asan_log asan s) (\<lambda>_ s. panic_with_log m s)"

definition abort_target :: "'w machine \<Rightarrow> string option \<Rightarrow> 'w handler \<Rightarrow> (unit, 'w handler) step" where
  "abort_target m asan s = panic_with_backtrace m asan (Some ''abort'') s"

text \<open>The text of an assertion, in a buffer of 4096 characters.\<close>

definition assertion_text :: "string \<Rightarrow> string \<Rightarrow> string \<Rightarrow> u32 \<Rightarrow> string" where
  "assertion_text failed func source line =
     ''assertion failed: '' @ [CHR 0x22] @ failed @ [CHR 0x22] @ '' in '' @ func @ '' ('' @ source @ '':'' @
     word_decimal line @ '')''"

definition panic_with_text ::
  "'w machine \<Rightarrow> string option \<Rightarrow> string \<Rightarrow> 'w handler \<Rightarrow> (unit, 'w handler) step" where
  "panic_with_text m asan signal_msg s =
     (if 0x1000 < length signal_msg + 1 then Undefined
      else panic_with_backtrace m asan (Some signal_msg) s)"

definition assert_fail ::
  "'w machine \<Rightarrow> string option \<Rightarrow> string \<Rightarrow> string \<Rightarrow> u32 \<Rightarrow> string \<Rightarrow> 'w handler \<Rightarrow> (unit, 'w handler) step" where
  "assert_fail m asan assertion source line func s =
     panic_with_text m asan (assertion_text assertion func source line) s"

text \<open>The older entry takes its arguments in another order, and the one for error numbers does not say which
  it was.\<close>

definition assert_bsd ::
  "'w machine \<Rightarrow> string option \<Rightarrow> string \<Rightarrow> string \<Rightarrow> u32 \<Rightarrow> string \<Rightarrow> 'w handler \<Rightarrow> (unit, 'w handler) step" where
  "assert_bsd m asan func source line failed_expr s =
     panic_with_text m asan (assertion_text failed_expr func source line) s"

definition assert_perror_fail ::
  "'w machine \<Rightarrow> string option \<Rightarrow> u32 \<Rightarrow> string \<Rightarrow> u32 \<Rightarrow> string \<Rightarrow> 'w handler \<Rightarrow> (unit, 'w handler) step" where
  "assert_perror_fail m asan errnum source line func s =
     panic_with_text m asan
       (''assert_perror: in '' @ func @ '' ('' @ source @ '':'' @ word_decimal line @ '')'') s"

text \<open>What the handler says when it is loaded.\<close>

definition init_handler :: "'w machine \<Rightarrow> 'w guest \<Rightarrow> (unit, 'w guest) step" where
  "init_handler m g =
     proceed (hprintf m (''[info] Initializing crash handler...'' @ newline_text) g) (\<lambda>_ g.
     hprintf m (''[info] Crash handler initialized!'' @ newline_text) g)"

section \<open>Growing\<close>

text \<open>From a buffer that is not empty the loop ends, in the first doubling that is large enough.\<close>

lemma grow_ends:
  assumes "0 < log_size"
  shows "\<exists>k. grow log_size needed = Some (log_size * 2 ^ k) \<and> needed \<le> log_size * 2 ^ k \<and>
    (\<forall>j < k. log_size * 2 ^ j < needed)"
  using assms
proof (induction "needed - log_size" arbitrary: log_size rule: less_induct)
  case less
  show ?case
  proof (cases "log_size < needed")
    case False
    then show ?thesis by (intro exI [of _ 0]) (simp add: grow.simps)
  next
    case True
    with less.prems have "needed - log_size * 2 < needed - log_size" "0 < log_size * 2" by auto
    from less.hyps [OF this] obtain k where k: "grow (log_size * 2) needed = Some (log_size * 2 * 2 ^ k)"
      "needed \<le> log_size * 2 * 2 ^ k" "\<forall>j < k. log_size * 2 * 2 ^ j < needed" by blast
    have "log_size * 2 ^ j < needed" if "j < Suc k" for j
      using that k(3) True by (cases j) (auto simp: mult.assoc)
    with k(1, 2) True show ?thesis
      by (intro exI [of _ "Suc k"]) (simp add: grow.simps [of log_size] mult.assoc)
  qed
qed

text \<open>A log that exists has room for its string; only the first message can be too long.\<close>

definition log_ok :: "'w handler \<Rightarrow> bool" where
  "log_ok s \<longleftrightarrow> (\<forall>n t. ha_log s = Some (n, t) \<longrightarrow> length t < n)"

lemma append_log_keeps:
  assumes "log_ok s"
  shows "append_log msg s = Undefined \<longleftrightarrow> ha_log s = None \<and> first_log_size \<le> length msg"
    and "append_log msg s = Returns u s' \<Longrightarrow> log_ok s' \<and> ha_guest s' = ha_guest s \<and>
      map_option snd (ha_log s') = Some (case ha_log s of None \<Rightarrow> msg | Some (n, t) \<Rightarrow> t @ msg)"
    and "append_log msg s = Undefined \<or> (\<exists>s'. append_log msg s = Returns () s')"
proof -
  have "(append_log msg s = Undefined \<longleftrightarrow> ha_log s = None \<and> first_log_size \<le> length msg) \<and>
      (\<forall>u s'. append_log msg s = Returns u s' \<longrightarrow> log_ok s' \<and> ha_guest s' = ha_guest s \<and>
        map_option snd (ha_log s') = Some (case ha_log s of None \<Rightarrow> msg | Some (n, t) \<Rightarrow> t @ msg)) \<and>
      (append_log msg s = Undefined \<or> (\<exists>s'. append_log msg s = Returns () s'))"
  proof (cases "ha_log s")
    case None
    then show ?thesis by (auto simp: append_log_def log_ok_def)
  next
    case (Some nt)
    then obtain n t where nt: "ha_log s = Some (n, t)" by (cases nt) auto
    with assms have "length t < n" by (simp add: log_ok_def)
    then obtain k where "grow n (length t + length msg + 1) = Some (n * 2 ^ k)"
      "length t + length msg + 1 \<le> n * 2 ^ k"
      using grow_ends [of n "length t + length msg + 1"] by auto
    with nt show ?thesis by (auto simp: append_log_def log_ok_def)
  qed
  then show "append_log msg s = Undefined \<longleftrightarrow> ha_log s = None \<and> first_log_size \<le> length msg"
    and "append_log msg s = Returns u s' \<Longrightarrow> log_ok s' \<and> ha_guest s' = ha_guest s \<and>
      map_option snd (ha_log s') = Some (case ha_log s of None \<Rightarrow> msg | Some (n, t) \<Rightarrow> t @ msg)"
    and "append_log msg s = Undefined \<or> (\<exists>s'. append_log msg s = Returns () s')"
    by blast+
qed

section \<open>What a crash of the target does\<close>

text \<open>A target that aborts stops the machine with the sanitizer's log for its report, and with no message
  when there is none; a log of 64 KiB or more, though up to a mebibyte of it is read, is written past
  the end of the handler's buffer, which is not made larger for the first message.\<close>

theorem abort_reports_the_log:
  assumes "nyx_ok m" and "ha_log s = None"
  shows "abort_target m asan s =
    (let report = (case asan of None \<Rightarrow> None
                   | Some t \<Rightarrow> if t = [] then None else Some (c_str (take (0x100000 - 1) t)))
     in if \<exists>t. report = Some t \<and> first_log_size \<le> length t then Undefined
        else Halts (s\<lparr>ha_log := map_option (Pair first_log_size) report,
                      ha_guest := add_calls [PanicExtended report] (ha_guest s)\<rparr>))"
proof (cases asan)
  case None
  with assms show ?thesis
    by (cases s)
      (simp add: abort_target_def panic_with_backtrace_def append_asan_log_def panic_with_log_def hypercall_ok)
next
  case (Some t)
  then show ?thesis
    using assms
    by (simp add: abort_target_def panic_with_backtrace_def append_asan_log_def append_log_def Let_def
        panic_with_log_def hypercall_ok less_Suc_eq_le not_less)
qed

text \<open>The text of a failed assertion is made and then left out: the report is that of an abort.\<close>

theorem assertion_text_is_lost:
  assumes "length (assertion_text assertion func source line) < 0x1000"
  shows "assert_fail m asan assertion source line func s = abort_target m asan s"
  using assms
  by (simp add: assert_fail_def panic_with_text_def abort_target_def panic_with_backtrace_def)

end
