(* ===== verification/Nyx_Build.thy ===== *)
theory Nyx_Build
  imports Paths
begin

text \<open>
  The build script of the Nyx bindings (\<open>stratamoto-nyx-sys/build.rs\<close>): it asks the pool binary for the
  size of its coverage map, compiles the agent for it and the crash handler into a shared object. The
  environment, running a program, the \<open>cc\<close> crate and the compiler are parameters.
\<close>

section \<open>The script\<close>

text \<open>What running the binary with its variable set prints, if it can be run; whether the agent compiles
  with its defines, and how the compiler ends on its arguments, if it runs.\<close>

record 'w build_host =
  bh_var :: "string \<Rightarrow> string option"
  bh_output :: "string \<Rightarrow> string \<times> string \<Rightarrow> 'w \<Rightarrow> string option \<times> 'w"
  bh_compile :: "(string \<times> string option) list \<Rightarrow> 'w \<Rightarrow> bool \<times> 'w"
  bh_cc :: "string list \<Rightarrow> 'w \<Rightarrow> bool option \<times> 'w"

definition is_digit :: "char \<Rightarrow> bool" where
  "is_digit c \<longleftrightarrow> CHR ''0'' \<le> c \<and> c \<le> CHR ''9''"

definition map_size :: "'w build_host \<Rightarrow> string \<Rightarrow> 'w \<Rightarrow> string option \<times> 'w" where
  "map_size bh binary w =
     (case bh_output bh binary (''AFL_DUMP_MAP_SIZE'', ''1'') w of
        (None, w1) \<Rightarrow> (None, w1)
      | (Some out, w1) \<Rightarrow>
          (let sz = trim out in (if sz \<noteq> [] \<and> list_all is_digit sz then Some sz else None, w1)))"

definition pool_binary_env :: string where "pool_binary_env = ''STRATAMOTO_POOL''"

text \<open>What the agent is compiled with, and what the script prints about it.\<close>

definition agent_defines ::
  "'w build_host \<Rightarrow> 'w \<Rightarrow> (string list \<times> (string \<times> string option) list) \<times> 'w" where
  "agent_defines bh w =
     (case bh_var bh pool_binary_env of
        None \<Rightarrow> (([], [(''NO_PT_NYX'', None)]), w)
      | Some binary \<Rightarrow>
          (case map_size bh binary w of
             (Some sz, w1) \<Rightarrow>
               (([''cargo:rerun-if-changed='' @ binary,
                  ''cargo:warning=nyx agent built for a target map of '' @ sz @ '' bytes''],
                 [(''NO_PT_NYX'', None), (''TARGET_MAP_SIZE'', Some sz)]), w1)
           | (None, w1) \<Rightarrow>
               (([''cargo:rerun-if-changed='' @ binary,
                  ''cargo:warning='' @ binary @ '' is not AFL instrumented; the nyx agent will use the host's map size''],
                 [(''NO_PT_NYX'', None)]), w1)))"

definition handler_arguments :: "string \<Rightarrow> string list" where
  "handler_arguments handler =
     [''-fPIC'', ''-shared'', ''-DENABLE_NYX'', ''-D_GNU_SOURCE'', ''-DNO_PT_NYX'', ''src/nyx-crash-handler.c'',
      ''-ldl'', ''-o'', handler]"

text \<open>The script panics when the agent or the handler does not compile, and outside of cargo.\<close>

definition build_main :: "'w build_host \<Rightarrow> 'w \<Rightarrow> (unit, string list) outcome \<times> 'w" where
  "build_main bh w =
     (case agent_defines bh w of
        ((asked, defines), w1) \<Rightarrow>
          (case bh_compile bh defines w1 of
             (False, w2) \<Rightarrow> (Panic, w2)
           | (True, w2) \<Rightarrow>
               (case bh_var bh ''OUT_DIR'' of
                  None \<Rightarrow> (Panic, w2)
                | Some out \<Rightarrow>
                    (let handler = path_join out ''libstratamoto_crash_handler.so''
                     in case bh_cc bh (handler_arguments handler) w2 of
                          (Some True, w3) \<Rightarrow>
                            (Ok ([''cargo:rerun-if-changed=src/nyx-agent.c'',
                                  ''cargo:rerun-if-changed=src/nyx-crash-handler.c'',
                                  ''cargo:rerun-if-changed=src/nyx.h'',
                                  ''cargo:rerun-if-env-changed='' @ pool_binary_env] @ asked @
                                 [''cargo:rustc-env=STRATAMOTO_CRASH_HANDLER='' @ handler]), w3)
                        | (_, w3) \<Rightarrow> (Panic, w3)))))"

section \<open>What it is built for\<close>

text \<open>The agent is built for a map of its own exactly when the pool binary is named and prints digits
  only, and then of the size that it printed.\<close>

theorem target_map_is_the_binarys:
  "(''TARGET_MAP_SIZE'', Some sz) \<in> set (snd (fst (agent_defines bh w))) \<longleftrightarrow>
     (\<exists>binary out. bh_var bh pool_binary_env = Some binary \<and>
        fst (bh_output bh binary (''AFL_DUMP_MAP_SIZE'', ''1'') w) = Some out \<and>
        trim out = sz \<and> sz \<noteq> [] \<and> list_all is_digit sz)"
  by (auto simp: agent_defines_def map_size_def Let_def split: option.splits prod.splits)

end
