(* ===== verification/Macros.thy ===== *)
theory Macros
  imports Sim_Runtime Texts
begin

text \<open>
  The attribute macros of the simulation (\<open>stratamoto-macros/src/lib.rs\<close>): what they make of an async
  function, and what the function they make does when it is called. Parsing of tokens is \<open>syn\<close>'s
  and a parameter; a function is what the macros look at of it, whether it is async, with the rest
  of its signature and its body opaque.
\<close>

section \<open>Expansion\<close>

record ('sig, 'body) item_fn =
  fn_async :: bool
  fn_sig :: 'sig
  fn_body :: 'body

text \<open>The body that is put in: the function's own, run on a runtime seeded by the time.\<close>

datatype 'body expanded_body = SeededRun 'body

record ('sig, 'body) expansion =
  en_test :: bool
  en_fn :: "('sig, 'body expanded_body) item_fn"

definition missing_async :: string where
  "missing_async = ''the async keyword is missing from the function declaration''"

definition macro_parse ::
  "('sig, 'body) item_fn \<Rightarrow> 'args \<Rightarrow> bool \<Rightarrow> (string, ('sig, 'body) expansion) outcome" where
  "macro_parse input args is_test =
     (if \<not> fn_async input then Err missing_async
      else Ok \<lparr>en_test = is_test,
               en_fn = \<lparr>fn_async = False, fn_sig = fn_sig input, fn_body = SeededRun (fn_body input)\<rparr>\<rparr>)"

datatype ('sig, 'body) tokens = CompileError string | Expanded "('sig, 'body) expansion"

definition attribute ::
  "('t \<Rightarrow> string + ('sig, 'body) item_fn) \<Rightarrow> ('t \<Rightarrow> string + 'args) \<Rightarrow> bool \<Rightarrow> 't \<Rightarrow> 't \<Rightarrow> ('sig, 'body) tokens" where
  "attribute parse_item parse_args is_test args item =
     (case parse_item item of
        Inl e \<Rightarrow> CompileError e
      | Inr input \<Rightarrow>
          (case parse_args args of
             Inl e \<Rightarrow> CompileError e
           | Inr parsed \<Rightarrow>
               (case macro_parse input parsed is_test of
                  Ok ex \<Rightarrow> Expanded ex
                | Err e \<Rightarrow> CompileError e
                | Panic \<Rightarrow> CompileError [])))"

section \<open>Running what they make\<close>

text \<open>The time since the epoch in seconds is missing when the clock is before it. The call prints on a
  panic, and panics again.\<close>

definition seeded_run ::
  "(nat \<Rightarrow> 'r) \<Rightarrow> (callback timer \<Rightarrow> nat) \<Rightarrow> ('v, 'r sim_world) tasks \<Rightarrow> nat option \<Rightarrow> instant \<Rightarrow>
   ((unit, unit) outcome \<times> string list) option" where
  "seeded_run seed_from pk tk secs now =
     (case secs of
        None \<Rightarrow> Some (Panic, [])
      | Some sd \<Rightarrow>
          (case runtime_block_on pk tk \<lparr>th_runtime = new_with_seed seed_from now sd, th_entered = False\<rparr> of
             None \<Rightarrow> None
           | Some (Ok v, th) \<Rightarrow> Some (Ok (), [])
           | Some (_, th) \<Rightarrow> Some (Panic, [''seed = '' @ decimal sd])))"

section \<open>Moving the clock\<close>

text \<open>The same state, begun at a later time.\<close>

definition shift_event :: "nat \<Rightarrow> 'c timer_event \<Rightarrow> 'c timer_event" where
  "shift_event k e = e\<lparr>ev_deadline := ev_deadline e + k\<rparr>"

definition shift_time :: "nat \<Rightarrow> 'c time_runtime \<Rightarrow> 'c time_runtime" where
  "shift_time k rt = \<lparr>rt_timer = map (shift_event k) (rt_timer rt),
     rt_clock = \<lparr>ck_base = ck_base (rt_clock rt) + k, ck_advance = ck_advance (rt_clock rt)\<rparr>\<rparr>"

definition shift :: "nat \<Rightarrow> 'x executor \<Rightarrow> 'x executor" where
  "shift k s = s\<lparr>ex_time := shift_time k (ex_time s)\<rparr>"

text \<open>A program that sees differences of time only, and a heap that breaks ties without the clock.\<close>

definition time_blind :: "(callback timer \<Rightarrow> nat) \<Rightarrow> ('v, 'x) tasks \<Rightarrow> bool" where
  "time_blind pk tk \<longleftrightarrow>
     (\<forall>k q. pk (map (shift_event k) q) = pk q) \<and>
     (\<forall>k t s. tk_run tk t (shift k s) = map_prod id (shift k) (tk_run tk t s) \<and>
        tk_drop tk t (shift k s) = shift k (tk_drop tk t s) \<and>
        tk_poll tk t (shift k s) = map_prod id (shift k) (tk_poll tk t s)) \<and>
     (\<forall>k c s. tk_fire tk c (shift k s) = shift k (tk_fire tk c s))"

lemma shift_simps [simp]:
  "ex_queue (shift k s) = ex_queue s" "ex_nodes (shift k s) = ex_nodes s" "ex_infos (shift k s) = ex_infos s"
  "ex_fresh (shift k s) = ex_fresh s" "ex_owner (shift k s) = ex_owner s" "ex_tasks (shift k s) = ex_tasks s"
  "ex_time (shift k s) = shift_time k (ex_time s)" "ex_addr (shift k s) = ex_addr s"
  "ex_world (shift k s) = ex_world s"
  by (simp_all add: shift_def)

lemma shift_updates:
  "(shift k s)\<lparr>ex_queue := q\<rparr> = shift k (s\<lparr>ex_queue := q\<rparr>)"
  "(shift k s)\<lparr>ex_addr := a\<rparr> = shift k (s\<lparr>ex_addr := a\<rparr>)"
  "(shift k s)\<lparr>ex_infos := i\<rparr> = shift k (s\<lparr>ex_infos := i\<rparr>)"
  "(shift k s)\<lparr>ex_fresh := f\<rparr> = shift k (s\<lparr>ex_fresh := f\<rparr>)"
  "(shift k s)\<lparr>ex_owner := o'\<rparr> = shift k (s\<lparr>ex_owner := o'\<rparr>)"
  "(shift k s)\<lparr>ex_tasks := n\<rparr> = shift k (s\<lparr>ex_tasks := n\<rparr>)"
  "(shift k s)\<lparr>ex_time := shift_time k rt\<rparr> = shift k (s\<lparr>ex_time := rt\<rparr>)"
  by (simp_all add: shift_def)

lemma shift_new: "new_with_seed seed_from (now + k) sd = shift k (new_with_seed seed_from now sd)"
  by (simp add: new_with_seed_def new_executor_def shift_def shift_time_def new_time_runtime_def)

lemma ready_turn_shift:
  assumes "time_blind pk tk"
  shows "ready_turn tk (shift k s) = map_sum (map_prod id (shift k)) (shift k) (ready_turn tk s)"
  using assms
  by (auto simp: ready_turn_def run_task_def time_blind_def shift_updates Let_def
      split: list.split prod.split)

lemma next_time_shift:
  assumes "pk (map (shift_event k) q) = pk q"
  shows "next_time pk (map (shift_event k) q) = map_option (\<lambda>t. t + k) (next_time pk q)"
  using assms by (auto simp: next_time_def get_def shift_event_def)

lemma timer_fire_shift:
  assumes "\<And>k q. pk (map (shift_event k) q) = pk q"
  shows "timer_fire pk (time + k) (map (shift_event k) q) =
    map_prod (map (shift_event k)) (map (shift_event k)) (timer_fire pk time q)"
  using assms
proof (induction pk time q rule: timer_fire.induct)
  case (1 pk time q)
  show ?case
    using "1.IH" [OF _ _ _ refl "1.prems"] "1.prems"
    by (subst (1 2) timer_fire.simps)
      (auto simp: next_time_shift heap_pop_def get_def take_map drop_map Let_def split: option.splits prod.splits)
qed

lemma advance_shift:
  assumes "time_blind pk tk"
  shows "advance pk (shift_time k rt) =
    (case advance pk rt of (going, fired, rt') \<Rightarrow> (going, map (shift_event k) fired, shift_time k rt'))"
proof -
  have pk: "pk (map (shift_event k) q) = pk q" for k q using assms by (simp add: time_blind_def)
  show ?thesis
    using pk
    by (auto simp: advance_def shift_time_def next_time_shift timer_fire_shift clock_set_def
        duration_since_def split: option.split prod.split)
qed

lemma time_advance_shift:
  assumes "time_blind pk tk"
  shows "time_advance pk tk (shift k s) = map_prod id (shift k) (time_advance pk tk s)"
proof -
  have fire: "fold (\<lambda>e. tk_fire tk (ev_callback e)) (map (shift_event k) es) (shift k s) =
      shift k (fold (\<lambda>e. tk_fire tk (ev_callback e)) es s)" for es s
    using assms by (induction es arbitrary: s) (simp_all add: shift_event_def time_blind_def)
  show ?thesis
    by (auto simp: time_advance_def advance_shift [OF assms] fire shift_updates split: prod.split)
qed

text \<open>Both loops move with the clock, in both directions.\<close>

lemma run_all_ready_shift:
  assumes "run_all_ready tk s = Some y" and "time_blind pk tk"
  shows "run_all_ready tk (shift k s) = Some (map_prod id (shift k) y)"
proof -
  let ?P = "\<lambda>(tk :: ('v, 'x) tasks) s y. time_blind pk tk \<longrightarrow>
      run_all_ready tk (shift k s) = Some (map_prod id (shift k) y)"
  have "?P tk s y"
  proof (rule run_all_ready.raw_induct [where P = ?P, OF _ assms(1)])
    fix again :: "('v, 'x) tasks \<Rightarrow> 'x executor \<Rightarrow> ((unit, unit) outcome \<times> 'x executor) option" and tk s y
    assume IH: "\<And>tk s y. again tk s = Some y \<Longrightarrow> ?P tk s y"
      and eq: "(case ready_turn tk s of Inl res \<Rightarrow> Some res | Inr s1 \<Rightarrow> again tk s1) = Some y"
    show "?P tk s y"
      using IH eq
      by (auto simp: run_all_ready.simps [of tk "shift k s"] ready_turn_shift split: sum.splits)
  qed
  with assms(2) show ?thesis by blast
qed

lemma run_all_ready_unshift:
  assumes "run_all_ready tk (shift k s) = Some y" and "time_blind pk tk"
  shows "\<exists>y0. run_all_ready tk s = Some y0 \<and> y = map_prod id (shift k) y0"
proof -
  let ?P = "\<lambda>(tk :: ('v, 'x) tasks) t y. time_blind pk tk \<longrightarrow> (\<forall>s. t = shift k s \<longrightarrow>
      (\<exists>y0. run_all_ready tk s = Some y0 \<and> y = map_prod id (shift k) y0))"
  have "?P tk (shift k s) y"
  proof (rule run_all_ready.raw_induct [where P = ?P, OF _ assms(1)])
    fix again :: "('v, 'x) tasks \<Rightarrow> 'x executor \<Rightarrow> ((unit, unit) outcome \<times> 'x executor) option" and tk t y
    assume IH: "\<And>tk t y. again tk t = Some y \<Longrightarrow> ?P tk t y"
      and eq: "(case ready_turn tk t of Inl res \<Rightarrow> Some res | Inr s1 \<Rightarrow> again tk s1) = Some y"
    show "?P tk t y"
    proof (intro impI allI)
      fix s
      assume blind: "time_blind pk tk" and t: "t = shift k s"
      show "\<exists>y0. run_all_ready tk s = Some y0 \<and> y = map_prod id (shift k) y0"
      proof (cases "ready_turn tk s")
        case (Inl res)
        with eq t blind show ?thesis by (simp add: run_all_ready.simps [of tk s] ready_turn_shift)
      next
        case (Inr s1)
        with eq t blind have "again tk (shift k s1) = Some y" by (simp add: ready_turn_shift)
        from IH [OF this] blind Inr show ?thesis by (simp add: run_all_ready.simps [of tk s])
      qed
    qed
  qed
  with assms(2) show ?thesis by blast
qed

lemma block_loop_shift:
  assumes "block_loop pk tk main s = Some y" and "time_blind pk tk"
  shows "block_loop pk tk main (shift k s) = Some (map_prod id (shift k) y)"
proof -
  let ?P = "\<lambda>pk (tk :: ('v, 'x) tasks) main s y. time_blind pk tk \<longrightarrow>
      block_loop pk tk main (shift k s) = Some (map_prod id (shift k) y)"
  have "?P pk tk main s y"
  proof (rule block_loop.raw_induct [where P = ?P, OF _ assms(1)])
    fix again :: "(callback timer \<Rightarrow> nat) \<Rightarrow> ('v, 'x) tasks \<Rightarrow> nat \<Rightarrow> 'x executor \<Rightarrow>
        ((unit, 'v) outcome \<times> 'x executor) option" and pk tk main s y
    assume IH: "\<And>pk tk main s y. again pk tk main s = Some y \<Longrightarrow> ?P pk tk main s y"
      and eq: "(case run_all_ready tk s of
            None \<Rightarrow> None
          | Some (Ok _, s1) \<Rightarrow>
              (case tk_poll tk main s1 of
                 (Some v, s2) \<Rightarrow> Some (Ok v, s2)
               | (None, s2) \<Rightarrow>
                   (case time_advance pk tk s2 of
                      (going, s3) \<Rightarrow> if going then again pk tk main s3 else Some (Panic, s3)))
          | Some (_, s1) \<Rightarrow> Some (Panic, s1)) = Some y"
    show "?P pk tk main s y"
    proof
      assume blind: "time_blind pk tk"
      then have poll: "tk_poll tk t (shift k s) = map_prod id (shift k) (tk_poll tk t s)" for t s
        by (simp add: time_blind_def)
      from eq obtain r s1 where ready: "run_all_ready tk s = Some (r, s1)" by (auto split: option.splits)
      from run_all_ready_shift [OF this blind, of k]
      have "run_all_ready tk (shift k s) = Some (r, shift k s1)" by simp
      with eq ready IH blind show "block_loop pk tk main (shift k s) = Some (map_prod id (shift k) y)"
        by (cases y) (auto simp: block_loop.simps [of pk tk main "shift k s"] poll time_advance_shift [OF blind]
            split: outcome.splits prod.splits option.splits if_splits)
    qed
  qed
  with assms(2) show ?thesis by blast
qed

lemma block_loop_unshift:
  assumes "block_loop pk tk main (shift k s) = Some y" and "time_blind pk tk"
  shows "\<exists>y0. block_loop pk tk main s = Some y0 \<and> y = map_prod id (shift k) y0"
proof -
  let ?P = "\<lambda>pk (tk :: ('v, 'x) tasks) main t y. time_blind pk tk \<longrightarrow> (\<forall>s. t = shift k s \<longrightarrow>
      (\<exists>y0. block_loop pk tk main s = Some y0 \<and> y = map_prod id (shift k) y0))"
  have "?P pk tk main (shift k s) y"
  proof (rule block_loop.raw_induct [where P = ?P, OF _ assms(1)])
    fix again :: "(callback timer \<Rightarrow> nat) \<Rightarrow> ('v, 'x) tasks \<Rightarrow> nat \<Rightarrow> 'x executor \<Rightarrow>
        ((unit, 'v) outcome \<times> 'x executor) option" and pk tk main t y
    assume IH: "\<And>pk tk main t y. again pk tk main t = Some y \<Longrightarrow> ?P pk tk main t y"
      and eq: "(case run_all_ready tk t of
            None \<Rightarrow> None
          | Some (Ok _, s1) \<Rightarrow>
              (case tk_poll tk main s1 of
                 (Some v, s2) \<Rightarrow> Some (Ok v, s2)
               | (None, s2) \<Rightarrow>
                   (case time_advance pk tk s2 of
                      (going, s3) \<Rightarrow> if going then again pk tk main s3 else Some (Panic, s3)))
          | Some (_, s1) \<Rightarrow> Some (Panic, s1)) = Some y"
    show "?P pk tk main t y"
    proof (intro impI allI)
      fix s
      assume blind: "time_blind pk tk" and t: "t = shift k s"
      then have poll: "tk_poll tk j (shift k s) = map_prod id (shift k) (tk_poll tk j s)" for j s
        by (simp add: time_blind_def)
      from eq obtain y1 where "run_all_ready tk (shift k s) = Some y1" using t by (auto split: option.splits)
      with run_all_ready_unshift [OF this blind] obtain r s1 where
        ready: "run_all_ready tk s = Some (r, s1)" "run_all_ready tk (shift k s) = Some (r, shift k s1)"
        by auto
      show "\<exists>y0. block_loop pk tk main s = Some y0 \<and> y = map_prod id (shift k) y0"
      proof (cases "\<exists>u s2 s3. r = Ok u \<and> tk_poll tk main s1 = (None, s2) \<and> time_advance pk tk s2 = (True, s3)")
        case True
        then obtain u s2 s3 where *: "r = Ok u" "tk_poll tk main s1 = (None, s2)" "time_advance pk tk s2 = (True, s3)"
          by blast
        with eq t ready have "again pk tk main (shift k s3) = Some y"
          by (simp add: poll time_advance_shift [OF blind])
        with IH blind obtain y0 where "block_loop pk tk main s3 = Some y0" "y = map_prod id (shift k) y0" by blast
        with * ready(1) show ?thesis by (simp add: block_loop.simps [of pk tk main s])
      next
        case False
        with eq t ready show ?thesis
          by (auto simp: block_loop.simps [of pk tk main s] poll time_advance_shift [OF blind]
              split: outcome.splits prod.splits option.splits if_splits)
      qed
    qed
  qed
  with assms(2) show ?thesis by blast
qed

lemma block_on_shift:
  assumes "time_blind pk tk"
  shows "block_on pk tk (shift k s) = map_option (map_prod id (shift k)) (block_on pk tk s)"
proof -
  obtain i s1 where i: "new_info unspecified_addr s = (i, s1)" by fastforce
  obtain main s2 where m: "spawn_on i s1 = (main, s2)" by fastforce
  have shifted: "new_info unspecified_addr (shift k s) = (i, shift k s1)"
    "spawn_on i (shift k s1) = (main, shift k s2)"
    using i m by (auto simp: new_info_def spawn_on_def schedule_def shift_updates split: option.splits)
  have "block_loop pk tk main (shift k s2) = map_option (map_prod id (shift k)) (block_loop pk tk main s2)"
  proof (cases "block_loop pk tk main s2")
    case None
    then show ?thesis
      using block_loop_unshift [OF _ assms, of main k s2]
      by (cases "block_loop pk tk main (shift k s2)") fastforce+
  next
    case (Some y)
    with block_loop_shift [OF Some assms, of k] show ?thesis by simp
  qed
  with i m shifted show ?thesis by (simp add: block_on_def)
qed

text \<open>What a run comes to does not depend on when it began.\<close>

lemma outcome_timeless:
  assumes "time_blind pk tk"
  shows "map_option fst (runtime_block_on pk tk \<lparr>th_runtime = new_with_seed seed_from now sd, th_entered = e\<rparr>) =
    map_option fst (runtime_block_on pk tk \<lparr>th_runtime = new_with_seed seed_from 0 sd, th_entered = e\<rparr>)"
  using block_on_shift [OF assms, of now "new_with_seed seed_from 0 sd"] shift_new [of seed_from 0 now sd]
  by (simp add: runtime_block_on_def split: option.split prod.split)

section \<open>Properties\<close>


text \<open>A program that does nothing: nothing is to be waited for, and the executor says so by a panic.\<close>

definition idle_tasks :: "(unit, 'x) tasks" where
  "idle_tasks = \<lparr>tk_run = (\<lambda>t s. (False, s)), tk_drop = (\<lambda>t s. s), tk_fire = (\<lambda>c s. s),
     tk_poll = (\<lambda>t s. (None, s))\<rparr>"


text \<open>What is not async is refused, and nothing else is.\<close>

theorem only_async_functions_expand:
  "attribute parse_item parse_args is_test args item = Expanded ex \<longleftrightarrow>
     (\<exists>input parsed. parse_item item = Inr input \<and> parse_args args = Inr parsed \<and> fn_async input \<and>
        ex = \<lparr>en_test = is_test, en_fn = \<lparr>fn_async = False, fn_sig = fn_sig input, fn_body = SeededRun (fn_body input)\<rparr>\<rparr>)"
  by (auto simp: attribute_def macro_parse_def split: sum.split)

end
