(* ===== verification/Campaign_Entry.thy ===== *)
theory Campaign_Entry
  imports Campaign_Setup Objectives Status_Line
begin

text \<open>
  The fuzzer from its \<open>main\<close> (\<open>stratamoto-libafl/src/main.rs\<close> and \<open>fuzzer.rs\<close>), with where the monitor's
  lines go, and the rest of what \<open>Instance::run\<close> puts together: the feedback that rates an input, and
  the stages an entry of the corpus goes through. clap, libafl and the files are parameters.
\<close>

section \<open>The entry point\<close>

text \<open>Opening a file to append to it, a line on the screen, the time as it is printed, and a line to a
  file.\<close>

record 's entry_host =
  eh_open_append :: "string \<Rightarrow> 's \<Rightarrow> bool \<times> 's"
  eh_println :: "string \<Rightarrow> 's \<Rightarrow> 's"
  eh_now_debug :: "'s \<Rightarrow> string \<times> 's"
  eh_writeln :: "string \<Rightarrow> string \<Rightarrow> 's \<Rightarrow> bool \<times> 's"

datatype line_monitor = TuiMonitor string | LineMonitor "string option"

text \<open>A log that cannot be opened is no log.\<close>

definition open_log :: "'s entry_host \<Rightarrow> fuzzer_options \<Rightarrow> 's \<Rightarrow> string option \<times> 's" where
  "open_log h o' s =
     (case op_log o' of
        None \<Rightarrow> (None, s)
      | Some l \<Rightarrow> (case eh_open_append h l s of (yes, s1) \<Rightarrow> (if yes then Some l else None, s1)))"

definition log_fn :: "'s entry_host \<Rightarrow> string option \<Rightarrow> string \<Rightarrow> 's \<Rightarrow> (unit, unit) outcome \<times> 's" where
  "log_fn h log_to line s =
     (let s1 = eh_println h line s
      in case log_to of
           None \<Rightarrow> (Ok (), s1)
         | Some l \<Rightarrow>
             (case eh_now_debug h s1 of
                (now, s2) \<Rightarrow>
                  (case eh_writeln h l (now @ '' '' @ line) s2 of
                     (True, s3) \<Rightarrow> (Ok (), s3)
                   | (False, s3) \<Rightarrow> (Panic, s3))))"

definition fuzz :: "'s entry_host \<Rightarrow> (line_monitor \<Rightarrow> fuzzer_options \<Rightarrow> 's \<Rightarrow> (ending \<times> 's) option) \<Rightarrow>
    fuzzer_options \<Rightarrow> 's \<Rightarrow> (ending \<times> 's) option" where
  "fuzz h launch o' s =
     (if op_tui o' then launch (TuiMonitor ''stratamoto IR fuzzer'') o' s
      else case open_log h o' s of (log_to, s1) \<Rightarrow> launch (LineMonitor log_to) o' s1)"

text \<open>clap ends the process on a command line it cannot parse; a failure is unwrapped.\<close>

definition fuzzer_main ::
  "('s \<Rightarrow> nat + fuzzer_options) \<Rightarrow> 's entry_host \<Rightarrow> (line_monitor \<Rightarrow> fuzzer_options \<Rightarrow> 's \<Rightarrow> (ending \<times> 's) option) \<Rightarrow>
   's \<Rightarrow> (ending \<times> 's) option" where
  "fuzzer_main parse h launch s =
     (case parse s of
        Inl code \<Rightarrow> Some (Exited code, s)
      | Inr o' \<Rightarrow>
          (case fuzz h launch o' s of
             Some (Failed e, s1) \<Rightarrow> Some (Panicked, s1)
           | r \<Rightarrow> r))"

text \<open>What the monitor shows, line by line, until a line cannot be written.\<close>

fun show_lines :: "'s entry_host \<Rightarrow> string option \<Rightarrow> string list \<Rightarrow> 's \<Rightarrow> (unit, unit) outcome \<times> 's" where
  "show_lines h log_to [] s = (Ok (), s)"
| "show_lines h log_to (line # ls) s =
     (case log_fn h log_to line s of
        (Ok _, s1) \<Rightarrow> show_lines h log_to ls s1
      | (r, s1) \<Rightarrow> (r, s1))"

section \<open>Rating an input\<close>

text \<open>The fast conjunction and the feedback on the time are libafl's, as is the one on the coverage map.\<close>

record 's rating_libafl =
  rl_or :: "'s feedback \<Rightarrow> 's feedback \<Rightarrow> 's feedback"
  rl_and_fast :: "'s feedback \<Rightarrow> 's feedback \<Rightarrow> 's feedback"
  rl_const :: "bool \<Rightarrow> 's feedback"
  rl_map :: "'s feedback"
  rl_time :: "'s feedback"

definition rating_feedback :: "'s rating_libafl \<Rightarrow> fuzzer_options \<Rightarrow> 's feedback" where
  "rating_feedback rl o' =
     rl_or rl
       (rl_and_fast rl (rl_const rl (\<not> op_static_corpus o'))
          (rl_and_fast rl (rl_const rl (op_minimize_input o' = None)) (rl_map rl)))
       (rl_time rl)"

text \<open>What libafl documents: \<open>feedback_or\<close> asks both, the fast conjunction asks the second when the first
  says yes, and the time is recorded without being interesting.\<close>

definition rating_ok :: "'s rating_libafl \<Rightarrow> bool" where
  "rating_ok rl \<longleftrightarrow>
     (\<forall>a b p k s. interesting (rl_or rl a b) p k s =
        and_then_if (interesting a p k s) False (interesting b p k) (\<or>)) \<and>
     (\<forall>a b p k s. interesting (rl_and_fast rl a b) p k s =
        (case interesting a p k s of
           (Inr True, s1) \<Rightarrow> interesting b p k s1
         | (r, s1) \<Rightarrow> (r, s1))) \<and>
     (\<forall>c p k s. interesting (rl_const rl c) p k s = (Inr c, s)) \<and>
     (\<forall>p k s. interesting (rl_time rl) p k s = (Inr False, s))"

section \<open>The stages of an entry\<close>

type_synonym ('e, 's) fuzz_stage = "'s \<Rightarrow> (('e, unit) outcome \<times> 's) option"

fun run_stages :: "('e, 's) fuzz_stage list \<Rightarrow> ('e, 's) fuzz_stage" where
  "run_stages [] s = Some (Ok (), s)"
| "run_stages (st # sts) s =
     (case st s of
        None \<Rightarrow> None
      | Some (Ok _, s1) \<Rightarrow> run_stages sts s1
      | Some (r, s1) \<Rightarrow> Some (r, s1))"

definition if_stage :: "bool \<Rightarrow> ('e, 's) fuzz_stage list \<Rightarrow> ('e, 's) fuzz_stage" where
  "if_stage enabled sts s = (if enabled then run_stages sts s else Some (Ok (), s))"

text \<open>Minimizing comes first; a crash that is minimized is not fuzzed.\<close>

definition entry_stages ::
  "fuzzer_options \<Rightarrow> ('e, 's) fuzz_stage \<Rightarrow> ('e, 's) fuzz_stage \<Rightarrow> ('e, 's) fuzz_stage \<Rightarrow> ('e, 's) fuzz_stage \<Rightarrow>
   ('e, 's) fuzz_stage" where
  "entry_stages o' minimize stability mutate verify =
     run_stages
       [minimize,
        if_stage (op_minimize_input o' = None)
          [stability, mutate, if_stage (\<not> op_ignore_hangs o') [verify]]]"

section \<open>What they do\<close>

text \<open>An input is worth keeping when it covers something new, unless the corpus is static or a crash is
  minimized: then the coverage is not even looked at.\<close>

theorem rating_is_exact:
  assumes "rating_ok rl"
  shows "interesting (rating_feedback rl o') p k s =
    (if op_static_corpus o' \<or> op_minimize_input o' \<noteq> None then (Inr False, s)
     else interesting (rl_map rl) p k s)"
  using assms
  by (cases "op_static_corpus o'"; cases "op_minimize_input o'")
    (auto simp: rating_ok_def rating_feedback_def and_then_if_def split: sum.split prod.split)

text \<open>The line monitor's log follows the screen: each line that was shown, with the time before it, in
  order, as long as the file can be written.\<close>

theorem log_follows_screen:
  assumes "\<And>l s. on_screen (eh_println h l s) = on_screen s @ [l] \<and> in_log (eh_println h l s) = in_log s"
    and "\<And>s. on_screen (snd (eh_now_debug h s)) = on_screen s \<and> in_log (snd (eh_now_debug h s)) = in_log s"
    and "\<And>f l s. on_screen (snd (eh_writeln h f l s)) = on_screen s \<and>
      in_log (snd (eh_writeln h f l s)) = (if fst (eh_writeln h f l s) then in_log s @ [l] else in_log s)"
    and "show_lines h (Some f) ls s = (Ok (), s')"
  shows "on_screen s' = on_screen s @ ls \<and>
    (\<exists>nows. length nows = length ls \<and> in_log s' = in_log s @ map2 (\<lambda>now l. now @ '' '' @ l) nows ls)"
  using assms(4)
proof (induction ls arbitrary: s)
  case (Cons l ls)
  obtain now s2 where now: "eh_now_debug h (eh_println h l s) = (now, s2)" by fastforce
  obtain b s3 where wr: "eh_writeln h f (now @ '' '' @ l) s2 = (b, s3)" by fastforce
  from Cons.prems now wr have b: "b" "show_lines h (Some f) ls s3 = (Ok (), s')"
    by (auto simp: log_fn_def split: if_splits bool.splits)
  have s3: "on_screen s3 = on_screen s @ [l]" "in_log s3 = in_log s @ [now @ '' '' @ l]"
    using assms(1) [of l s] assms(2) [of "eh_println h l s"] assms(3) [of f "now @ '' '' @ l" s2] now wr b(1)
    by simp_all
  from Cons.IH [OF b(2)] obtain nows where
    "length nows = length ls" "in_log s' = in_log s3 @ map2 (\<lambda>now l. now @ '' '' @ l) nows ls" "on_screen s' = on_screen s3 @ ls"
    by blast
  with s3 show ?case by (intro conjI exI [of _ "now # nows"]) simp_all
qed simp

text \<open>A log file that cannot be opened is passed over in silence, while a line that cannot be written to it
  ends the fuzzer by a panic.\<close>

theorem unopened_log_is_no_log:
  assumes "op_log o' = Some f" and "eh_open_append h f s = (False, s)" and "\<not> op_tui o'"
  shows "fuzz h launch o' s = launch (LineMonitor None) o' s"
  using assms by (simp add: fuzz_def open_log_def)

theorem unwritten_line_panics:
  assumes "eh_now_debug h (eh_println h l s) = (now, s2)" and "eh_writeln h f (now @ '' '' @ l) s2 = (False, s3)"
  shows "log_fn h (Some f) l s = (Panic, s3)"
  using assms by (simp add: log_fn_def)

text \<open>How the fuzzer ends: stopped by its user it returns, and every failure is a panic.\<close>

theorem fuzzer_main_ends:
  assumes "fuzzer_main parse h (\<lambda>m. launch_fuzzer shmem (launcher m) (client m)) s = Some (en, s')"
    and "parse s = Inr o'" and "\<not> op_tui o'" and "open_log h o' s = (log_to, s1)"
  shows "(\<forall>e. en \<noteq> Failed e) \<and>
    (\<forall>e. shmem = Inl e \<longrightarrow> en = Panicked \<and> s' = s1) \<and>
    (op_rerun_input o' = None \<and> op_minimize_input o' = None \<and> shmem = Inr () \<longrightarrow>
      (\<exists>r. launcher (LineMonitor log_to) o' s1 = Some (r, s') \<and>
         (en = Returned \<longleftrightarrow> r = Inr () \<or> r = Inl ShuttingDown) \<and> (en = Panicked \<longleftrightarrow> (\<exists>e. r = Inl (LaunchError e)))))"
  using assms
  by (cases shmem)
    (auto simp: fuzzer_main_def fuzz_def launch_fuzzer_def
      split: option.splits ending.splits prod.splits sum.splits launch_error.splits if_splits)

end
