(* ===== verification/Spec2Isabelle.thy ===== *)
theory Spec2Isabelle
  imports Compiler_Log Compiler_Sessions Ir_Text Ir_Mutators Timeouts Stability Sim_Fs
    Sim_Task Objectives Minimizing Pool
    Cli Campaign Sim_Runtime Sim_Timeout Pool_Scenario Status_Line Noise_Handshake
    Scenario_Runs Nyx_Crash Nyx_Build Macros Campaign_Entry
begin

text \<open>
  A verification library for stratamoto, a snapshot fuzzer of Stratum V2 roles. Paths below are under
  \<open>src/crates/\<close>.

  The program and how its parts interact. A test case is a program of an intermediate representation:
  instructions that load values, open connections, send a SetupConnection or a raw frame, wait for
  answers and probe a connection. The fuzzer (\<open>stratamoto-libafl\<close>) mutates, splices, generates and
  minimizes programs (\<open>stratamoto-ir\<close>); each goes as bytes to a scenario binary
  (\<open>stratamoto-scenarios\<close>) inside a Nyx machine, which decodes it, checks it, compiles it to actions,
  runs the actions against a pool (\<open>stratamoto-targets\<close>) over encrypted connections and lets oracles
  decide (\<open>stratamoto\<close>). What they decide leaves the machine as a hypercall of the Nyx agent
  (\<open>stratamoto-nyx-sys\<close>), and the fuzzer files a finding by the cause its text reports. Beside this
  line stand a command line tool (\<open>stratamoto-cli\<close>) and a deterministic simulation of time, network,
  files and tasks (\<open>stratamoto-dst\<close>, \<open>stratamoto-macros\<close>).

  How code becomes definitions. A struct is a record, an enum a datatype, a function a definition that
  keeps its name where HOL allows it. A fallible function yields \<open>Ok\<close>, \<open>Err\<close> or \<open>Panic\<close> (type
  \<open>outcome\<close> of Prelude), so a panic of the source is a value; what takes \<open>&mut self\<close> returns the new
  state. Integers that reach the wire or may wrap are words of their width; counts of things in memory
  are \<open>nat\<close>. Code outside the repository (libafl, the wire and codec libraries, postcard, tokio, the
  rand crate, the operating system, the hypervisor) is a record of functions that the definitions take
  as an argument, often over a world \<open>'w\<close> of unknown type; where a theorem needs something of it, a
  named hypothesis says what (\<open>codec_ok\<close>, \<open>libafl_ok\<close>, \<open>helpers_ok\<close>, \<open>vm_ok\<close>, \<open>drains\<close> and the like),
  and a witness instantiates it.

  The prelude and what is shared. Prelude: words, \<open>outcome\<close>, checked indexing. Rng: the random
  generator as a record of its draws. Texts, Numbers, Paths: what the sources use of the standard
  library to print and read numbers and to join paths.

  The intermediate representation (\<open>stratamoto-ir/src\<close>).
  \<^item> Ir_Types: \<open>variable.rs\<close>, \<open>operation.rs\<close>, \<open>errors.rs\<close>, \<open>instruction.rs\<close> and the structs of
    \<open>lib.rs\<close>. Ir_Text: how they print.
  \<^item> Typing: the abstract specification, a typing judgement on programs with a stack of frames. Builder:
    \<open>builder.rs\<close>. Builder_Typing and Static_Validity: the invariant of the builder, that every \<open>append\<close>
    implements the judgement also when it fails, that the executable check decides the judgement, and
    when it panics.
  \<^item> Program_Ops, Generators, Mutators, Minimizers: the rest of \<open>lib.rs\<close>, \<open>generators/\<close>, \<open>mutators/\<close>,
    \<open>minimizers/\<close>. Each keeps validity, or exactly when it does. Generators share the contract of the
    locale \<open>generator\<close>, minimizers that of the locale \<open>minimizer\<close>, each interpreted on all of them.
  \<^item> Compiler: \<open>compiler.rs\<close>. Compiler_Blocks: blocks nest and their jumps are patched. Compiler_Sound: a
    valid program compiles. Compiler_Log, Compiler_Sessions: what the metadata says of each action, as
    the oracles and the runner rely on it.

  The harness (\<open>stratamoto/src\<close>).
  \<^item> Frame, Events, Transport: \<open>error.rs\<close> and \<open>frame.rs\<close>, \<open>events.rs\<close>, \<open>roles/mod.rs\<close> and
    \<open>transport.rs\<close>. Frames do not collide; the first decoded frame settles a pending setup.
  \<^item> Noise_Transport, Noise_Handshake: \<open>noise.rs\<close>. A receive that timed out loses nothing of a frame;
    both sides of a handshake come to a transport.
  \<^item> Runner: \<open>runner.rs\<close>. Runner_Facts: its loop as the step relation \<open>turns\<close> with invariants by rule
    induction. Run_Properties: one outcome per action, that a run returns, that a block is entered only
    after the success it waits for.
  \<^item> Oracle, Scenario: \<open>oracle.rs\<close>, \<open>scenario.rs\<close> and \<open>stratamoto-scenarios/src/setup_connection.rs\<close>.
    The verdict is exact, and a server is blamed only for what a conforming client was owed.
  \<^item> Pool, Pool_Scenario: \<open>stratamoto-targets/src\<close> and
    \<open>stratamoto-scenarios/src/pool_setup_connection.rs\<close>, with a local run of the binary, which exits.
  \<^item> Nyx_Runner: \<open>runners.rs\<close> and the entry point over either runner, under the locale
    \<open>runner_contract\<close>, interpreted on the local runner and on the one under Nyx. Scenario_Runs: whole
    runs by both: neither leaves a pool behind, they agree, and a finding is printed and reported so
    that the fuzzer files it.
  \<^item> Nyx_Agent, Nyx_Crash, Nyx_Build (\<open>stratamoto-nyx-sys\<close>): \<open>nyx-agent.c\<close> with the part of \<open>nyx.h\<close> it
    uses, \<open>nyx-crash-handler.c\<close>, \<open>build.rs\<close>. A step of the guest returns, halts in a hypercall,
    panics, diverges or is undefined in C.

  The fuzzer (\<open>stratamoto-libafl/src\<close>).
  \<^item> Ir_Mutators: \<open>mutators.rs\<close>. Minimizer_Stage, Minimizing: \<open>stages/mod.rs\<close> and the loop around the
    three stages, which comes to rest. Stability: \<open>stages/stability_check.rs\<close>. Timeouts:
    \<open>stages/verify_timeouts.rs\<close> and the capture of timeouts. Filing, Objectives: \<open>feedbacks.rs\<close> and the
    objective made of them. Status_Line: \<open>monitor.rs\<close>.
  \<^item> Campaign_Options, Campaign_Setup, Campaign_Entry: \<open>options.rs\<close>, \<open>instance.rs\<close>, \<open>input.rs\<close>,
    \<open>schedulers.rs\<close>, \<open>client.rs\<close>, \<open>fuzzer.rs\<close>, \<open>main.rs\<close>. Campaign: every program that such a campaign
    can come to, as an inductive set over its stages in any order: no stage panics on one, and the
    scenario decides each.

  The tool (\<open>stratamoto-cli/src\<close>). Cli, Init: \<open>main.rs\<close>, \<open>init.rs\<close>. What it generates compiles; the boot
  script finds the files that the share directory holds.

  The simulation (\<open>stratamoto-dst/src\<close>, \<open>stratamoto-macros/src\<close>). Sim_Time, Sim_Timeout: \<open>time/\<close>.
  Sim_Net: \<open>net/\<close>, messages arrive once. Sim_Fs: \<open>fs.rs\<close>, a refinement of a map from paths to
  contents. Sim_Task: \<open>task.rs\<close>, a killed task never runs. Sim_Runtime: \<open>lib.rs\<close>, \<open>rand.rs\<close>,
  \<open>context.rs\<close>. Macros: the attributes, and that the seed a failing test prints makes it fail again.

  Loops, and what bounds them. No fuel is used. A loop that always ends is a \<open>function\<close> with its measure
  (firing timers, the minimizers' \<open>next\<close>, calibration, the queue of timeouts, filling a buffer, printing
  in pieces, searching directories). A loop that ends only if its surroundings let it is a
  \<open>partial_function (option)\<close> with \<open>None\<close> for not returning, and that it returns is a theorem of its own:
  the runner's receiving loops and its loop over the actions return when a link has a bounded backlog
  (\<open>drains\<close>), dialling and waiting for the pool return under a clock that passes the deadline
  (\<open>clock_ok\<close>), the handshake returns when the peer's messages arrive, the loop of minimizing stages
  ends because each round that changes something shortens a measure, and the loop that enlarges the
  crash handler's log ends from a buffer that is not empty. Where returning cannot be had the
  theories say so: a server that floods a probe, a candidate whose execution keeps failing, draws that
  never differ from the value they are to replace. The executor's loops and the reader of a frame have
  theorems for the runs that return, since a simulated program need not end and a decoder may ask for
  more bytes for ever.

  Not modelled. Trace and log lines other than those named above; the texts of failures (values of a
  datatype, with a parameter \<open>render\<close>); the file a minimizing stage writes its result to; what libafl's
  constructors build (observers, the map feedback, the scheduler) and what its events do; parsing by clap
  and syn; of the crash handler what the build script does not compile in (catching signals, the custom
  backtrace); names of trait implementations and conversions between error types that only wrap. Rounding
  of \<open>f32\<close> and \<open>f64\<close> is left out: weights are whole and probabilities rational. Threads do not occur in
  the parts modelled, except that the agent's trace buffer is shared with the target, whose writes are no
  part of a guest's state. The binary of the scenario and module declarations hold no code of their own.
\<close>

end
